(* ===== verification/EK_Prelude.thy ===== *)
theory EK_Prelude
  imports Main "HOL-Library.Word" "HOL-Library.Countable"
begin

text \<open>
  Shared vocabulary of the development: the machine types of the Go sources, the Go
  \<open>error\<close> values and panics, the zero value of a missing map key, and the generic lemmas on
  lists and association lists that the component theories use.

  A Go function that returns an \<open>error\<close> or may panic returns a value of \<open>go_error + 'a\<close>,
  \<open>Inl\<close> being the error. Panics are kept apart from ordinary errors by the constructor
  \<open>Panic\<close>.
\<close>

type_synonym bytes = "8 word list"
type_synonym u8 = "8 word"
type_synonym u32 = "32 word"
type_synonym u64 = "64 word"
type_synonym node_id = string
type_synonym time = int \<comment> \<open>nanoseconds since the zero \<open>time.Time\<close>\<close>

datatype go_error =
    Panic string
  | ErrNotFound
  | ErrVersionMismatch
  | ErrUnknownStatus
  | ErrCorruptSnapshot
  | NotLeaderError node_id
  | ErrStopped
  | ErrNotReady
  | ErrTransferFailed
  | ErrContext
  | ErrConfig string
  | ErrTorn
  | ErrCorrupt
  | ErrIO string
  | ErrBadSnapshot
  | ErrGap
  | ErrUnknownRecord
  | ErrUnmarshal
  | ErrMarshal

named_theorems frame_simps \<open>fields an operation leaves alone\<close>
named_theorems log_simps \<open>laws of the in-memory Raft log\<close>

definition bind_res :: "'e + 'a \<Rightarrow> ('a \<Rightarrow> 'e + 'b) \<Rightarrow> 'e + 'b" where
  "bind_res m f = (case m of Inl e \<Rightarrow> Inl e | Inr a \<Rightarrow> f a)"

definition is_panic :: "go_error + 'a \<Rightarrow> bool" where
  "is_panic m = (case m of Inl (Panic _) \<Rightarrow> True | _ \<Rightarrow> False)"

text \<open>Reading a missing key of a Go map gives the zero value of the element type.\<close>

definition get0 :: "('k \<rightharpoonup> 'v) \<Rightarrow> 'v \<Rightarrow> 'k \<Rightarrow> 'v" where
  "get0 m z k = (case m k of None \<Rightarrow> z | Some v \<Rightarrow> v)"

lemma bind_res_Inr [simp]: "bind_res (Inr a) f = f a"
  by (simp add: bind_res_def)

lemma bind_res_Inl [simp]: "bind_res (Inl e) f = Inl e"
  by (simp add: bind_res_def)

lemma bind_res_eq_Inr:
  "bind_res m f = Inr b \<longleftrightarrow> (\<exists>a. m = Inr a \<and> f a = Inr b)"
  by (cases m) auto

lemma bind_resE:
  assumes "bind_res m f = Inr b"
  obtains a where "m = Inr a" and "f a = Inr b"
  using assms by (auto simp: bind_res_eq_Inr)

lemma get0_Some [simp]: "m k = Some v \<Longrightarrow> get0 m z k = v"
  by (simp add: get0_def)

lemma get0_None [simp]: "m k = None \<Longrightarrow> get0 m z k = z"
  by (simp add: get0_def)

lemma get0_upd [simp]: "get0 (m(k \<mapsto> v)) z k' = (if k' = k then v else get0 m z k')"
  by (simp add: get0_def)

text \<open>Counting: a list of at least \<open>n\<close> distinct members gives a set of that size.\<close>

lemma distinct_subset_card:
  assumes "distinct xs" and "set xs \<subseteq> A" and "finite A"
  shows "length xs \<le> card A"
  using assms by (metis card_mono distinct_card)

lemma majorities_meet:
  assumes "finite E" and "S \<subseteq> E" and "T \<subseteq> E" and "card E < card S + card T"
  shows "\<exists>x. x \<in> S \<and> x \<in> T"
proof (rule ccontr)
  assume "\<not> ?thesis"
  then have disj: "S \<inter> T = {}" by blast
  have fin: "finite S" "finite T"
    using assms(1-3) finite_subset by blast+
  have "card (S \<union> T) = card S + card T"
    using fin disj by (rule card_Un_disjoint)
  moreover have "card (S \<union> T) \<le> card E"
    using assms(1-3) by (intro card_mono) auto
  ultimately show False using assms(4) by simp
qed

section \<open>Operations that change a state and may fail\<close>

text \<open>Go code that returns an error keeps the effects it had before the error.\<close>

type_synonym ('s, 'a) io = "'s \<Rightarrow> 's \<times> (go_error + 'a)"

definition io_ret :: "'a \<Rightarrow> ('s, 'a) io" where
  "io_ret a s = (s, Inr a)"

definition io_err :: "go_error \<Rightarrow> ('s, 'a) io" where
  "io_err e s = (s, Inl e)"

definition io_bind :: "('s, 'a) io \<Rightarrow> ('a \<Rightarrow> ('s, 'b) io) \<Rightarrow> ('s, 'b) io" where
  "io_bind m f s = (case m s of (s', Inl e) \<Rightarrow> (s', Inl e) | (s', Inr a) \<Rightarrow> f a s')"

lemma io_ret_apply [simp]: "io_ret a s = (s, Inr a)"
  by (simp add: io_ret_def)

lemma io_err_apply [simp]: "io_err e s = (s, Inl e)"
  by (simp add: io_err_def)

lemma io_bind_Inr [simp]: "m s = (s', Inr a) \<Longrightarrow> io_bind m f s = f a s'"
  by (simp add: io_bind_def)

lemma io_bind_Inl [simp]: "m s = (s', Inl e) \<Longrightarrow> io_bind m f s = (s', Inl e)"
  by (simp add: io_bind_def)

lemma io_bindE:
  assumes "io_bind m f s = (s', Inr b)"
  obtains s1 a where "m s = (s1, Inr a)" and "f a s1 = (s', Inr b)"
  using assms by (cases "m s"; cases "snd (m s)") (auto simp: io_bind_def)

lemma map_of_filter_keys:
  "map_of (filter (\<lambda>p. P (fst p)) al) k = (if P k then map_of al k else None)"
  by (induction al) auto

end
