(* ===== verification/EK_Pb.thy ===== *)
theory EK_Pb
  imports EK_Prelude
begin

text \<open>
  The protocol-buffer messages of \<open>proto/edgekv.proto\<close> that the modelled packages exchange:
  log entries and durable Raft state, the Raft RPCs, the commands and results of the key-value
  state machine and its snapshot. Each message is a record with one field per proto field, in
  the order of the proto file; an absent field has its proto3 zero value.

  The wire format itself is the third-party package \<open>google.golang.org/protobuf\<close>. Code that
  marshals takes the two functions as arguments; \<open>codec_ok\<close> is the documented law about them
  that the users rely on.

  Log indexes, terms and sequence numbers of the Raft layer are \<open>nat\<close>: the code only adds
  small amounts to them and guards every subtraction, so \<open>uint64\<close> wrap-around is out of
  reach. The versions and the deduplication indexes of the store, where the code does subtract
  without a guard, stay at their width.
\<close>

datatype EntryType = ENTRY_NORMAL | ENTRY_NOOP

record Entry =
  e_index :: nat
  e_term :: nat
  e_type :: EntryType
  e_data :: bytes

record HardState =
  hs_term :: nat
  hs_votedFor :: node_id

record SnapshotMeta =
  sm_index :: nat
  sm_term :: nat
  sm_minWalSegment :: nat

record RequestVoteRequest =
  rv_group :: nat
  rv_term :: nat
  rv_candidateId :: node_id
  rv_lastLogIndex :: nat
  rv_lastLogTerm :: nat
  rv_preVote :: bool

record RequestVoteResponse =
  rvr_term :: nat
  rvr_voteGranted :: bool

record AppendEntriesRequest =
  ae_group :: nat
  ae_term :: nat
  ae_leaderId :: node_id
  ae_prevLogIndex :: nat
  ae_prevLogTerm :: nat
  ae_entries :: "Entry list"
  ae_leaderCommit :: nat

record AppendEntriesResponse =
  aer_term :: nat
  aer_success :: bool
  aer_conflictIndex :: nat
  aer_conflictTerm :: nat

record InstallSnapshotRequest =
  is_group :: nat
  is_term :: nat
  is_leaderId :: node_id
  is_lastIncludedIndex :: nat
  is_lastIncludedTerm :: nat
  is_data :: bytes

record InstallSnapshotResponse =
  isr_term :: nat

record TimeoutNowRequest =
  tn_group :: nat
  tn_term :: nat
  tn_leaderId :: node_id

record TimeoutNowResponse =
  tnr_term :: nat

text \<open>Proto3 enums are open: a decoded command may carry an operation number the program does
  not know.\<close>

datatype Op = OP_PUT | OP_DELETE | OP_OTHER int

record Command =
  cmd_op :: Op
  cmd_key :: string
  cmd_value :: bytes
  cmd_hasExpectedVersion :: bool
  cmd_expectedVersion :: u64
  cmd_requestId :: string
  cmd_cacheable :: bool
  cmd_ttlSeconds :: u32
  cmd_timestampUnixMs :: u64

datatype Status = STATUS_OK | STATUS_NOT_FOUND | STATUS_VERSION_MISMATCH | STATUS_OTHER int

record Result =
  res_status :: Status
  res_version :: u64

record SnapshotRecord =
  sr_key :: string
  sr_value :: bytes
  sr_version :: u64
  sr_deleted :: bool
  sr_cacheable :: bool
  sr_ttlSeconds :: u32
  sr_updatedUnixMs :: u64

record SnapshotDedup =
  sd_requestId :: string
  sd_index :: u64
  sd_result :: Result

record StoreSnapshot =
  ss_records :: "SnapshotRecord list"
  ss_dedup :: "SnapshotDedup list"

definition codec_ok :: "('a \<Rightarrow> bytes option) \<Rightarrow> (bytes \<Rightarrow> 'a option) \<Rightarrow> bool" where
  "codec_ok marshal unmarshal \<longleftrightarrow>
     (\<forall>x b. marshal x = Some b \<longrightarrow> unmarshal b = Some x)"

lemma codec_okD: "codec_ok marshal unmarshal \<Longrightarrow> marshal x = Some b \<Longrightarrow> unmarshal b = Some x"
  by (simp add: codec_ok_def)

end
