(* ===== verification/EK_RaftLog.thy ===== *)
theory EK_RaftLog
  imports EK_Pb
begin

text \<open>
  \<open>internal/raft/log.go\<close>: the in-memory Raft log. Entries up to \<open>snapIndex\<close> live in a snapshot;
  \<open>entries ! i\<close> holds log index \<open>snapIndex + 1 + i\<close>. Slicing and indexing out of range panics
  in Go and is an \<open>Inl\<close> here where the code does not guard it.
\<close>

section \<open>Operations\<close>

record raftLog =
  snapIndex :: nat
  snapTerm :: nat
  entries :: "Entry list"

definition empty_log :: raftLog where
  "empty_log = \<lparr>snapIndex = 0, snapTerm = 0, entries = []\<rparr>"

definition lastIndex :: "raftLog \<Rightarrow> nat" where
  "lastIndex l = snapIndex l + length (entries l)"

definition lastTerm :: "raftLog \<Rightarrow> nat" where
  "lastTerm l =
     (if entries l = [] then snapTerm l else e_term (entries l ! (length (entries l) - 1)))"

text \<open>\<open>term_at l i\<close> is the pair \<open>(term, ok)\<close> of the method \<open>term\<close>, with \<open>None\<close> for
  \<open>(0, false)\<close>; \<open>term0\<close> is the first component alone.\<close>

definition term_at :: "raftLog \<Rightarrow> nat \<Rightarrow> nat option" where
  "term_at l index =
     (if index = snapIndex l then Some (snapTerm l)
      else if index < snapIndex l \<or> index > lastIndex l then None
      else Some (e_term (entries l ! (index - snapIndex l - 1))))"

definition term0 :: "raftLog \<Rightarrow> nat \<Rightarrow> nat" where
  "term0 l index = (case term_at l index of None \<Rightarrow> 0 | Some t \<Rightarrow> t)"

definition slice :: "raftLog \<Rightarrow> nat \<Rightarrow> nat \<Rightarrow> go_error + Entry list" where
  "slice l lo hi =
     (if lo \<le> snapIndex l \<or> hi > lastIndex l \<or> lo > hi
      then if lo > hi then Inr [] else Inl (Panic ''raft: slice out of range'')
      else Inr (take (hi - lo + 1) (drop (lo - snapIndex l - 1) (entries l))))"

fun append_entries :: "raftLog \<Rightarrow> Entry list \<Rightarrow> go_error + raftLog" where
  "append_entries l [] = Inr l"
| "append_entries l (e # es) =
     (if e_index e \<noteq> lastIndex l + 1 then Inl (Panic ''raft: appending index'')
      else append_entries (l\<lparr>entries := entries l @ [e]\<rparr>) es)"

definition truncateFrom :: "raftLog \<Rightarrow> nat \<Rightarrow> go_error + raftLog" where
  "truncateFrom l index =
     (if index \<le> snapIndex l then Inl (Panic ''raft: truncating inside snapshot'')
      else if index > lastIndex l then Inr l
      else Inr (l\<lparr>entries := take (index - snapIndex l - 1) (entries l)\<rparr>))"

function firstIndexOfTerm :: "raftLog \<Rightarrow> nat \<Rightarrow> nat \<Rightarrow> nat" where
  "firstIndexOfTerm l t index =
     (if index > snapIndex l + 1
      then if term0 l (index - 1) \<noteq> t then index else firstIndexOfTerm l t (index - 1)
      else index)"
  by pat_completeness auto
termination
  by (relation "measure (\<lambda>(l, t, index). index)") auto

declare firstIndexOfTerm.simps [simp del]

text \<open>The backward scan of \<open>lastIndexOfTerm\<close>, over the entries in reverse.\<close>

fun last_scan :: "Entry list \<Rightarrow> nat \<Rightarrow> nat" where
  "last_scan [] t = 0"
| "last_scan (e # es) t =
     (if e_term e = t then e_index e else if e_term e < t then 0 else last_scan es t)"

definition lastIndexOfTerm :: "raftLog \<Rightarrow> nat \<Rightarrow> nat" where
  "lastIndexOfTerm l t = last_scan (rev (entries l)) t"

definition compactTo :: "raftLog \<Rightarrow> nat \<Rightarrow> nat \<Rightarrow> raftLog" where
  "compactTo l index t =
     (if index \<le> snapIndex l then l
      else l\<lparr>entries := (if index \<ge> lastIndex l then []
                else drop (index - snapIndex l) (entries l)),
             snapIndex := index, snapTerm := t\<rparr>)"

definition reset :: "raftLog \<Rightarrow> nat \<Rightarrow> nat \<Rightarrow> raftLog" where
  "reset l index t = l\<lparr>entries := [], snapIndex := index, snapTerm := t\<rparr>"

section \<open>Well-formed logs\<close>

text \<open>Positions and indexes agree; \<open>sorted_log\<close> adds that terms never decrease.\<close>

definition wf_log :: "raftLog \<Rightarrow> bool" where
  "wf_log l \<longleftrightarrow> (\<forall>i < length (entries l). e_index (entries l ! i) = snapIndex l + 1 + i)"

definition sorted_log :: "raftLog \<Rightarrow> bool" where
  "sorted_log l \<longleftrightarrow> sorted (snapTerm l # map e_term (entries l))"

text \<open>A run of entries that continues at index \<open>n\<close>.\<close>

definition contiguous :: "nat \<Rightarrow> Entry list \<Rightarrow> bool" where
  "contiguous n es \<longleftrightarrow> (\<forall>i < length es. e_index (es ! i) = n + i)"

text \<open>The entry stored at a log index.\<close>

definition entry_at :: "raftLog \<Rightarrow> nat \<Rightarrow> Entry option" where
  "entry_at l i = (if snapIndex l < i \<and> i \<le> lastIndex l
     then Some (entries l ! (i - snapIndex l - 1)) else None)"

section \<open>Laws of the operations\<close>

lemma contiguous_Nil [simp]: "contiguous n []"
  by (simp add: contiguous_def)

lemma contiguous_Cons [simp]:
  "contiguous n (e # es) \<longleftrightarrow> e_index e = n \<and> contiguous (Suc n) es"
  by (auto simp: contiguous_def nth_Cons split: nat.splits)

lemma contiguous_append:
  "contiguous n (xs @ ys) \<longleftrightarrow> contiguous n xs \<and> contiguous (n + length xs) ys"
  by (induction xs arbitrary: n) auto

lemma contiguous_drop: "contiguous n es \<Longrightarrow> contiguous (n + k) (drop k es)"
  by (auto simp: contiguous_def)

lemma contiguous_take: "contiguous n es \<Longrightarrow> contiguous n (take k es)"
  by (auto simp: contiguous_def)

lemma wf_log_contiguous: "wf_log l \<longleftrightarrow> contiguous (snapIndex l + 1) (entries l)"
  by (simp add: wf_log_def contiguous_def)

lemma append_entries_eq:
  "append_entries l es = Inr l' \<longleftrightarrow>
     contiguous (lastIndex l + 1) es \<and> l' = l\<lparr>entries := entries l @ es\<rparr>"
proof (induction es arbitrary: l)
  case Nil
  then show ?case by auto
next
  case (Cons e es)
  then show ?case by (auto simp: lastIndex_def)
qed

lemma wf_log_append:
  "wf_log l \<Longrightarrow> contiguous (lastIndex l + 1) es \<Longrightarrow> wf_log (l\<lparr>entries := entries l @ es\<rparr>)"
  by (simp add: wf_log_contiguous contiguous_append lastIndex_def)

lemma wf_log_truncate: "wf_log l \<Longrightarrow> truncateFrom l i = Inr l' \<Longrightarrow> wf_log l'"
  by (auto simp: truncateFrom_def wf_log_contiguous contiguous_take split: if_splits)

lemma wf_log_compact: "wf_log l \<Longrightarrow> wf_log (compactTo l i t)"
  by (auto simp: compactTo_def wf_log_def lastIndex_def)

lemma wf_log_reset [simp]: "wf_log (reset l i t)"
  by (simp add: reset_def wf_log_def)

lemma wf_log_empty [simp]: "wf_log empty_log"
  by (simp add: empty_log_def wf_log_def)

lemma lastIndex_append [log_simps]:
  "lastIndex (l\<lparr>entries := entries l @ es\<rparr>) = lastIndex l + length es"
  by (simp add: lastIndex_def)

lemma lastIndex_truncate [log_simps]:
  "truncateFrom l i = Inr l' \<Longrightarrow> lastIndex l' = min (lastIndex l) (i - 1) \<and>
     snapIndex l' = snapIndex l \<and> snapTerm l' = snapTerm l"
  by (auto simp: truncateFrom_def lastIndex_def split: if_splits)

lemma lastIndex_compact [log_simps]:
  "lastIndex (compactTo l i t) = max (lastIndex l) i"
  by (auto simp: compactTo_def lastIndex_def)

lemma lastIndex_reset [log_simps]: "lastIndex (reset l i t) = i"
  by (simp add: reset_def lastIndex_def)

lemma term_at_ok: "term_at l i \<noteq> None \<longleftrightarrow> snapIndex l \<le> i \<and> i \<le> lastIndex l"
  by (auto simp: term_at_def lastIndex_def)

lemma term_at_entry: "snapIndex l < i \<Longrightarrow> term_at l i = map_option e_term (entry_at l i)"
  by (auto simp: term_at_def entry_at_def)

lemma term_at_last: "term_at l (lastIndex l) = Some (lastTerm l)"
  by (auto simp: term_at_def lastTerm_def lastIndex_def)

lemma entry_at_append [log_simps]:
  "entry_at (l\<lparr>entries := entries l @ es\<rparr>) i =
     (if i \<le> lastIndex l then entry_at l i
      else if i \<le> lastIndex l + length es then Some (es ! (i - lastIndex l - 1)) else None)"
  by (auto simp: entry_at_def lastIndex_def nth_append intro!: arg_cong [where f = "(!) es"])

lemma entry_at_truncate [log_simps]:
  "truncateFrom l i = Inr l' \<Longrightarrow> entry_at l' j = (if j < i then entry_at l j else None)"
  by (auto simp: truncateFrom_def entry_at_def lastIndex_def split: if_splits)

lemma entry_at_compact [log_simps]:
  "entry_at (compactTo l i t) j =
     (if i \<le> snapIndex l \<or> i < j then entry_at l j else None)"
  by (auto simp: compactTo_def entry_at_def lastIndex_def
      intro!: arg_cong [where f = "(!) (entries l)"])

lemma entry_at_index:
  assumes "wf_log l" and "entry_at l i = Some e"
  shows "e_index e = i"
  using assms by (auto simp: entry_at_def wf_log_def lastIndex_def split: if_splits)

text \<open>Slices: in range they are the entries of the given indexes, in order.\<close>

lemma slice_in_range:
  assumes "snapIndex l < lo" and "lo \<le> hi" and "hi \<le> lastIndex l"
  shows "slice l lo hi = Inr (map (\<lambda>i. entries l ! (i - snapIndex l - 1)) [lo..<Suc hi])"
proof -
  have "take (hi - lo + 1) (drop (lo - snapIndex l - 1) (entries l)) =
      map (\<lambda>i. entries l ! (i - snapIndex l - 1)) [lo..<Suc hi]"
    using assms by (intro nth_equalityI)
      (auto simp: lastIndex_def nth_append intro!: arg_cong [where f = "(!) (entries l)"])
  then show ?thesis using assms by (simp add: slice_def)
qed

lemma slice_no_panic:
  "snapIndex l < lo \<Longrightarrow> hi \<le> lastIndex l \<Longrightarrow> \<exists>es. slice l lo hi = Inr es"
  by (auto simp: slice_def)

lemma slice_contiguous:
  assumes "wf_log l" and "slice l lo hi = Inr es"
  shows "contiguous lo es \<and> length es = Suc hi - lo"
proof (cases "lo \<le> hi")
  case True
  with assms(2) have r: "snapIndex l < lo" "hi \<le> lastIndex l"
      and es: "es = take (hi - lo + 1) (drop (lo - snapIndex l - 1) (entries l))"
    by (auto simp: slice_def split: if_splits)
  then show ?thesis
    using assms(1) True by (auto simp: contiguous_def wf_log_def lastIndex_def)
next
  case False
  then show ?thesis using assms(2) by (simp add: slice_def)
qed

text \<open>Compaction keeps the live part of the log: for an index inside the log,
  \<open>compactTo\<close> drops exactly the entries up to it, keeps every later entry at its index, keeps
  the last index and still answers \<open>term\<close> at the compaction point.\<close>

theorem compactTo_spec:
  assumes "wf_log l" and "snapIndex l < i" and "i \<le> lastIndex l" and "term_at l i = Some t"
  shows "wf_log (compactTo l i t) \<and> lastIndex (compactTo l i t) = lastIndex l \<and>
     (\<forall>j \<ge> i. term_at (compactTo l i t) j = term_at l j) \<and>
     (\<forall>j > i. entry_at (compactTo l i t) j = entry_at l j) \<and>
     (\<forall>j \<le> i. entry_at (compactTo l i t) j = None) \<and>
     lastTerm (compactTo l i t) = lastTerm l"
proof -
  let ?c = "compactTo l i t"
  have last: "lastIndex ?c = lastIndex l" using assms(3) by (simp add: log_simps)
  have ent: "entry_at ?c j = (if i < j then entry_at l j else None)" for j
    using assms(2) by (simp add: log_simps)
  have snap: "snapIndex ?c = i" "snapTerm ?c = t"
    using assms(2) by (auto simp: compactTo_def)
  have tm: "term_at ?c j = term_at l j" if "j \<ge> i" for j
  proof (cases "j = i")
    case True
    then show ?thesis using assms(4) snap by (simp add: term_at_def)
  next
    case False
    then show ?thesis using that assms(2) snap ent by (simp add: term_at_entry)
  qed
  have "Some (lastTerm ?c) = Some (lastTerm l)"
    using tm [of "lastIndex l"] assms(3) last term_at_last by metis
  then show ?thesis using wf_log_compact [OF assms(1)] last ent tm by simp
qed

section \<open>Searching by term\<close>

lemma firstIndexOfTerm_bounds:
  "firstIndexOfTerm l t index \<le> index \<and>
   (snapIndex l < index \<longrightarrow> snapIndex l < firstIndexOfTerm l t index)"
proof (induction l t index rule: firstIndexOfTerm.induct)
  case (1 l t index)
  show ?case
  proof (cases "index > snapIndex l + 1 \<and> term0 l (index - 1) = t")
    case True
    with 1 have IH: "firstIndexOfTerm l t (index - 1) \<le> index - 1 \<and>
        (snapIndex l < index - 1 \<longrightarrow> snapIndex l < firstIndexOfTerm l t (index - 1))"
      by simp
    have eq: "firstIndexOfTerm l t index = firstIndexOfTerm l t (index - 1)"
      using True by (subst firstIndexOfTerm.simps) simp
    show ?thesis using True IH unfolding eq by arith
  next
    case False
    then show ?thesis by (auto simp: firstIndexOfTerm.simps [of l t index])
  qed
qed

text \<open>Between the index it returns and the start of the scan every entry has the term, and the
  entry before the returned index, if the log still holds it, has another term.\<close>

lemma firstIndexOfTerm_run:
  "(\<forall>j. firstIndexOfTerm l t index \<le> j \<and> j < index \<longrightarrow> term0 l j = t) \<and>
   (snapIndex l + 1 < firstIndexOfTerm l t index \<longrightarrow>
      term0 l (firstIndexOfTerm l t index - 1) \<noteq> t)"
proof (induction l t index rule: firstIndexOfTerm.induct)
  case (1 l t index)
  show ?case
  proof (cases "index > snapIndex l + 1 \<and> term0 l (index - 1) = t")
    case True
    have eq: "firstIndexOfTerm l t index = firstIndexOfTerm l t (index - 1)"
      using True by (subst firstIndexOfTerm.simps) simp
    have last: "j = index - 1 \<or> j < index - 1" if "j < index" for j using that by auto
    show ?thesis using 1 True eq last by (auto simp del: One_nat_def)
  next
    case False
    then show ?thesis by (auto simp: firstIndexOfTerm.simps [of l t index])
  qed
qed

lemma sorted_log_mono:
  assumes "sorted_log l" and "term_at l i = Some a" and "term_at l j = Some b" and "i \<le> j"
  shows "a \<le> b"
proof -
  let ?ts = "snapTerm l # map e_term (entries l)"
  have nth: "?ts ! (k - snapIndex l) = c" "k - snapIndex l < length ?ts"
    if "term_at l k = Some c" for k c
    using that by (auto simp: term_at_def lastIndex_def nth_Cons' split: if_splits)
  have "?ts ! (i - snapIndex l) \<le> ?ts ! (j - snapIndex l)"
    using assms(1) nth(2) [OF assms(3)] assms(4)
    by (intro sorted_nth_mono) (auto simp: sorted_log_def)
  then show ?thesis using nth(1) assms(2,3) by simp
qed

lemma last_scan_spec:
  assumes "sorted (map e_term (rev es))"
  shows "(\<forall>e \<in> set es. e_term e \<noteq> t) \<and> last_scan es t = 0 \<or>
     (\<exists>xs e ys. es = xs @ e # ys \<and> e_term e = t \<and> (\<forall>x \<in> set xs. e_term x \<noteq> t) \<and>
        last_scan es t = e_index e)"
  using assms
proof (induction es)
  case Nil
  then show ?case by simp
next
  case (Cons e es)
  consider "e_term e = t" | "e_term e < t" | "t < e_term e" by linarith
  then show ?case
  proof cases
    case 1
    then show ?thesis by (intro disjI2) (fastforce intro!: exI [of _ "[]"])
  next
    case 2
    moreover have "\<forall>x \<in> set es. e_term x \<le> e_term e"
      using Cons.prems by (auto simp: sorted_append)
    ultimately show ?thesis by fastforce
  next
    case 3
    from Cons have "(\<forall>e \<in> set es. e_term e \<noteq> t) \<and> last_scan es t = 0 \<or>
       (\<exists>xs e ys. es = xs @ e # ys \<and> e_term e = t \<and> (\<forall>x \<in> set xs. e_term x \<noteq> t) \<and>
          last_scan es t = e_index e)"
      by (simp add: sorted_append)
    then show ?thesis
    proof
      assume "\<exists>xs e ys. es = xs @ e # ys \<and> e_term e = t \<and> (\<forall>x \<in> set xs. e_term x \<noteq> t) \<and>
          last_scan es t = e_index e"
      then obtain xs e' ys where "es = xs @ e' # ys" "e_term e' = t"
          "\<forall>x \<in> set xs. e_term x \<noteq> t" "last_scan es t = e_index e'"
        by blast
      then show ?thesis
        using 3 by (intro disjI2 exI [of _ "e # xs"] exI [of _ e'] exI [of _ ys]) auto
    qed (use 3 in auto)
  qed
qed

text \<open>The early exit of \<open>lastIndexOfTerm\<close> is sound: on a log whose terms never decrease it
  returns the highest index holding the term, and 0 exactly when no entry has it.\<close>

theorem lastIndexOfTerm_spec:
  assumes wf: "wf_log l" and so: "sorted_log l"
  shows "(lastIndexOfTerm l t = 0 \<and> (\<forall>j > snapIndex l. term_at l j \<noteq> Some t)) \<or>
     (snapIndex l < lastIndexOfTerm l t \<and> term_at l (lastIndexOfTerm l t) = Some t \<and>
      (\<forall>j > lastIndexOfTerm l t. term_at l j \<noteq> Some t))"
proof -
  have nth: "term_at l j = Some (e_term (entries l ! (j - snapIndex l - 1)))"
    if "snapIndex l < j" "j \<le> lastIndex l" for j
    using that by (simp add: term_at_def)
  have beyond: "term_at l j = None" if "lastIndex l < j" for j
    using that term_at_ok [of l j] by auto
  have "sorted (map e_term (rev (rev (entries l))))"
    using so by (simp add: sorted_log_def)
  from last_scan_spec [OF this, of t] show ?thesis
  proof
    assume a: "(\<forall>e \<in> set (rev (entries l)). e_term e \<noteq> t) \<and> last_scan (rev (entries l)) t = 0"
    have "term_at l j \<noteq> Some t" if "snapIndex l < j" for j
      using a nth [OF that] beyond [of j] that
      by (cases "j \<le> lastIndex l") (auto simp: lastIndex_def)
    then show ?thesis using a by (auto simp: lastIndexOfTerm_def)
  next
    assume "\<exists>xs e ys. rev (entries l) = xs @ e # ys \<and> e_term e = t \<and>
      (\<forall>x \<in> set xs. e_term x \<noteq> t) \<and> last_scan (rev (entries l)) t = e_index e"
    then obtain xs e ys where es: "rev (entries l) = xs @ e # ys" and e: "e_term e = t"
      and xs: "\<forall>x \<in> set xs. e_term x \<noteq> t" and li: "lastIndexOfTerm l t = e_index e"
      by (auto simp: lastIndexOfTerm_def)
    then have en: "entries l = rev ys @ e # rev xs"
      by (metis append.assoc append_Cons append_Nil rev.simps(2) rev_append rev_rev_ident)
    then have idx: "e_index e = snapIndex l + 1 + length ys"
      using wf by (auto simp: wf_log_contiguous contiguous_append)
    have at: "term_at l (e_index e) = Some t"
      using nth [of "e_index e"] idx en e by (simp add: lastIndex_def nth_append)
    have "term_at l j \<noteq> Some t" if j: "e_index e < j" for j
    proof (cases "j \<le> lastIndex l")
      case True
      let ?p = "j - snapIndex l - 1"
      have p: "length ys < ?p" "?p < length (entries l)"
        using j idx True by (auto simp: lastIndex_def)
      then have "entries l ! ?p = rev xs ! (?p - length ys - 1)"
        using en by (simp add: nth_append nth_Cons')
      moreover have "?p - length ys - 1 < length (rev xs)" using p en by simp
      ultimately have "entries l ! ?p \<in> set xs" by (metis nth_mem set_rev)
      then show ?thesis using nth [of j] True j idx xs by auto
    qed (simp add: beyond)
    then show ?thesis using at li idx by auto
  qed
qed

section \<open>Witnesses\<close>

definition ex_entry_of :: "nat \<Rightarrow> nat \<Rightarrow> Entry" where
  "ex_entry_of i t = \<lparr>e_index = i, e_term = t, e_type = ENTRY_NORMAL, e_data = []\<rparr>"

definition ex_log :: raftLog where
  "ex_log = \<lparr>snapIndex = 2, snapTerm = 1,
     entries = [ex_entry_of 3 1, ex_entry_of 4 2, ex_entry_of 5 2]\<rparr>"

lemma wf_ex_log: "wf_log ex_log" "sorted_log ex_log"
  by (simp_all add: ex_log_def ex_entry_of_def wf_log_contiguous sorted_log_def)

theorem compactTo_spec_witness:
  "wf_log (compactTo ex_log 4 2) \<and> lastIndex (compactTo ex_log 4 2) = 5 \<and>
   term_at (compactTo ex_log 4 2) 5 = Some 2"
proof -
  have "snapIndex ex_log < 4" "4 \<le> lastIndex ex_log" "term_at ex_log 4 = Some 2"
    by (simp_all add: ex_log_def ex_entry_of_def lastIndex_def term_at_def)
  note c = compactTo_spec [OF wf_ex_log(1) this]
  have "lastIndex ex_log = 5" "term_at ex_log 5 = Some 2"
    by (simp_all add: ex_log_def ex_entry_of_def lastIndex_def term_at_def)
  with c show ?thesis by simp
qed

theorem lastIndexOfTerm_spec_witness:
  "lastIndexOfTerm ex_log 2 = 5 \<and> lastIndexOfTerm ex_log 3 = 0 \<and>
   term_at ex_log 5 = Some 2 \<and> term_at ex_log 6 \<noteq> Some 2"
proof -
  have l: "lastIndexOfTerm ex_log 2 = 5" "lastIndexOfTerm ex_log 3 = 0"
    by (simp_all add: lastIndexOfTerm_def ex_log_def ex_entry_of_def)
  with lastIndexOfTerm_spec [OF wf_ex_log, of 2] show ?thesis by simp
qed

end
