(* ===== verification/EK_Storage.thy ===== *)
theory EK_Storage
  imports EK_RaftLog
begin

text \<open>
  The boundary between Raft and its persistent storage. The Go interface \<open>raft.Storage\<close>
  (\<open>internal/raft/types.go\<close>) is a record of operations over an abstract disk state; an error
  return is an \<open>Inl\<close>. \<open>MemStorage\<close> (\<open>internal/raft/storage_mem.go\<close>) is the in-memory
  implementation; a process that dies finds it unchanged. A failed \<open>SaveSnapshot\<close> returns the
  state it leaves, because the caller goes on; after any other failure the process ends.

  Slicing a Go slice beyond its length but within its capacity is legal and exposes stale
  elements; the capacity of a slice is not modelled, and \<open>m.entries[:n]\<close> with \<open>n\<close> beyond the
  length is an error here.

  The contracts: \<open>hard_state_storage\<close> is what the election logic relies on (the term and the
  vote survive), \<open>log_storage\<close> is the log and \<open>snapshot_storage\<close> adds snapshots. They are
  stated over the view \<open>Loaded\<close> that \<open>Load\<close> returns, with \<open>view_save\<close> and \<open>view_snapshot\<close> as
  the specification of the interface's comments; \<open>storable\<close> says which batches an
  implementation can encode. Raft leaves \<open>MinWalSegment\<close> to the storage, so the metadata it
  passes has 0 there.
\<close>

section \<open>The storage interface\<close>

record Loaded =
  ld_hardState :: "HardState option"
  ld_snapshotMeta :: "SnapshotMeta option"
  ld_snapshotData :: bytes
  ld_entries :: "Entry list"

record 's StorageOps =
  st_Load :: "'s \<Rightarrow> go_error + ('s \<times> Loaded)"
  st_Save :: "'s \<Rightarrow> HardState option \<Rightarrow> Entry list \<Rightarrow> go_error + 's"
  st_SaveSnapshot :: "'s \<Rightarrow> SnapshotMeta \<Rightarrow> bytes \<Rightarrow> bool \<Rightarrow> 's \<times> go_error option"
  st_Snapshot :: "'s \<Rightarrow> go_error + (SnapshotMeta option \<times> bytes)"

section \<open>MemStorage\<close>

record MemStorage =
  m_hs :: "HardState option"
  m_meta :: "SnapshotMeta option"
  m_snapshot :: bytes
  m_entries :: "Entry list"

definition NewMemStorage :: MemStorage where
  "NewMemStorage = \<lparr>m_hs = None, m_meta = None, m_snapshot = [], m_entries = []\<rparr>"

definition mem_Load :: "MemStorage \<Rightarrow> go_error + (MemStorage \<times> Loaded)" where
  "mem_Load m = Inr (m, \<lparr>ld_hardState = m_hs m, ld_snapshotMeta = m_meta m,
     ld_snapshotData = m_snapshot m, ld_entries = m_entries m\<rparr>)"

definition mem_first :: "MemStorage \<Rightarrow> nat" where
  "mem_first m = (case m_meta m of None \<Rightarrow> 1 | Some meta \<Rightarrow> sm_index meta + 1)"

definition mem_appendLocked :: "MemStorage \<Rightarrow> Entry \<Rightarrow> go_error + MemStorage" where
  "mem_appendLocked m e =
     (if e_index e < mem_first m then Inr m
      else let n = e_index e - mem_first m in
        if n > length (m_entries m) then Inl (Panic ''slice bounds out of range'')
        else Inr (m\<lparr>m_entries := take n (m_entries m) @ [e]\<rparr>))"

fun mem_append_all :: "MemStorage \<Rightarrow> Entry list \<Rightarrow> go_error + MemStorage" where
  "mem_append_all m [] = Inr m"
| "mem_append_all m (e # es) = bind_res (mem_appendLocked m e) (\<lambda>m'. mem_append_all m' es)"

definition mem_Save :: "MemStorage \<Rightarrow> HardState option \<Rightarrow> Entry list \<Rightarrow> go_error + MemStorage" where
  "mem_Save m hs es =
     (let m1 = (case hs of None \<Rightarrow> m | Some h \<Rightarrow> m\<lparr>m_hs := Some h\<rparr>)
      in mem_append_all m1 es)"

definition mem_SaveSnapshot ::
  "MemStorage \<Rightarrow> SnapshotMeta \<Rightarrow> bytes \<Rightarrow> bool \<Rightarrow> MemStorage \<times> go_error option" where
  "mem_SaveSnapshot m meta dat discardLog =
     (if (case m_meta m of None \<Rightarrow> False | Some old \<Rightarrow> sm_index meta \<le> sm_index old)
      then (m, None)
      else let drp = sm_index meta + 1 - mem_first m;
               es = (if discardLog \<or> drp \<ge> length (m_entries m) then []
                     else drop drp (m_entries m))
           in (m\<lparr>m_entries := es, m_meta := Some meta, m_snapshot := dat\<rparr>, None))"

definition mem_Snapshot :: "MemStorage \<Rightarrow> go_error + (SnapshotMeta option \<times> bytes)" where
  "mem_Snapshot m = Inr (m_meta m, m_snapshot m)"

definition mem_ops :: "MemStorage StorageOps" where
  "mem_ops = \<lparr>st_Load = mem_Load, st_Save = mem_Save, st_SaveSnapshot = mem_SaveSnapshot,
     st_Snapshot = mem_Snapshot\<rparr>"

section \<open>What the interface promises\<close>

text \<open>The first log index that is not covered by the snapshot.\<close>

definition view_first :: "Loaded \<Rightarrow> nat" where
  "view_first v = (case ld_snapshotMeta v of None \<Rightarrow> 1 | Some meta \<Rightarrow> sm_index meta + 1)"

text \<open>"An entry whose index already exists replaces that entry and everything after it."\<close>

fun view_append :: "nat \<Rightarrow> Entry list \<Rightarrow> Entry list \<Rightarrow> Entry list" where
  "view_append first old [] = old"
| "view_append first old (e # es) =
     view_append first (if e_index e < first then old else take (e_index e - first) old @ [e]) es"

definition view_save :: "Loaded \<Rightarrow> HardState option \<Rightarrow> Entry list \<Rightarrow> Loaded" where
  "view_save v hs es =
     v\<lparr>ld_hardState := (case hs of None \<Rightarrow> ld_hardState v | Some h \<Rightarrow> Some h),
       ld_entries := view_append (view_first v) (ld_entries v) es\<rparr>"

definition view_snapshot :: "Loaded \<Rightarrow> SnapshotMeta \<Rightarrow> bytes \<Rightarrow> bool \<Rightarrow> Loaded" where
  "view_snapshot v meta dat discardLog =
     (if sm_index meta < view_first v \<and> ld_snapshotMeta v \<noteq> None then v
      else v\<lparr>ld_entries := (if discardLog then [] else drop (sm_index meta + 1 - view_first v) (ld_entries v)),
             ld_snapshotMeta := Some meta, ld_snapshotData := dat\<rparr>)"

text \<open>The log on disk is contiguous after the snapshot.\<close>

definition view_ok :: "Loaded \<Rightarrow> bool" where
  "view_ok v \<longleftrightarrow> contiguous (view_first v) (ld_entries v)"

text \<open>Entries that can be saved: a contiguous batch that leaves no gap.\<close>

definition save_pre :: "Loaded \<Rightarrow> Entry list \<Rightarrow> bool" where
  "save_pre v es \<longleftrightarrow> (\<exists>n. contiguous n es \<and> n \<le> view_first v + length (ld_entries v))"

definition mem_view :: "MemStorage \<Rightarrow> Loaded" where
  "mem_view m = \<lparr>ld_hardState = m_hs m, ld_snapshotMeta = m_meta m,
     ld_snapshotData = m_snapshot m, ld_entries = m_entries m\<rparr>"

text \<open>\<open>fresh\<close> are the states in which a starting process finds the storage, \<open>ok\<close> those after
  \<open>Load\<close>, and \<open>crash s s'\<close> says that a process that dies in \<open>s\<close> may find \<open>s'\<close> when it starts
  again.\<close>

locale hard_state_storage =
  fixes ops :: "'s StorageOps" and fresh :: "'s \<Rightarrow> bool" and ok :: "'s \<Rightarrow> bool"
    and crash :: "'s \<Rightarrow> 's \<Rightarrow> bool" and hs_of :: "'s \<Rightarrow> HardState option"
  assumes load_hs: "fresh s \<Longrightarrow> st_Load ops s = Inr (s', ld) \<Longrightarrow>
      ok s' \<and> hs_of s' = hs_of s \<and> ld_hardState ld = hs_of s"
    and save_hs: "ok s \<Longrightarrow> st_Save ops s hs es = Inr s' \<Longrightarrow>
      ok s' \<and> hs_of s' = (case hs of None \<Rightarrow> hs_of s | Some h \<Rightarrow> Some h)"
    and snapshot_hs: "ok s \<Longrightarrow> sm_minWalSegment meta = 0 \<Longrightarrow>
      st_SaveSnapshot ops s meta dat discard = (s', None) \<Longrightarrow> ok s' \<and> hs_of s' = hs_of s"
    and snapshot_failed_hs: "ok s \<Longrightarrow> sm_minWalSegment meta = 0 \<Longrightarrow>
      st_SaveSnapshot ops s meta dat False = (s', Some e) \<Longrightarrow> ok s' \<and> hs_of s' = hs_of s"
    and crash_hs: "ok s \<Longrightarrow> crash s s' \<Longrightarrow> fresh s' \<and> hs_of s' = hs_of s"

locale log_storage =
  fixes ops :: "'s StorageOps" and ok :: "'s \<Rightarrow> bool" and view :: "'s \<Rightarrow> Loaded"
    and storable :: "'s \<Rightarrow> HardState option \<Rightarrow> Entry list \<Rightarrow> bool"
  assumes load_view: "ok s \<Longrightarrow> \<exists>s'. st_Load ops s = Inr (s', view s) \<and> ok s' \<and> view s' = view s"
    and save_view: "ok s \<Longrightarrow> save_pre (view s) es \<Longrightarrow> storable s hs es \<Longrightarrow>
      \<exists>s'. st_Save ops s hs es = Inr s' \<and> ok s' \<and> view s' = view_save (view s) hs es"
    and view_wf: "ok s \<Longrightarrow> view_ok (view s)"

locale snapshot_storage = log_storage +
  assumes snapshot_view: "ok s \<Longrightarrow>
      \<exists>s'. st_SaveSnapshot ops s meta dat discard = (s', None) \<and> ok s' \<and>
        view s' = view_snapshot (view s) meta dat discard"

section \<open>Consequences of the contract\<close>

lemma view_append_contiguous:
  assumes "contiguous n es" and "es \<noteq> []" and "first \<le> n" and "n \<le> first + length old"
  shows "view_append first old es = take (n - first) old @ es"
  using assms
proof (induction es arbitrary: n old)
  case Nil
  then show ?case by simp
next
  case (Cons e es)
  let ?old = "take (n - first) old @ [e]"
  show ?case
  proof (cases "es = []")
    case True
    then show ?thesis using Cons.prems by simp
  next
    case False
    have "view_append first ?old es = take (Suc n - first) ?old @ es"
      using Cons.prems False by (intro Cons.IH) auto
    moreover have "length ?old = Suc n - first" using Cons.prems by simp
    then have "take (Suc n - first) ?old = ?old" by simp
    ultimately show ?thesis using Cons.prems by simp
  qed
qed

text \<open>Entries below the first index are skipped, so a batch that overlaps the snapshot counts
  only from the first index on.\<close>

lemma view_append_skip:
  assumes "contiguous n es" and "n \<le> first"
  shows "view_append first old es = view_append first old (drop (first - n) es)"
  using assms
proof (induction es arbitrary: n old)
  case Nil
  then show ?case by simp
next
  case (Cons e es)
  show ?case
  proof (cases "n < first")
    case True
    with Cons.prems have "view_append first old es = view_append first old (drop (first - Suc n) es)"
      by (intro Cons.IH) auto
    moreover have "drop (first - n) (e # es) = drop (first - Suc n) es"
      using True by (simp flip: Suc_diff_Suc)
    ultimately show ?thesis using True Cons.prems by simp
  next
    case False
    then show ?thesis using Cons.prems by simp
  qed
qed

lemma view_append_wf:
  assumes "contiguous first old" and "contiguous n es" and "n \<le> first + length old"
  shows "contiguous first (view_append first old es)"
proof -
  define es' where "es' = drop (first - n) es"
  define m where "m = max n first"
  have c: "contiguous m es'"
    using contiguous_drop [OF assms(2), of "first - n"] assms(2)
    by (cases "n \<le> first") (simp_all add: m_def es'_def max_def)
  have eq: "view_append first old es = view_append first old es'"
    using view_append_skip [OF assms(2)] by (cases "n \<le> first") (auto simp: es'_def)
  show ?thesis
  proof (cases "es' = []")
    case True
    then show ?thesis using eq assms(1) by simp
  next
    case False
    then have "view_append first old es' = take (m - first) old @ es'"
      using c assms(3) by (intro view_append_contiguous) (auto simp: m_def)
    moreover have "first + min (length old) (m - first) = m"
      using assms(3) by (simp add: m_def)
    ultimately show ?thesis
      using eq c assms(1) by (simp add: contiguous_append contiguous_take)
  qed
qed

lemma view_save_wf: "view_ok v \<Longrightarrow> save_pre v es \<Longrightarrow> view_ok (view_save v hs es)"
  by (auto simp: view_ok_def save_pre_def view_save_def view_first_def intro: view_append_wf)

lemma view_snapshot_wf: "view_ok v \<Longrightarrow> view_ok (view_snapshot v meta dat discard)"
proof -
  assume v: "view_ok v"
  have "view_first v \<le> sm_index meta + 1" if "\<not> (sm_index meta < view_first v \<and> ld_snapshotMeta v \<noteq> None)"
    using that by (auto simp: view_first_def split: option.splits)
  then show ?thesis
    using v contiguous_drop [of "view_first v" "ld_entries v" "sm_index meta + 1 - view_first v"]
    by (auto simp: view_ok_def view_snapshot_def view_first_def split: if_splits)
qed

context log_storage
begin

text \<open>What a client reads back: saving a non-empty batch that starts inside the log truncates
  at its first index and appends it, durably.\<close>

lemma save_load:
  assumes "ok s" and "storable s hs es" and "contiguous n es" and "es \<noteq> []"
    and "view_first (view s) \<le> n" and "n \<le> view_first (view s) + length (ld_entries (view s))"
  shows "\<exists>s' s'' ld. st_Save ops s hs es = Inr s' \<and> st_Load ops s' = Inr (s'', ld) \<and>
     ld_entries ld = take (n - view_first (view s)) (ld_entries (view s)) @ es \<and>
     ld_hardState ld = (case hs of None \<Rightarrow> ld_hardState (view s) | Some h \<Rightarrow> Some h) \<and>
     ld_snapshotMeta ld = ld_snapshotMeta (view s)"
proof -
  have "save_pre (view s) es" using assms by (auto simp: save_pre_def)
  then obtain s' where s': "st_Save ops s hs es = Inr s'" "ok s'"
      "view s' = view_save (view s) hs es"
    using save_view assms(1,2) by blast
  then obtain s'' where "st_Load ops s' = Inr (s'', view s')" using load_view by blast
  then show ?thesis
    using s' assms by (auto simp: view_save_def view_append_contiguous)
qed

end

context snapshot_storage
begin

lemma snapshot_load:
  assumes "ok s" and "view_first (view s) \<le> sm_index meta"
    and "sm_index meta < view_first (view s) + length (ld_entries (view s))"
  shows "\<exists>s' s'' ld. st_SaveSnapshot ops s meta dat False = (s', None) \<and>
     st_Load ops s' = Inr (s'', ld) \<and> ld_snapshotMeta ld = Some meta \<and> ld_snapshotData ld = dat \<and>
     ld_hardState ld = ld_hardState (view s) \<and>
     ld_entries ld = drop (sm_index meta + 1 - view_first (view s)) (ld_entries (view s))"
proof -
  obtain s' where s': "st_SaveSnapshot ops s meta dat False = (s', None)" "ok s'"
      "view s' = view_snapshot (view s) meta dat False"
    using snapshot_view assms(1) by blast
  then obtain s'' where "st_Load ops s' = Inr (s'', view s')" using load_view by blast
  then show ?thesis using s' assms by (auto simp: view_snapshot_def)
qed

end

section \<open>MemStorage keeps the contract\<close>

lemma view_first_mem: "view_first (mem_view m) = mem_first m"
  by (simp add: view_first_def mem_view_def mem_first_def)

lemma mem_first_entries [simp]: "mem_first (m\<lparr>m_entries := es\<rparr>) = mem_first m"
  by (simp add: mem_first_def)

lemma ld_entries_mem: "ld_entries (mem_view m) = m_entries m"
  by (simp add: mem_view_def)

lemma view_ok_mem: "view_ok (mem_view m) \<longleftrightarrow> contiguous (mem_first m) (m_entries m)"
  unfolding view_ok_def view_first_mem by (simp add: mem_view_def)

lemma save_pre_mem: "save_pre (mem_view m) es \<longleftrightarrow>
    (\<exists>n. contiguous n es \<and> n \<le> mem_first m + length (m_entries m))"
  unfolding save_pre_def view_first_mem by (simp add: mem_view_def)

lemma mem_append_all_view:
  assumes "view_ok (mem_view m)" and "save_pre (mem_view m) es"
  shows "\<exists>m'. mem_append_all m es = Inr m' \<and> mem_view m' =
     (mem_view m)\<lparr>ld_entries := view_append (mem_first m) (m_entries m) es\<rparr>"
  using assms
proof (induction es arbitrary: m)
  case Nil
  then show ?case by (simp add: mem_view_def)
next
  case (Cons e es)
  obtain n where n: "contiguous n (e # es)" "n \<le> mem_first m + length (m_entries m)"
    using Cons.prems(2) by (auto simp: save_pre_mem)
  let ?es = "if e_index e < mem_first m then m_entries m
    else take (e_index e - mem_first m) (m_entries m) @ [e]"
  let ?m = "m\<lparr>m_entries := ?es\<rparr>"
  have app: "mem_appendLocked m e = Inr ?m"
    using n by (auto simp: mem_appendLocked_def Let_def)
  have "view_ok (mem_view ?m)"
    using Cons.prems(1) n
    by (auto simp: view_ok_mem contiguous_append contiguous_take min_def)
  moreover have "Suc n \<le> mem_first m + length ?es" using n by auto
  then have "save_pre (mem_view ?m) es"
    using n(1) unfolding save_pre_mem by (intro exI [of _ "Suc n"]) auto
  ultimately obtain m' where "mem_append_all ?m es = Inr m'"
      "mem_view m' = (mem_view ?m)\<lparr>ld_entries := view_append (mem_first ?m) (m_entries ?m) es\<rparr>"
    using Cons.IH by blast
  then show ?case using app by (auto simp: mem_view_def)
qed

lemma mem_append_all_frame:
  "mem_append_all m es = Inr m' \<Longrightarrow>
   m_hs m' = m_hs m \<and> m_meta m' = m_meta m \<and> m_snapshot m' = m_snapshot m"
  by (induction es arbitrary: m) (auto simp: bind_res_eq_Inr mem_appendLocked_def Let_def
      split: if_splits)

lemma mem_Save_hs:
  "mem_Save m hs es = Inr m' \<Longrightarrow> m_hs m' = (case hs of None \<Rightarrow> m_hs m | Some h \<Rightarrow> Some h)"
  by (auto simp: mem_Save_def dest!: mem_append_all_frame split: option.splits)

lemma mem_Save_view:
  assumes "view_ok (mem_view m)" and "save_pre (mem_view m) es"
  shows "\<exists>m'. mem_Save m hs es = Inr m' \<and> mem_view m' = view_save (mem_view m) hs es"
proof -
  let ?m = "case hs of None \<Rightarrow> m | Some h \<Rightarrow> m\<lparr>m_hs := Some h\<rparr>"
  have "view_ok (mem_view ?m)" "save_pre (mem_view ?m) es"
    using assms by (auto simp: mem_view_def view_ok_def save_pre_def view_first_def
        split: option.splits)
  then obtain m' where "mem_append_all ?m es = Inr m'" "mem_view m' =
     (mem_view ?m)\<lparr>ld_entries := view_append (mem_first ?m) (m_entries ?m) es\<rparr>"
    using mem_append_all_view by blast
  then show ?thesis
    by (auto simp: mem_Save_def view_save_def mem_view_def view_first_def mem_first_def
        split: option.splits)
qed

lemma mem_SaveSnapshot_view:
  "\<exists>m'. mem_SaveSnapshot m meta dat discard = (m', None) \<and>
     mem_view m' = view_snapshot (mem_view m) meta dat discard"
  by (auto simp: mem_SaveSnapshot_def view_snapshot_def mem_view_def view_first_def mem_first_def
      Let_def split: option.splits)

interpretation mem_hs: hard_state_storage mem_ops "\<lambda>_. True" "\<lambda>_. True" "(=)" m_hs
  by unfold_locales (auto simp: mem_ops_def mem_Load_def mem_SaveSnapshot_def Let_def
      dest: mem_Save_hs split: if_splits)

interpretation mem_log: snapshot_storage mem_ops "\<lambda>m. view_ok (mem_view m)" mem_view "\<lambda>_ _ _. True"
proof unfold_locales
  fix s assume ok: "view_ok (mem_view s)"
  show "\<exists>s'. st_Load mem_ops s = Inr (s', mem_view s) \<and> view_ok (mem_view s') \<and>
      mem_view s' = mem_view s"
    using ok by (simp add: mem_ops_def mem_Load_def mem_view_def)
  show "\<exists>s'. st_Save mem_ops s hs es = Inr s' \<and> view_ok (mem_view s') \<and>
      mem_view s' = view_save (mem_view s) hs es" if "save_pre (mem_view s) es" for es hs
    using mem_Save_view [OF ok that, of hs] view_save_wf [OF ok that, of hs]
    by (auto simp: mem_ops_def)
  show "\<exists>s'. st_SaveSnapshot mem_ops s meta dat discard = (s', None) \<and> view_ok (mem_view s') \<and>
      mem_view s' = view_snapshot (mem_view s) meta dat discard" for meta dat discard
    using mem_SaveSnapshot_view [of s meta dat discard] view_snapshot_wf [OF ok, of meta dat discard]
    by (auto simp: mem_ops_def)
qed

text \<open>\<open>MemStorage\<close> implements "an existing index replaces the tail": saving a contiguous
  batch that starts at an index inside the log and loading again gives the old entries before
  that index followed by the batch, with the hard state replaced when one is given.\<close>

theorem mem_save_load:
  assumes "view_ok (mem_view m)" and "contiguous n es" and "es \<noteq> []" and "mem_first m \<le> n"
    and "n \<le> mem_first m + length (m_entries m)"
  shows "\<exists>m' ld. mem_Save m hs es = Inr m' \<and> mem_Load m' = Inr (m', ld) \<and>
     ld_entries ld = take (n - mem_first m) (m_entries m) @ es \<and>
     ld_hardState ld = (case hs of None \<Rightarrow> m_hs m | Some h \<Rightarrow> Some h) \<and>
     ld_snapshotMeta ld = m_meta m"
proof -
  note vf = view_first_mem [of m]
  have "\<exists>s' s'' ld. st_Save mem_ops m hs es = Inr s' \<and> st_Load mem_ops s' = Inr (s'', ld) \<and>
     ld_entries ld = take (n - view_first (mem_view m)) (ld_entries (mem_view m)) @ es \<and>
     ld_hardState ld = (case hs of None \<Rightarrow> ld_hardState (mem_view m) | Some h \<Rightarrow> Some h) \<and>
     ld_snapshotMeta ld = ld_snapshotMeta (mem_view m)"
    using assms by (intro mem_log.save_load) (simp_all add: vf ld_entries_mem)
  moreover have "mem_view m = \<lparr>ld_hardState = m_hs m, ld_snapshotMeta = m_meta m,
      ld_snapshotData = m_snapshot m, ld_entries = m_entries m\<rparr>"
    by (simp add: mem_view_def)
  ultimately show ?thesis unfolding vf by (cases hs) (auto simp: mem_ops_def mem_Load_def)
qed

definition ex_mem :: MemStorage where
  "ex_mem = \<lparr>m_hs = None, m_meta = Some \<lparr>sm_index = 2, sm_term = 1, sm_minWalSegment = 0\<rparr>,
     m_snapshot = [], m_entries = [ex_entry_of 3 1, ex_entry_of 4 1, ex_entry_of 5 1]\<rparr>"

theorem mem_save_load_witness:
  "\<exists>m' ld. mem_Save ex_mem None [ex_entry_of 4 2] = Inr m' \<and> mem_Load m' = Inr (m', ld) \<and>
     ld_entries ld = [ex_entry_of 3 1, ex_entry_of 4 2]"
proof -
  have f: "mem_first ex_mem = 3" "m_entries ex_mem = [ex_entry_of 3 1, ex_entry_of 4 1, ex_entry_of 5 1]"
    by (simp_all add: mem_first_def ex_mem_def)
  have "view_ok (mem_view ex_mem)" by (simp add: view_ok_mem f ex_entry_of_def)
  moreover have "contiguous 4 [ex_entry_of 4 2]" by (simp add: ex_entry_of_def)
  ultimately show ?thesis
    using mem_save_load [of ex_mem 4 "[ex_entry_of 4 2]" None] by (auto simp: f)
qed

end
