(* ===== verification/EK_Raft.thy ===== *)
theory EK_Raft
  imports EK_Storage
begin

text \<open>
  One Raft replica: the state of \<open>type Raft struct\<close> and the operations of
  \<open>internal/raft/raft.go\<close> and \<open>internal/raft/types.go\<close>. Every definition is the body of one
  critical section of \<open>Raft.mu\<close>; the later theories model the handlers the same way, so an
  execution is a sequence of these steps in any interleaving.

  The interfaces \<open>Storage\<close> and \<open>StateMachine\<close> are records of operations in the configuration,
  and the states behind them are the fields \<open>disk\<close> and \<open>machine\<close>. Effects that leave the
  replica are recorded in the state: results sent on the channels of waiting proposals
  (\<open>sent\<close>) and reads (\<open>readsDone\<close>), statuses handed to \<open>OnStateChange\<close> (\<open>notices\<close>) and goroutines started
  (\<open>spawned\<close>). \<open>waiters\<close> is a Go map; its association list stands for one iteration order. Condition
  variables and notification channels only wake other goroutines and are left out, since a
  step of the model may run whenever its guard holds. Logging is left out.

  The clock and the random number generator are the argument \<open>env\<close>: within one critical
  section every clock reading is the same instant, and \<open>rand.Int64N(n)\<close> is \<open>rnd mod n\<close>, for the
  positive \<open>n\<close> that \<open>setDefaults\<close> ensures when the timeouts are not negative. Time 0 is the zero
  \<open>time.Time\<close>.
\<close>

section \<open>State\<close>

datatype State = Follower | Candidate | Leader

definition state_String :: "State \<Rightarrow> string" where
  "state_String s = (case s of Follower \<Rightarrow> ''follower'' | Candidate \<Rightarrow> ''candidate''
     | Leader \<Rightarrow> ''leader'')"

record 'm StateMachineOps =
  sm_Apply :: "'m \<Rightarrow> nat \<Rightarrow> bytes \<Rightarrow> go_error + ('m \<times> bytes)"
  sm_Snapshot :: "'m \<Rightarrow> go_error + bytes"
  sm_Restore :: "'m \<Rightarrow> bytes \<Rightarrow> go_error + 'm"

record ('s, 'm) Config =
  c_ID :: node_id
  c_Group :: nat
  c_Peers :: "node_id list"
  c_ElectionTimeoutMin :: int
  c_ElectionTimeoutMax :: int
  c_HeartbeatInterval :: int
  c_RPCTimeout :: int
  c_SnapshotThreshold :: nat
  c_MaxAppendEntries :: nat
  c_MaxProposalBatch :: nat
  c_Storage :: "'s StorageOps"
  c_StateMachine :: "'m StateMachineOps"
  c_OnStateChange :: bool

record RaftStatus =
  s_ID :: node_id
  s_Group :: nat
  s_State :: State
  s_Term :: nat
  s_Leader :: node_id
  s_CommitIndex :: nat
  s_LastApplied :: nat
  s_LastLogIndex :: nat
  s_SnapshotIndex :: nat
  s_MatchIndex :: "node_id \<rightharpoonup> nat"

record proposal =
  p_id :: nat \<comment> \<open>identity of the proposal's channel\<close>
  p_data :: bytes
  p_term :: nat

type_synonym proposalResult = "go_error + bytes"

datatype goroutine = Campaign bool | Replicator node_id nat

record Env =
  now :: time
  rnd :: int

record ('s, 'm) Raft =
  cfg :: "('s, 'm) Config"
  rid :: node_id
  others :: "node_id list"
  quorum :: nat
  currentTerm :: nat
  votedFor :: node_id
  rlog :: raftLog
  rstate :: State
  leaderID :: node_id
  commitIndex :: nat
  lastApplied :: nat
  electionDeadline :: time
  lastLeaderContact :: time
  campaigning :: bool
  nextIndex :: "node_id \<rightharpoonup> nat"
  matchIndex :: "node_id \<rightharpoonup> nat"
  ackedSendTime :: "node_id \<rightharpoonup> time"
  noopIndex :: nat
  transferTarget :: node_id
  leaderCancel :: bool \<comment> \<open>the cancel function is set\<close>
  triggers :: "node_id \<rightharpoonup> bool" \<comment> \<open>a wake-up is pending in the channel\<close>
  waiters :: "(nat \<times> proposal) list"
  pendingSnapshot :: "InstallSnapshotRequest option"
  proposeCh :: "proposal list" \<comment> \<open>buffered channel, capacity 4096\<close>
  readCh :: "nat list" \<comment> \<open>buffered channel of read requests, by identity\<close>
  stopped :: bool
  disk :: 's
  machine :: 'm
  sent :: "(proposal \<times> proposalResult) list"
  readsDone :: "(nat \<times> (go_error + nat)) list"
  notices :: "RaftStatus list"
  spawned :: "goroutine list"

section \<open>Configuration and start-up\<close>

text \<open>\<open>deps\<close> says whether \<open>Storage\<close>, \<open>Transport\<close> and \<open>StateMachine\<close> are all non-nil.
  Durations are nanoseconds.\<close>

definition setDefaults :: "bool \<Rightarrow> ('s, 'm) Config \<Rightarrow> go_error + ('s, 'm) Config" where
  "setDefaults deps c =
     (if c_ID c = '''' \<or> c_Peers c = [] then Inl (ErrConfig ''raft: ID and Peers are required'')
      else if c_ID c \<notin> set (c_Peers c) then Inl (ErrConfig ''raft: node is not in Peers'')
      else if \<not> deps
      then Inl (ErrConfig ''raft: Storage, Transport and StateMachine are required'')
      else
        let c = (if c_HeartbeatInterval c = 0 then c\<lparr>c_HeartbeatInterval := 50000000\<rparr> else c);
            c = (if c_ElectionTimeoutMin c = 0 then c\<lparr>c_ElectionTimeoutMin := 300000000\<rparr> else c);
            c = (if c_ElectionTimeoutMax c \<le> c_ElectionTimeoutMin c
                 then c\<lparr>c_ElectionTimeoutMax := 2 * c_ElectionTimeoutMin c\<rparr> else c);
            c = (if c_RPCTimeout c = 0 then c\<lparr>c_RPCTimeout := c_ElectionTimeoutMin c\<rparr> else c);
            c = (if c_MaxAppendEntries c = 0 then c\<lparr>c_MaxAppendEntries := 512\<rparr> else c);
            c = (if c_MaxProposalBatch c = 0 then c\<lparr>c_MaxProposalBatch := 256\<rparr> else c)
        in Inr c)"

definition zero_raft :: "('s, 'm) Config \<Rightarrow> 's \<Rightarrow> 'm \<Rightarrow> ('s, 'm) Raft" where
  "zero_raft c d m =
     \<lparr>cfg = c, rid = c_ID c, others = filter (\<lambda>p. p \<noteq> c_ID c) (c_Peers c),
      quorum = length (c_Peers c) div 2 + 1,
      currentTerm = 0, votedFor = '''', rlog = empty_log, rstate = Follower, leaderID = '''',
      commitIndex = 0, lastApplied = 0, electionDeadline = 0, lastLeaderContact = 0,
      campaigning = False, nextIndex = Map.empty, matchIndex = Map.empty,
      ackedSendTime = Map.empty, noopIndex = 0, transferTarget = '''', leaderCancel = False,
      triggers = Map.empty, waiters = [], pendingSnapshot = None,
      proposeCh = [], readCh = [], stopped = False,
      disk = d, machine = m, sent = [], readsDone = [], notices = [], spawned = []\<rparr>"

definition New_raft ::
  "bool \<Rightarrow> ('s, 'm) Config \<Rightarrow> 's \<Rightarrow> 'm \<Rightarrow> go_error + ('s, 'm) Raft" where
  "New_raft deps c0 d m =
     bind_res (setDefaults deps c0) (\<lambda>c.
     bind_res (st_Load (c_Storage c) d) (\<lambda>(d', ld).
       let r0 = zero_raft c d' m;
           r1 = (case ld_hardState ld of None \<Rightarrow> r0
                 | Some hs \<Rightarrow> r0\<lparr>currentTerm := hs_term hs, votedFor := hs_votedFor hs\<rparr>)
       in bind_res
         (case ld_snapshotMeta ld of None \<Rightarrow> Inr r1
          | Some meta \<Rightarrow>
              bind_res (sm_Restore (c_StateMachine c) m (ld_snapshotData ld)) (\<lambda>m'.
                Inr (r1\<lparr>machine := m', rlog := reset (rlog r1) (sm_index meta) (sm_term meta),
                   commitIndex := sm_index meta, lastApplied := sm_index meta\<rparr>)))
         (\<lambda>r2. bind_res (append_entries (rlog r2) (ld_entries ld)) (\<lambda>l.
            Inr (r2\<lparr>rlog := l\<rparr>)))))"

section \<open>Status and timers\<close>

definition statusLocked :: "('s, 'm) Raft \<Rightarrow> RaftStatus" where
  "statusLocked r =
     \<lparr>s_ID = rid r, s_Group = c_Group (cfg r), s_State = rstate r, s_Term = currentTerm r,
      s_Leader = leaderID r, s_CommitIndex = commitIndex r, s_LastApplied = lastApplied r,
      s_LastLogIndex = lastIndex (rlog r), s_SnapshotIndex = snapIndex (rlog r),
      s_MatchIndex = (if rstate r = Leader then matchIndex r else Map.empty)\<rparr>"

definition IsLeader :: "('s, 'm) Raft \<Rightarrow> bool" where
  "IsLeader r \<longleftrightarrow> rstate r = Leader"

definition resetElectionTimerLocked :: "Env \<Rightarrow> ('s, 'm) Raft \<Rightarrow> ('s, 'm) Raft" where
  "resetElectionTimerLocked env r =
     (let spread = c_ElectionTimeoutMax (cfg r) - c_ElectionTimeoutMin (cfg r);
          timeout = c_ElectionTimeoutMin (cfg r) + rnd env mod (spread + 1)
      in r\<lparr>electionDeadline := now env + timeout\<rparr>)"

definition Start :: "Env \<Rightarrow> ('s, 'm) Raft \<Rightarrow> ('s, 'm) Raft" where
  "Start env r = resetElectionTimerLocked env r"

section \<open>Role transitions\<close>

definition notifyStateChangeLocked :: "('s, 'm) Raft \<Rightarrow> ('s, 'm) Raft" where
  "notifyStateChangeLocked r =
     (if \<not> c_OnStateChange (cfg r) then r else r\<lparr>notices := notices r @ [statusLocked r]\<rparr>)"

definition persistLocked ::
  "('s, 'm) Raft \<Rightarrow> bool \<Rightarrow> Entry list \<Rightarrow> go_error + ('s, 'm) Raft" where
  "persistLocked r hardState es =
     (let hs = (if hardState then Some \<lparr>hs_term = currentTerm r, hs_votedFor = votedFor r\<rparr>
                else None)
      in case st_Save (c_Storage (cfg r)) (disk r) hs es of
           Inl _ \<Rightarrow> Inl (Panic ''raft: node cannot persist'')
         | Inr d \<Rightarrow> Inr (r\<lparr>disk := d\<rparr>))"

definition failWaitersLocked :: "('s, 'm) Raft \<Rightarrow> go_error \<Rightarrow> ('s, 'm) Raft" where
  "failWaitersLocked r err =
     r\<lparr>sent := sent r @ map (\<lambda>(i, p). (p, Inl err)) (waiters r), waiters := []\<rparr>"

definition becomeFollowerLocked ::
  "Env \<Rightarrow> ('s, 'm) Raft \<Rightarrow> nat \<Rightarrow> node_id \<Rightarrow> go_error + ('s, 'm) Raft" where
  "becomeFollowerLocked env r tm leader =
     (let wasLeader = (rstate r = Leader);
          changed = (rstate r \<noteq> Follower \<or> leaderID r \<noteq> leader)
      in bind_res
        (if tm > currentTerm r
         then bind_res (persistLocked (r\<lparr>currentTerm := tm, votedFor := ''''\<rparr>) True [])
                (\<lambda>r'. Inr (r', True))
         else Inr (r, changed))
        (\<lambda>(r1, changed1).
          let r2 = r1\<lparr>rstate := Follower, leaderID := leader\<rparr> in
          bind_res
            (if wasLeader
             then if \<not> leaderCancel r2 then Inl (Panic ''nil function call'')
               else Inr (resetElectionTimerLocked env
                      (failWaitersLocked (r2\<lparr>leaderCancel := False, transferTarget := ''''\<rparr>)
                        (NotLeaderError leader)))
             else Inr r2)
            (\<lambda>r3. Inr (if changed1 then notifyStateChangeLocked r3 else r3))))"

text \<open>\<open>advanceCommitLocked\<close> (\<open>replication.go\<close>) is here because becoming leader calls it.\<close>

definition advanceCommitLocked :: "('s, 'm) Raft \<Rightarrow> go_error + ('s, 'm) Raft" where
  "advanceCommitLocked r =
     (let matches = sort (lastIndex (rlog r) # map (get0 (matchIndex r) 0) (others r)) in
      if quorum r > length matches \<or> quorum r = 0 then Inl (Panic ''index out of range'')
      else let candidate = matches ! (length matches - quorum r) in
        if candidate \<le> commitIndex r then Inr r
        else if term0 (rlog r) candidate \<noteq> currentTerm r then Inr r
        else Inr (r\<lparr>commitIndex := candidate\<rparr>))"

definition becomeLeaderLocked :: "Env \<Rightarrow> ('s, 'm) Raft \<Rightarrow> go_error + ('s, 'm) Raft" where
  "becomeLeaderLocked env r =
     (let li = lastIndex (rlog r);
          r1 = r\<lparr>rstate := Leader, leaderID := rid r, transferTarget := '''',
                 nextIndex := map_of (map (\<lambda>p. (p, li + 1)) (others r)),
                 matchIndex := map_of (map (\<lambda>p. (p, 0)) (others r)),
                 ackedSendTime := map_of (map (\<lambda>p. (p, now env)) (others r)),
                 triggers := map_of (map (\<lambda>p. (p, False)) (others r))\<rparr>;
          noop = \<lparr>e_index = li + 1, e_term = currentTerm r, e_type = ENTRY_NOOP, e_data = []\<rparr>
      in bind_res (append_entries (rlog r1) [noop]) (\<lambda>l.
         bind_res (persistLocked (r1\<lparr>rlog := l\<rparr>) False [noop]) (\<lambda>r2.
           let r3 = r2\<lparr>noopIndex := e_index noop, leaderCancel := True,
                  spawned := spawned r2 @ map (\<lambda>p. Replicator p (currentTerm r2)) (others r2)\<rparr>
           in bind_res (advanceCommitLocked r3) (\<lambda>r4. Inr (notifyStateChangeLocked r4)))))"

definition hasQuorumAckSinceLocked :: "('s, 'm) Raft \<Rightarrow> time \<Rightarrow> bool" where
  "hasQuorumAckSinceLocked r t =
     (quorum r \<le> foldl (\<lambda>acks p. if \<not> get0 (ackedSendTime r) 0 p < t then acks + 1 else acks)
        1 (others r))"

definition tick :: "Env \<Rightarrow> ('s, 'm) Raft \<Rightarrow> go_error + ('s, 'm) Raft" where
  "tick env r =
     (if stopped r then Inr r
      else if rstate r = Leader
      then if \<not> hasQuorumAckSinceLocked r (now env - c_ElectionTimeoutMax (cfg r))
           then becomeFollowerLocked env r (currentTerm r) ''''
           else Inr r
      else if now env > electionDeadline r \<and> \<not> campaigning r
      then Inr (r\<lparr>campaigning := True, spawned := spawned r @ [Campaign False]\<rparr>)
      else Inr r)"

definition Stop :: "('s, 'm) Raft \<Rightarrow> ('s, 'm) Raft" where
  "Stop r = (if stopped r then r else failWaitersLocked (r\<lparr>stopped := True\<rparr>) ErrStopped)"

end
