(* ===== verification/EK_Election.thy ===== *)
theory EK_Election
  imports EK_Raft
begin

text \<open>
  \<open>internal/raft/election.go\<close>. \<open>campaign\<close> releases the lock while it waits for votes, so it is
  three steps: \<open>campaign_begin\<close> up to the pre-vote round, \<open>campaign_prevoted\<close> after it,
  \<open>campaign_finish\<close> after the real round. A step returns the request to send next, or \<open>None\<close>
  when the campaign returns; the deferred function, which takes the lock again, is
  \<open>campaign_exit\<close>. \<open>collectVotes\<close> works on the answers in the order they arrive.
\<close>

section \<open>Candidates\<close>

definition voteRequestLocked :: "('s, 'm) Raft \<Rightarrow> nat \<Rightarrow> bool \<Rightarrow> RequestVoteRequest" where
  "voteRequestLocked r tm preVote =
     \<lparr>rv_group = c_Group (cfg r), rv_term = tm, rv_candidateId = rid r,
      rv_lastLogIndex = lastIndex (rlog r), rv_lastLogTerm = lastTerm (rlog r),
      rv_preVote = preVote\<rparr>"

definition startElection ::
  "Env \<Rightarrow> ('s, 'm) Raft \<Rightarrow> go_error + (('s, 'm) Raft \<times> RequestVoteRequest option)" where
  "startElection env r =
     (let r1 = r\<lparr>currentTerm := currentTerm r + 1, votedFor := rid r, rstate := Candidate,
                 leaderID := ''''\<rparr>
      in bind_res (persistLocked r1 True []) (\<lambda>r2.
           let r3 = notifyStateChangeLocked (resetElectionTimerLocked env r2)
           in Inr (r3, Some (voteRequestLocked r3 (currentTerm r3) False))))"

definition campaign_begin ::
  "Env \<Rightarrow> ('s, 'm) Raft \<Rightarrow> bool \<Rightarrow> go_error + (('s, 'm) Raft \<times> RequestVoteRequest option)" where
  "campaign_begin env r skipPreVote =
     (if stopped r \<or> rstate r = Leader then Inr (r, None)
      else let r1 = resetElectionTimerLocked env r in
        if \<not> skipPreVote then Inr (r1, Some (voteRequestLocked r1 (currentTerm r1 + 1) True))
        else startElection env r1)"

definition campaign_prevoted ::
  "Env \<Rightarrow> ('s, 'm) Raft \<Rightarrow> RequestVoteRequest \<Rightarrow> bool
     \<Rightarrow> go_error + (('s, 'm) Raft \<times> RequestVoteRequest option)" where
  "campaign_prevoted env r req won =
     (if \<not> won then Inr (r, None)
      else if stopped r \<or> rstate r = Leader \<or> currentTerm r + 1 \<noteq> rv_term req
      then Inr (r, None)
      else startElection env r)"

definition campaign_finish ::
  "Env \<Rightarrow> ('s, 'm) Raft \<Rightarrow> RequestVoteRequest \<Rightarrow> bool \<Rightarrow> go_error + ('s, 'm) Raft" where
  "campaign_finish env r req won =
     (if won \<and> \<not> stopped r \<and> rstate r = Candidate \<and> currentTerm r = rv_term req
      then becomeLeaderLocked env r else Inr r)"

definition campaign_exit :: "('s, 'm) Raft \<Rightarrow> ('s, 'm) Raft" where
  "campaign_exit r = r\<lparr>campaigning := False\<rparr>"

text \<open>The counting loop of \<open>collectVotes\<close>: \<open>answers\<close> are the values received from the channel
  in order; running out of them stands for the stop channel. The result is whether a majority
  granted.\<close>

fun count_votes :: "nat \<Rightarrow> nat \<Rightarrow> nat \<Rightarrow> nat \<Rightarrow> bool list \<Rightarrow> bool" where
  "count_votes q n granted answered [] = False"
| "count_votes q n granted answered (a # as) =
     (if answered \<ge> n then False
      else let answered' = answered + 1; granted' = (if a then granted + 1 else granted) in
        if granted' \<ge> q then True
        else if granted' + (n - answered') < q then False
        else count_votes q n granted' answered' as)"

definition collectVotes :: "('s, 'm) Raft \<Rightarrow> bool list \<Rightarrow> bool" where
  "collectVotes r answers =
     (quorum r = 1 \<or> count_votes (quorum r) (length (others r)) 1 0 answers)"

text \<open>What the goroutine of one peer does with the response (\<open>None\<close>: the RPC failed).\<close>

definition voteResponse ::
  "Env \<Rightarrow> ('s, 'm) Raft \<Rightarrow> RequestVoteResponse option \<Rightarrow> go_error + (('s, 'm) Raft \<times> bool)" where
  "voteResponse env r resp =
     (case resp of None \<Rightarrow> Inr (r, False)
      | Some rs \<Rightarrow>
          bind_res (if rvr_term rs > currentTerm r
                    then becomeFollowerLocked env r (rvr_term rs) '''' else Inr r)
            (\<lambda>r'. Inr (r', rvr_voteGranted rs)))"

section \<open>Voters\<close>

definition logUpToDateLocked :: "('s, 'm) Raft \<Rightarrow> nat \<Rightarrow> nat \<Rightarrow> bool" where
  "logUpToDateLocked r li lt =
     (let myTerm = lastTerm (rlog r) in
      if lt \<noteq> myTerm then lt > myTerm else li \<ge> lastIndex (rlog r))"

definition handlePreVoteLocked ::
  "Env \<Rightarrow> ('s, 'm) Raft \<Rightarrow> RequestVoteRequest \<Rightarrow> RequestVoteResponse" where
  "handlePreVoteLocked env r req =
     (let resp = \<lparr>rvr_term = currentTerm r, rvr_voteGranted = False\<rparr> in
      if rv_term req \<le> currentTerm r then resp
      else if rstate r = Leader \<or>
        now env - lastLeaderContact r < c_ElectionTimeoutMin (cfg r) then resp
      else resp\<lparr>rvr_voteGranted := logUpToDateLocked r (rv_lastLogIndex req) (rv_lastLogTerm req)\<rparr>)"

definition HandleRequestVote ::
  "Env \<Rightarrow> ('s, 'm) Raft \<Rightarrow> RequestVoteRequest
     \<Rightarrow> go_error + (('s, 'm) Raft \<times> RequestVoteResponse)" where
  "HandleRequestVote env r req =
     (if rv_preVote req then Inr (r, handlePreVoteLocked env r req)
      else if rv_term req < currentTerm r
      then Inr (r, \<lparr>rvr_term = currentTerm r, rvr_voteGranted = False\<rparr>)
      else bind_res
        (if rv_term req > currentTerm r then becomeFollowerLocked env r (rv_term req) ''''
         else Inr r)
        (\<lambda>r1.
          let canVote = (votedFor r1 = '''' \<or> votedFor r1 = rv_candidateId req) in
          if \<not> canVote \<or> \<not> logUpToDateLocked r1 (rv_lastLogIndex req) (rv_lastLogTerm req)
          then Inr (r1, \<lparr>rvr_term = currentTerm r1, rvr_voteGranted = False\<rparr>)
          else bind_res (persistLocked (r1\<lparr>votedFor := rv_candidateId req\<rparr>) True []) (\<lambda>r2.
            let r3 = resetElectionTimerLocked env r2
            in Inr (r3, \<lparr>rvr_term = currentTerm r3, rvr_voteGranted = True\<rparr>))))"

definition HandleTimeoutNow ::
  "('s, 'm) Raft \<Rightarrow> TimeoutNowRequest \<Rightarrow> ('s, 'm) Raft \<times> TimeoutNowResponse" where
  "HandleTimeoutNow r req =
     (let r' = (if tn_term req = currentTerm r \<and> rstate r = Follower \<and> \<not> campaigning r \<and>
                   \<not> stopped r
                then r\<lparr>campaigning := True, spawned := spawned r @ [Campaign True]\<rparr> else r)
      in (r', \<lparr>tnr_term = currentTerm r'\<rparr>))"

end
