(* ===== verification/EK_Replication.thy ===== *)
theory EK_Replication
  imports EK_Election
begin

text \<open>
  \<open>internal/raft/replication.go\<close>. \<open>replicateOnce\<close> and \<open>sendSnapshot\<close> release the lock during
  the RPC: \<open>replicate_send\<close> builds the request, \<open>replicate_reply\<close> and \<open>snapshot_reply\<close> handle
  the answer and return whether there is more to send right away.
\<close>

section \<open>The leader's side\<close>

definition triggerReplicationLocked :: "('s, 'm) Raft \<Rightarrow> ('s, 'm) Raft" where
  "triggerReplicationLocked r = r\<lparr>triggers := (\<lambda>p. map_option (\<lambda>_. True) (triggers r p))\<rparr>"

datatype send_action = SendNothing | SendSnapshot | SendAppend AppendEntriesRequest

definition replicate_send ::
  "('s, 'm) Raft \<Rightarrow> node_id \<Rightarrow> nat \<Rightarrow> bool \<Rightarrow> go_error + send_action" where
  "replicate_send r peer tm ctxErr =
     (if ctxErr \<or> rstate r \<noteq> Leader \<or> currentTerm r \<noteq> tm then Inr SendNothing
      else let next = get0 (nextIndex r) 0 peer in
        if next \<le> snapIndex (rlog r) then Inr SendSnapshot
        else let prevIndex = next - 1;
                 prevTerm = term0 (rlog r) prevIndex;
                 last = min (lastIndex (rlog r)) (prevIndex + c_MaxAppendEntries (cfg r))
             in bind_res (slice (rlog r) next last) (\<lambda>es.
               Inr (SendAppend
                 \<lparr>ae_group = c_Group (cfg r), ae_term = tm, ae_leaderId = rid r,
                  ae_prevLogIndex = prevIndex, ae_prevLogTerm = prevTerm,
                  ae_entries = es, ae_leaderCommit = commitIndex r\<rparr>)))"

definition recordAckLocked :: "('s, 'm) Raft \<Rightarrow> node_id \<Rightarrow> time \<Rightarrow> ('s, 'm) Raft" where
  "recordAckLocked r peer sentAt =
     (if sentAt > get0 (ackedSendTime r) 0 peer
      then r\<lparr>ackedSendTime := (ackedSendTime r)(peer \<mapsto> sentAt)\<rparr> else r)"

text \<open>The next index to try after a rejection.\<close>

definition backtrack :: "raftLog \<Rightarrow> AppendEntriesResponse \<Rightarrow> nat" where
  "backtrack l resp =
     (let next = (if aer_conflictTerm resp \<noteq> 0
                  then let idx = lastIndexOfTerm l (aer_conflictTerm resp)
                       in if idx \<noteq> 0 then idx + 1 else aer_conflictIndex resp
                  else aer_conflictIndex resp)
      in max 1 (min next (lastIndex l + 1)))"

definition replicate_reply ::
  "Env \<Rightarrow> ('s, 'm) Raft \<Rightarrow> node_id \<Rightarrow> nat \<Rightarrow> AppendEntriesRequest \<Rightarrow> time
     \<Rightarrow> AppendEntriesResponse \<Rightarrow> go_error + (('s, 'm) Raft \<times> bool)" where
  "replicate_reply env r peer tm req sentAt resp =
     (if aer_term resp > currentTerm r
      then bind_res (becomeFollowerLocked env r (aer_term resp) '''') (\<lambda>r'. Inr (r', False))
      else if rstate r \<noteq> Leader \<or> currentTerm r \<noteq> tm then Inr (r, False)
      else let r1 = recordAckLocked r peer sentAt in
        if aer_success resp
        then let match = ae_prevLogIndex req + length (ae_entries req) in
          bind_res
            (if match > get0 (matchIndex r1) 0 peer
             then advanceCommitLocked
               (r1\<lparr>matchIndex := (matchIndex r1)(peer \<mapsto> match),
                   nextIndex := (nextIndex r1)(peer \<mapsto> match + 1)\<rparr>)
             else Inr r1)
            (\<lambda>r2. Inr (r2, get0 (nextIndex r2) 0 peer \<le> lastIndex (rlog r2)))
        else Inr (r1\<lparr>nextIndex := (nextIndex r1)(peer \<mapsto> backtrack (rlog r1) resp)\<rparr>, True))"

definition snapshot_send ::
  "('s, 'm) Raft \<Rightarrow> nat \<Rightarrow> InstallSnapshotRequest option" where
  "snapshot_send r tm =
     (case st_Snapshot (c_Storage (cfg r)) (disk r) of
        Inr (Some meta, dat) \<Rightarrow>
          Some \<lparr>is_group = c_Group (cfg r), is_term = tm, is_leaderId = rid r,
            is_lastIncludedIndex = sm_index meta, is_lastIncludedTerm = sm_term meta,
            is_data = dat\<rparr>
      | _ \<Rightarrow> None)"

definition snapshot_reply ::
  "Env \<Rightarrow> ('s, 'm) Raft \<Rightarrow> node_id \<Rightarrow> nat \<Rightarrow> InstallSnapshotRequest \<Rightarrow> time
     \<Rightarrow> InstallSnapshotResponse \<Rightarrow> go_error + (('s, 'm) Raft \<times> bool)" where
  "snapshot_reply env r peer tm req sentAt resp =
     (if isr_term resp > currentTerm r
      then bind_res (becomeFollowerLocked env r (isr_term resp) '''') (\<lambda>r'. Inr (r', False))
      else if rstate r \<noteq> Leader \<or> currentTerm r \<noteq> tm then Inr (r, False)
      else let r1 = recordAckLocked r peer sentAt in
        bind_res
          (if is_lastIncludedIndex req > get0 (matchIndex r1) 0 peer
           then advanceCommitLocked
             (r1\<lparr>matchIndex := (matchIndex r1)(peer \<mapsto> is_lastIncludedIndex req)\<rparr>)
           else Inr r1)
          (\<lambda>r2. let r3 = r2\<lparr>nextIndex := (nextIndex r2)(peer \<mapsto> get0 (matchIndex r2) 0 peer + 1)\<rparr>
                in Inr (r3, get0 (nextIndex r3) 0 peer \<le> lastIndex (rlog r3))))"

section \<open>The follower's side\<close>

text \<open>The conflict loop: skip entries the log already holds with the same term, truncate at the
  first real conflict, and return the entries that are new.\<close>

fun find_fresh :: "raftLog \<Rightarrow> Entry list \<Rightarrow> go_error + (raftLog \<times> Entry list)" where
  "find_fresh l [] = Inr (l, [])"
| "find_fresh l (e # es) =
     (case term_at l (e_index e) of
        Some t \<Rightarrow> if t = e_term e then find_fresh l es
          else bind_res (truncateFrom l (e_index e)) (\<lambda>l'. Inr (l', e # es))
      | None \<Rightarrow> Inr (l, e # es))"

text \<open>The part after the consistency check: store what is new and advance the commit index.\<close>

definition acceptEntries ::
  "('s, 'm) Raft \<Rightarrow> AppendEntriesRequest \<Rightarrow> Entry list \<Rightarrow> go_error + ('s, 'm) Raft" where
  "acceptEntries r req es =
     bind_res (find_fresh (rlog r) es) (\<lambda>(l1, fresh).
       bind_res
         (if fresh = [] then Inr (r\<lparr>rlog := l1\<rparr>)
          else bind_res (append_entries l1 fresh) (\<lambda>l2.
                 persistLocked (r\<lparr>rlog := l2\<rparr>) False fresh))
         (\<lambda>r2.
           let lastVerified = ae_prevLogIndex req + length (ae_entries req);
               newCommit = min (ae_leaderCommit req) lastVerified
           in Inr (if newCommit > commitIndex r2 then r2\<lparr>commitIndex := newCommit\<rparr> else r2)))"

definition HandleAppendEntries ::
  "Env \<Rightarrow> ('s, 'm) Raft \<Rightarrow> AppendEntriesRequest
     \<Rightarrow> go_error + (('s, 'm) Raft \<times> AppendEntriesResponse)" where
  "HandleAppendEntries env r0 req =
     (let reply = \<lparr>aer_term = currentTerm r0, aer_success = False, aer_conflictIndex = 0,
                   aer_conflictTerm = 0\<rparr> in
      if ae_term req < currentTerm r0 then Inr (r0, reply)
      else bind_res
        (if ae_term req > currentTerm r0 \<or> rstate r0 \<noteq> Follower \<or> leaderID r0 \<noteq> ae_leaderId req
         then becomeFollowerLocked env r0 (ae_term req) (ae_leaderId req) else Inr r0)
        (\<lambda>r1.
          let r = resetElectionTimerLocked env (r1\<lparr>lastLeaderContact := now env\<rparr>);
              resp = reply\<lparr>aer_term := currentTerm r\<rparr>;
              below = ae_prevLogIndex req < snapIndex (rlog r);
              skip = snapIndex (rlog r) - ae_prevLogIndex req in
          if below \<and> skip \<ge> length (ae_entries req) then Inr (r, resp\<lparr>aer_success := True\<rparr>)
          else
            let es = (if below then drop skip (ae_entries req) else ae_entries req);
                prevIndex = (if below then snapIndex (rlog r) else ae_prevLogIndex req) in
            if prevIndex > lastIndex (rlog r)
            then Inr (r, resp\<lparr>aer_conflictIndex := lastIndex (rlog r) + 1\<rparr>)
            else if prevIndex = ae_prevLogIndex req \<and>
                    term0 (rlog r) prevIndex \<noteq> ae_prevLogTerm req
            then let t = term0 (rlog r) prevIndex in
                 Inr (r, resp\<lparr>aer_conflictTerm := t,
                        aer_conflictIndex := firstIndexOfTerm (rlog r) t prevIndex\<rparr>)
            else bind_res (acceptEntries r req es) (\<lambda>r'. Inr (r', resp\<lparr>aer_success := True\<rparr>))))"

definition HandleInstallSnapshot ::
  "Env \<Rightarrow> ('s, 'm) Raft \<Rightarrow> InstallSnapshotRequest
     \<Rightarrow> go_error + (('s, 'm) Raft \<times> InstallSnapshotResponse)" where
  "HandleInstallSnapshot env r0 req =
     (if is_term req < currentTerm r0 then Inr (r0, \<lparr>isr_term = currentTerm r0\<rparr>)
      else bind_res
        (if is_term req > currentTerm r0 \<or> rstate r0 \<noteq> Follower \<or> leaderID r0 \<noteq> is_leaderId req
         then becomeFollowerLocked env r0 (is_term req) (is_leaderId req) else Inr r0)
        (\<lambda>r1.
          let r = r1\<lparr>lastLeaderContact := now env\<rparr> in
          if is_lastIncludedIndex req \<le> commitIndex r
          then Inr (resetElectionTimerLocked env r, \<lparr>isr_term = currentTerm r\<rparr>)
          else
            let keepSuffix =
                  (term_at (rlog r) (is_lastIncludedIndex req) = Some (is_lastIncludedTerm req));
                meta = \<lparr>sm_index = is_lastIncludedIndex req, sm_term = is_lastIncludedTerm req,
                        sm_minWalSegment = 0\<rparr> in
            case st_SaveSnapshot (c_Storage (cfg r)) (disk r) meta (is_data req) (\<not> keepSuffix) of
              (_, Some _) \<Rightarrow> Inl (Panic ''raft: cannot persist snapshot'')
            | (d, None) \<Rightarrow>
                let l = (if keepSuffix
                         then compactTo (rlog r) (is_lastIncludedIndex req) (is_lastIncludedTerm req)
                         else reset (rlog r) (is_lastIncludedIndex req) (is_lastIncludedTerm req));
                    r' = r\<lparr>disk := d, rlog := l, commitIndex := is_lastIncludedIndex req,
                           pendingSnapshot := Some req\<rparr>
                in Inr (resetElectionTimerLocked env r', \<lparr>isr_term = currentTerm r'\<rparr>)))"

end
