(* ===== verification/EK_Apply.thy ===== *)
theory EK_Apply
  imports EK_Replication
begin

text \<open>
  \<open>internal/raft/apply.go\<close>: proposals and their batches, linearizable reads, the applier and
  local snapshots, leadership transfer. As before, a function that releases the lock is one
  definition per critical section; the parts of the applier that run without the lock touch
  only the state machine or the storage and are definitions of their own.
\<close>

section \<open>Writes\<close>

text \<open>The cases of a \<open>select\<close>: the program takes any that is ready.\<close>

datatype select_case = CaseChan | CaseCtx | CaseStop

definition Propose_send :: "('s, 'm) Raft \<Rightarrow> proposal \<Rightarrow> bool \<Rightarrow> select_case
     \<Rightarrow> (go_error + ('s, 'm) Raft) option" where
  "Propose_send r p ctxDone c =
     (case c of
        CaseChan \<Rightarrow> if length (proposeCh r) < 4096
          then Some (Inr (r\<lparr>proposeCh := proposeCh r @ [p]\<rparr>)) else None
      | CaseCtx \<Rightarrow> if ctxDone then Some (Inl ErrContext) else None
      | CaseStop \<Rightarrow> if stopped r then Some (Inl ErrStopped) else None)"

definition Propose_wait :: "('s, 'm) Raft \<Rightarrow> proposal \<Rightarrow> bool \<Rightarrow> select_case
     \<Rightarrow> proposalResult option" where
  "Propose_wait r p ctxDone c =
     (case c of
        CaseChan \<Rightarrow> map_option snd (find (\<lambda>(q, _). p_id q = p_id p) (sent r))
      | CaseCtx \<Rightarrow> if ctxDone then Some (Inl ErrContext) else None
      | CaseStop \<Rightarrow> if stopped r then Some (Inl ErrStopped) else None)"

definition leaderHintLocked :: "('s, 'm) Raft \<Rightarrow> node_id" where
  "leaderHintLocked r = (if rstate r = Leader then '''' else leaderID r)"

fun proposal_entries :: "nat \<Rightarrow> nat \<Rightarrow> proposal list \<Rightarrow> Entry list" where
  "proposal_entries next tm [] = []"
| "proposal_entries next tm (p # ps) =
     \<lparr>e_index = next, e_term = tm, e_type = ENTRY_NORMAL, e_data = p_data p\<rparr>
       # proposal_entries (next + 1) tm ps"

definition set_waiter ::
  "(nat \<times> proposal) list \<Rightarrow> nat \<Rightarrow> proposal \<Rightarrow> (nat \<times> proposal) list" where
  "set_waiter ws i p = filter (\<lambda>w. fst w \<noteq> i) ws @ [(i, p)]"

definition appendProposals ::
  "('s, 'm) Raft \<Rightarrow> proposal list \<Rightarrow> go_error + ('s, 'm) Raft" where
  "appendProposals r batch =
     (if rstate r \<noteq> Leader \<or> transferTarget r \<noteq> '''' \<or> stopped r
      then let err = (if stopped r then ErrStopped else NotLeaderError (leaderHintLocked r))
           in Inr (r\<lparr>sent := sent r @ map (\<lambda>p. (p, Inl err)) batch\<rparr>)
      else
        let batch' = map (p_term_update (\<lambda>_. currentTerm r)) batch;
            es = proposal_entries (lastIndex (rlog r) + 1) (currentTerm r) batch'
        in bind_res (append_entries (rlog r) es) (\<lambda>l.
           bind_res (persistLocked (r\<lparr>rlog := l\<rparr>) False es) (\<lambda>r1.
             let r2 = r1\<lparr>waiters := foldl (\<lambda>ws (e, p). set_waiter ws (e_index e) p)
                            (waiters r1) (zip es batch')\<rparr>
             in advanceCommitLocked (triggerReplicationLocked r2))))"

text \<open>One turn of \<open>runProposer\<close>: it takes the first proposal, drains what is queued up to the
  batch limit and appends the batch. \<open>None\<close>: nothing is queued and it blocks.\<close>

definition runProposer_turn ::
  "('s, 'm) Raft \<Rightarrow> (go_error + ('s, 'm) Raft) option" where
  "runProposer_turn r =
     (case proposeCh r of [] \<Rightarrow> None
      | p # ps \<Rightarrow>
          let n = c_MaxProposalBatch (cfg r) - 1
          in Some (appendProposals (r\<lparr>proposeCh := drop n ps\<rparr>) (p # take n ps)))"

section \<open>Linearizable reads\<close>

definition confirm_begin ::
  "Env \<Rightarrow> ('s, 'm) Raft \<Rightarrow> go_error + (('s, 'm) Raft \<times> nat \<times> nat \<times> time)" where
  "confirm_begin env r =
     (if rstate r \<noteq> Leader then Inl (NotLeaderError (leaderID r))
      else if commitIndex r < noopIndex r then Inl ErrNotReady
      else Inr (triggerReplicationLocked r, currentTerm r, commitIndex r, now env))"

text \<open>One look of the waiting loop; \<open>None\<close> means that it waits.\<close>

definition confirm_poll ::
  "('s, 'm) Raft \<Rightarrow> nat \<Rightarrow> nat \<Rightarrow> time \<Rightarrow> (go_error + nat) option" where
  "confirm_poll r tm readIndex start =
     (if rstate r \<noteq> Leader \<or> currentTerm r \<noteq> tm then Some (Inl (NotLeaderError (leaderID r)))
      else if hasQuorumAckSinceLocked r start then Some (Inr readIndex)
      else None)"

definition runReader_drain :: "('s, 'm) Raft \<Rightarrow> (('s, 'm) Raft \<times> nat list) option" where
  "runReader_drain r =
     (if readCh r = [] then None else Some (r\<lparr>readCh := []\<rparr>, readCh r))"

definition runReader_answer ::
  "('s, 'm) Raft \<Rightarrow> nat list \<Rightarrow> go_error + nat \<Rightarrow> ('s, 'm) Raft" where
  "runReader_answer r batch res =
     r\<lparr>readsDone := readsDone r @ map (\<lambda>q. (q, res)) batch\<rparr>"

definition waitApplied_poll :: "('s, 'm) Raft \<Rightarrow> nat \<Rightarrow> bool" where
  "waitApplied_poll r index \<longleftrightarrow> lastApplied r \<ge> index"

section \<open>The applier\<close>

datatype applier_work = ApplierWait | ApplierExit | ApplierRestore InstallSnapshotRequest
  | ApplierEntries "Entry list"

definition applier_begin :: "('s, 'm) Raft \<Rightarrow> go_error + (('s, 'm) Raft \<times> applier_work)" where
  "applier_begin r =
     (if \<not> stopped r \<and> pendingSnapshot r = None \<and> lastApplied r \<ge> commitIndex r
      then Inr (r, ApplierWait)
      else if stopped r then Inr (r, ApplierExit)
      else case pendingSnapshot r of
        Some snap \<Rightarrow> Inr (r\<lparr>pendingSnapshot := None\<rparr>, ApplierRestore snap)
      | None \<Rightarrow> bind_res (slice (rlog r) (lastApplied r + 1) (commitIndex r))
                 (\<lambda>es. Inr (r, ApplierEntries es)))"

definition applier_restore ::
  "('s, 'm) Raft \<Rightarrow> InstallSnapshotRequest \<Rightarrow> go_error + ('s, 'm) Raft" where
  "applier_restore r snap =
     (case sm_Restore (c_StateMachine (cfg r)) (machine r) (is_data snap) of
        Inl _ \<Rightarrow> Inl (Panic ''raft: cannot restore snapshot'')
      | Inr m \<Rightarrow> Inr (r\<lparr>machine := m\<rparr>))"

definition applier_restored ::
  "('s, 'm) Raft \<Rightarrow> InstallSnapshotRequest \<Rightarrow> ('s, 'm) Raft" where
  "applier_restored r snap =
     r\<lparr>lastApplied := max (lastApplied r) (is_lastIncludedIndex snap)\<rparr>"

fun apply_entries ::
  "'m StateMachineOps \<Rightarrow> 'm \<Rightarrow> Entry list \<Rightarrow> go_error + ('m \<times> bytes list)" where
  "apply_entries ops m [] = Inr (m, [])"
| "apply_entries ops m (e # es) =
     bind_res (if e_type e = ENTRY_NORMAL then sm_Apply ops m (e_index e) (e_data e)
               else Inr (m, []))
       (\<lambda>(m1, b). bind_res (apply_entries ops m1 es) (\<lambda>(m2, bs). Inr (m2, b # bs)))"

definition applier_apply ::
  "('s, 'm) Raft \<Rightarrow> Entry list \<Rightarrow> go_error + (('s, 'm) Raft \<times> bytes list)" where
  "applier_apply r es =
     bind_res (apply_entries (c_StateMachine (cfg r)) (machine r) es)
       (\<lambda>(m, bs). Inr (r\<lparr>machine := m\<rparr>, bs))"

text \<open>The delivery loop of the second critical section.\<close>

fun deliver :: "('s, 'm) Raft \<Rightarrow> (Entry \<times> bytes) list \<Rightarrow> ('s, 'm) Raft" where
  "deliver r [] = r"
| "deliver r ((e, b) # rest) =
     (case map_of (waiters r) (e_index e) of
        None \<Rightarrow> deliver r rest
      | Some p \<Rightarrow>
          let res = (if p_term p = e_term e then Inr b else Inl (NotLeaderError (leaderID r)))
          in deliver (r\<lparr>waiters := filter (\<lambda>w. fst w \<noteq> e_index e) (waiters r),
                        sent := sent r @ [(p, res)]\<rparr>) rest)"

definition applier_finish ::
  "('s, 'm) Raft \<Rightarrow> Entry list \<Rightarrow> bytes list
     \<Rightarrow> go_error + (('s, 'm) Raft \<times> nat option)" where
  "applier_finish r es bs =
     (let r1 = deliver r (zip es bs) in
      if es = [] then Inl (Panic ''index out of range'')
      else let lst = e_index (last es);
               r2 = r1\<lparr>lastApplied := max (lastApplied r1) lst\<rparr>;
               needSnapshot = (c_SnapshotThreshold (cfg r2) > 0 \<and>
                 lastApplied r2 > snapIndex (rlog r2) \<and>
                 lastApplied r2 - snapIndex (rlog r2) \<ge> c_SnapshotThreshold (cfg r2))
           in Inr (r2, if needSnapshot then Some lst else None))"

text \<open>\<open>takeSnapshot\<close>: serialise the machine, look up the term under the lock, write the file
  without it, compact under it. \<open>None\<close>, or \<open>False\<close> from \<open>snapshot_save\<close>: the function returns at
  that point.\<close>

definition snapshot_serialise :: "('s, 'm) Raft \<Rightarrow> bytes option" where
  "snapshot_serialise r =
     (case sm_Snapshot (c_StateMachine (cfg r)) (machine r) of Inl _ \<Rightarrow> None | Inr b \<Rightarrow> Some b)"

definition snapshot_term :: "('s, 'm) Raft \<Rightarrow> nat \<Rightarrow> nat option" where
  "snapshot_term r index = term_at (rlog r) index"

definition snapshot_save ::
  "('s, 'm) Raft \<Rightarrow> nat \<Rightarrow> nat \<Rightarrow> bytes \<Rightarrow> ('s, 'm) Raft \<times> bool" where
  "snapshot_save r index tm dat =
     (case st_SaveSnapshot (c_Storage (cfg r)) (disk r)
             \<lparr>sm_index = index, sm_term = tm, sm_minWalSegment = 0\<rparr> dat False of
        (d, err) \<Rightarrow> (r\<lparr>disk := d\<rparr>, err = None))"

definition snapshot_compact :: "('s, 'm) Raft \<Rightarrow> nat \<Rightarrow> nat \<Rightarrow> ('s, 'm) Raft" where
  "snapshot_compact r index tm = r\<lparr>rlog := compactTo (rlog r) index tm\<rparr>"

section \<open>Leadership transfer\<close>

definition transfer_begin ::
  "Env \<Rightarrow> ('s, 'm) Raft \<Rightarrow> node_id \<Rightarrow> go_error + (('s, 'm) Raft \<times> nat)" where
  "transfer_begin env r target =
     (if rstate r \<noteq> Leader then Inl (NotLeaderError (leaderID r))
      else if matchIndex r target = None \<or> transferTarget r \<noteq> '''' then Inl ErrTransferFailed
      else if now env - get0 (ackedSendTime r) 0 target > c_ElectionTimeoutMin (cfg r)
      then Inl ErrTransferFailed
      else Inr (triggerReplicationLocked (r\<lparr>transferTarget := target\<rparr>), currentTerm r))"

datatype transfer_look = TransferDone | TransferCaughtUp TimeoutNowRequest | TransferWait

definition transfer_poll :: "('s, 'm) Raft \<Rightarrow> node_id \<Rightarrow> nat \<Rightarrow> transfer_look" where
  "transfer_poll r target tm =
     (if rstate r \<noteq> Leader \<or> currentTerm r \<noteq> tm then TransferDone
      else if get0 (matchIndex r) 0 target = lastIndex (rlog r)
      then TransferCaughtUp \<lparr>tn_group = c_Group (cfg r), tn_term = tm, tn_leaderId = rid r\<rparr>
      else TransferWait)"

definition transfer_lost :: "('s, 'm) Raft \<Rightarrow> nat \<Rightarrow> bool" where
  "transfer_lost r tm \<longleftrightarrow> rstate r \<noteq> Leader \<or> currentTerm r \<noteq> tm"

definition transfer_exit :: "('s, 'm) Raft \<Rightarrow> nat \<Rightarrow> ('s, 'm) Raft" where
  "transfer_exit r tm =
     (if rstate r = Leader \<and> currentTerm r = tm then r\<lparr>transferTarget := ''''\<rparr> else r)"

end
