(* ===== verification/EK_Voting.thy ===== *)
theory EK_Voting
  imports EK_Apply
begin

text \<open>
  What the operations of a replica do to its term, its vote and its role. The relation
  \<open>vstep\<close> says that the term never decreases, that within a term a vote once given stays, that
  no operation but winning an election makes a leader, and that the term and the vote on disk
  are those in memory if they were before. Every operation of \<open>raft.go\<close>, \<open>election.go\<close>,
  \<open>replication.go\<close> and \<open>apply.go\<close> other than \<open>becomeLeaderLocked\<close> satisfies it for arbitrary
  arguments, over any storage that keeps the contract \<open>hard_state_storage\<close>.
\<close>

section \<open>The relation\<close>

definition same_id :: "('s, 'm) Raft \<Rightarrow> ('s, 'm) Raft \<Rightarrow> bool" where
  "same_id r r' \<longleftrightarrow>
     rid r' = rid r \<and> cfg r' = cfg r \<and> others r' = others r \<and> quorum r' = quorum r"

definition vote_kept :: "('s, 'm) Raft \<Rightarrow> ('s, 'm) Raft \<Rightarrow> bool" where
  "vote_kept r r' \<longleftrightarrow> currentTerm r < currentTerm r' \<or>
     (currentTerm r' = currentTerm r \<and> (votedFor r' = votedFor r \<or> votedFor r = ''''))"

definition no_rise :: "('s, 'm) Raft \<Rightarrow> ('s, 'm) Raft \<Rightarrow> bool" where
  "no_rise r r' \<longleftrightarrow>
     (rstate r' = Leader \<longrightarrow> rstate r = Leader \<and> currentTerm r' = currentTerm r)"

text \<open>What a node reads from a hard state at start-up; none was ever written on a new disk.\<close>

definition hs_value :: "HardState option \<Rightarrow> nat \<times> node_id" where
  "hs_value h = (case h of None \<Rightarrow> (0, '''') | Some h \<Rightarrow> (hs_term h, hs_votedFor h))"

definition persisted ::
  "'s StorageOps \<Rightarrow> ('s \<Rightarrow> bool) \<Rightarrow> ('s \<Rightarrow> HardState option) \<Rightarrow> ('s, 'm) Raft \<Rightarrow> bool" where
  "persisted ops ok hs_of r \<longleftrightarrow> c_Storage (cfg r) = ops \<and> ok (disk r) \<and>
     hs_value (hs_of (disk r)) = (currentTerm r, votedFor r)"

definition vstep ::
  "'s StorageOps \<Rightarrow> ('s \<Rightarrow> bool) \<Rightarrow> ('s \<Rightarrow> HardState option)
     \<Rightarrow> ('s, 'm) Raft \<Rightarrow> ('s, 'm) Raft \<Rightarrow> bool" where
  "vstep ops ok hs_of r r' \<longleftrightarrow> same_id r r' \<and> vote_kept r r' \<and> no_rise r r' \<and>
     (persisted ops ok hs_of r \<longrightarrow> persisted ops ok hs_of r')"

lemma same_id_refl [simp]: "same_id r r"
  by (simp add: same_id_def)

lemma same_id_trans: "same_id r s \<Longrightarrow> same_id s t \<Longrightarrow> same_id r t"
  by (simp add: same_id_def)

lemma vote_kept_trans: "vote_kept r s \<Longrightarrow> vote_kept s t \<Longrightarrow> vote_kept r t"
  by (auto simp: vote_kept_def)

lemma vstep_refl [simp]: "vstep ops ok hs_of r r"
  by (simp add: vstep_def vote_kept_def no_rise_def)

lemma vstep_trans:
  "vstep ops ok hs_of r s \<Longrightarrow> vstep ops ok hs_of s t \<Longrightarrow> vstep ops ok hs_of r t"
  by (auto simp: vstep_def no_rise_def intro: same_id_trans vote_kept_trans)

text \<open>Operations that leave the term, the vote, the disk and the role alone.\<close>

definition quiet :: "('s, 'm) Raft \<Rightarrow> ('s, 'm) Raft \<Rightarrow> bool" where
  "quiet r r' \<longleftrightarrow> same_id r r' \<and> currentTerm r' = currentTerm r \<and> votedFor r' = votedFor r \<and>
     disk r' = disk r \<and> rstate r' = rstate r"

lemma quiet_refl [simp]: "quiet r r"
  by (simp add: quiet_def)

lemma quiet_trans: "quiet r s \<Longrightarrow> quiet s t \<Longrightarrow> quiet r t"
  by (auto simp: quiet_def intro: same_id_trans)

lemma quiet_vstep: "quiet r r' \<Longrightarrow> vstep ops ok hs_of r r'"
  by (auto simp: quiet_def vstep_def vote_kept_def no_rise_def persisted_def same_id_def)

lemma vstep_quiet: "vstep ops ok hs_of r s \<Longrightarrow> quiet s t \<Longrightarrow> vstep ops ok hs_of r t"
  by (rule vstep_trans [OF _ quiet_vstep])

lemma quiet_update [simp]:
  "quiet r (r\<lparr>rlog := a1\<rparr>)" "quiet r (r\<lparr>leaderID := a2\<rparr>)" "quiet r (r\<lparr>commitIndex := a3\<rparr>)"
  "quiet r (r\<lparr>lastApplied := a4\<rparr>)" "quiet r (r\<lparr>electionDeadline := a5\<rparr>)"
  "quiet r (r\<lparr>lastLeaderContact := a6\<rparr>)" "quiet r (r\<lparr>campaigning := a7\<rparr>)"
  "quiet r (r\<lparr>nextIndex := a8\<rparr>)" "quiet r (r\<lparr>matchIndex := a9\<rparr>)"
  "quiet r (r\<lparr>ackedSendTime := b1\<rparr>)" "quiet r (r\<lparr>transferTarget := b2\<rparr>)"
  "quiet r (r\<lparr>triggers := b3\<rparr>)" "quiet r (r\<lparr>waiters := b4\<rparr>)"
  "quiet r (r\<lparr>pendingSnapshot := b5\<rparr>)" "quiet r (r\<lparr>proposeCh := b6\<rparr>)"
  "quiet r (r\<lparr>readCh := b7\<rparr>)" "quiet r (r\<lparr>stopped := b8\<rparr>)" "quiet r (r\<lparr>machine := b9\<rparr>)"
  "quiet r (r\<lparr>sent := c1\<rparr>)" "quiet r (r\<lparr>readsDone := c2\<rparr>)" "quiet r (r\<lparr>notices := c3\<rparr>)"
  "quiet r (r\<lparr>spawned := c4\<rparr>)" "quiet r (r\<lparr>noopIndex := c5\<rparr>)" "quiet r (r\<lparr>leaderCancel := c6\<rparr>)"
  by (simp_all add: quiet_def same_id_def)

section \<open>Quiet operations\<close>

lemma quiet_reset [simp]: "quiet r (resetElectionTimerLocked env r)"
  by (simp add: resetElectionTimerLocked_def Let_def)

lemma quiet_notify [simp]: "quiet r (notifyStateChangeLocked r)"
  by (simp add: notifyStateChangeLocked_def)

lemma quiet_failWaiters [simp]: "quiet r (failWaitersLocked r err)"
  by (simp add: failWaitersLocked_def quiet_def same_id_def)

lemma quiet_trigger [simp]: "quiet r (triggerReplicationLocked r)"
  by (simp add: triggerReplicationLocked_def)

lemma quiet_recordAck [simp]: "quiet r (recordAckLocked r peer t)"
  by (simp add: recordAckLocked_def)

lemma quiet_advanceCommit: "advanceCommitLocked r = Inr r' \<Longrightarrow> quiet r r'"
  by (auto simp: advanceCommitLocked_def Let_def split: if_splits)

lemma quiet_Stop: "quiet r (Stop r)"
  by (auto simp: Stop_def failWaitersLocked_def quiet_def same_id_def)

lemma quiet_deliver: "quiet r (deliver r xs)"
proof (induction r xs rule: deliver.induct)
  case (2 r e b rest)
  show ?case
  proof (cases "map_of (waiters r) (e_index e)")
    case (Some p)
    let ?res = "if p_term p = e_term e then Inr b else Inl (NotLeaderError (leaderID r))"
    let ?r = "r\<lparr>waiters := filter (\<lambda>w. fst w \<noteq> e_index e) (waiters r), sent := sent r @ [(p, ?res)]\<rparr>"
    have "quiet r ?r" by (simp add: quiet_def same_id_def)
    then show ?thesis using 2(2) [OF Some refl] Some by (auto intro: quiet_trans)
  qed (use 2(1) in simp)
qed simp

lemma quiet_applier_finish: "applier_finish r es bs = Inr (r', s) \<Longrightarrow> quiet r r'"
  by (auto simp: applier_finish_def Let_def intro: quiet_trans [OF quiet_deliver quiet_update(4)]
      split: if_splits)

lemma quiet_applier_begin: "applier_begin r = Inr (r', w) \<Longrightarrow> quiet r r'"
  by (auto simp: applier_begin_def bind_res_eq_Inr split: if_splits option.splits)

lemma quiet_HandleTimeoutNow: "quiet r (fst (HandleTimeoutNow r req))"
  by (simp add: HandleTimeoutNow_def Let_def quiet_def same_id_def)

lemma quiet_transfer_begin: "transfer_begin env r target = Inr (r', t) \<Longrightarrow> quiet r r'"
  by (auto simp: transfer_begin_def triggerReplicationLocked_def quiet_def same_id_def
      split: if_splits)

section \<open>Operations that write to disk\<close>

lemma persist_fields:
  assumes "persistLocked r hb es = Inr r'"
  shows "\<exists>d. st_Save (c_Storage (cfg r)) (disk r)
       (if hb then Some \<lparr>hs_term = currentTerm r, hs_votedFor = votedFor r\<rparr> else None) es = Inr d \<and>
     r' = r\<lparr>disk := d\<rparr>"
  using assms by (cases hb) (auto simp: persistLocked_def Let_def split: sum.splits)

context hard_state_storage
begin

lemma persist_vstep:
  assumes "persistLocked r hb es = Inr r'"
  shows "vstep ops ok hs_of r r'"
proof -
  let ?hs = "if hb then Some \<lparr>hs_term = currentTerm r, hs_votedFor = votedFor r\<rparr> else None"
  obtain d where d: "st_Save (c_Storage (cfg r)) (disk r) ?hs es = Inr d" "r' = r\<lparr>disk := d\<rparr>"
    using persist_fields [OF assms] by blast
  have "persisted ops ok hs_of r'" if p: "persisted ops ok hs_of r"
    using p save_hs [of "disk r" ?hs es d] d by (cases hb) (simp_all add: persisted_def hs_value_def)
  then show ?thesis by (simp add: d vstep_def same_id_def vote_kept_def no_rise_def)
qed

text \<open>Writing the hard state makes the term and the vote in memory durable, whatever they
  were before.\<close>

lemma persist_hard_state:
  assumes "persistLocked r True es = Inr r'" and "c_Storage (cfg r) = ops" and "ok (disk r)"
  shows "persisted ops ok hs_of r'"
proof -
  obtain d where d: "st_Save (c_Storage (cfg r)) (disk r)
      (Some \<lparr>hs_term = currentTerm r, hs_votedFor = votedFor r\<rparr>) es = Inr d" "r' = r\<lparr>disk := d\<rparr>"
    using persist_fields [OF assms(1)] by auto
  then show ?thesis
    using assms(2,3) save_hs [OF assms(3), of _ es d] by (simp add: persisted_def hs_value_def)
qed

lemma becomeFollower_vstep:
  assumes "becomeFollowerLocked env r tm l = Inr r'"
  shows "vstep ops ok hs_of r r'"
    and "currentTerm r' = max tm (currentTerm r)" and "rstate r' = Follower"
    and "currentTerm r < tm \<Longrightarrow> votedFor r' = ''''"
    and "tm \<le> currentTerm r \<Longrightarrow> votedFor r' = votedFor r"
proof -
  let ?r0 = "if tm > currentTerm r then r\<lparr>currentTerm := tm, votedFor := ''''\<rparr> else r"
  obtain r1 c where r1: "(if tm > currentTerm r
         then bind_res (persistLocked (r\<lparr>currentTerm := tm, votedFor := ''''\<rparr>) True [])
                (\<lambda>r'. Inr (r', True))
         else Inr (r, rstate r \<noteq> Follower \<or> leaderID r \<noteq> l)) = Inr (r1, c)"
    using assms [unfolded becomeFollowerLocked_def Let_def] by (rule bind_resE) auto
  obtain r3 where r3: "(if rstate r = Leader
             then if \<not> leaderCancel (r1\<lparr>rstate := Follower, leaderID := l\<rparr>)
               then Inl (Panic ''nil function call'')
               else Inr (resetElectionTimerLocked env
                      (failWaitersLocked (r1\<lparr>rstate := Follower, leaderID := l,
                         leaderCancel := False, transferTarget := ''''\<rparr>) (NotLeaderError l)))
             else Inr (r1\<lparr>rstate := Follower, leaderID := l\<rparr>)) = Inr r3"
      and r': "r' = (if c then notifyStateChangeLocked r3 else r3)"
    using assms [unfolded becomeFollowerLocked_def Let_def r1 bind_res_Inr prod.case]
    by (rule bind_resE) simp
  have "quiet (r1\<lparr>rstate := Follower\<rparr>) r3"
    using r3 by (cases "rstate r = Leader"; cases "leaderCancel r1")
      (simp_all add: quiet_def same_id_def resetElectionTimerLocked_def failWaitersLocked_def Let_def,
       auto)
  then have q: "quiet (r1\<lparr>rstate := Follower\<rparr>) r'"
    unfolding r' by (cases c) (auto intro: quiet_trans [OF _ quiet_notify])
  obtain d where d: "r1 = ?r0\<lparr>disk := d\<rparr>"
  proof (cases "tm > currentTerm r")
    case True
    then have "persistLocked ?r0 True [] = Inr r1"
      using r1 by (cases "persistLocked ?r0 True []") simp_all
    from persist_fields [OF this] show ?thesis using that by blast
  next
    case False
    then show ?thesis using r1 that [of "disk r"] by simp
  qed
  have p: "persisted ops ok hs_of r \<longrightarrow> persisted ops ok hs_of r1"
  proof (cases "tm > currentTerm r")
    case True
    then have "persistLocked ?r0 True [] = Inr r1"
      using r1 by (cases "persistLocked ?r0 True []") simp_all
    then show ?thesis using True persist_hard_state [of ?r0 "[]" r1]
      by (simp add: persisted_def)
  next
    case False
    then show ?thesis using r1 by simp
  qed
  show "currentTerm r' = max tm (currentTerm r)" "rstate r' = Follower"
    "currentTerm r < tm \<Longrightarrow> votedFor r' = ''''" "tm \<le> currentTerm r \<Longrightarrow> votedFor r' = votedFor r"
    using q unfolding d by (simp_all add: quiet_def)
  have "vstep ops ok hs_of r (r1\<lparr>rstate := Follower\<rparr>)"
    using p unfolding d by (cases "tm > currentTerm r")
      (simp_all add: vstep_def same_id_def vote_kept_def no_rise_def persisted_def)
  then show "vstep ops ok hs_of r r'"
    by (rule vstep_trans [OF _ quiet_vstep [OF q]])
qed

lemma startElection_vstep:
  assumes "startElection env r = Inr (r', req)"
  shows "vstep ops ok hs_of r r'" and "currentTerm r' = currentTerm r + 1" and "votedFor r' = rid r"
    and "rstate r' = Candidate" and "req = Some (voteRequestLocked r' (currentTerm r') False)"
proof -
  let ?r1 = "r\<lparr>currentTerm := currentTerm r + 1, votedFor := rid r, rstate := Candidate, leaderID := ''''\<rparr>"
  obtain r2 where r2: "persistLocked ?r1 True [] = Inr r2"
      and r': "r' = notifyStateChangeLocked (resetElectionTimerLocked env r2)"
      and req: "req = Some (voteRequestLocked r' (currentTerm r') False)"
    using assms unfolding startElection_def Let_def by (elim bind_resE) auto
  have q: "quiet r2 r'" unfolding r' by (rule quiet_trans [OF quiet_reset quiet_notify])
  obtain d where d: "r2 = ?r1\<lparr>disk := d\<rparr>" using persist_fields [OF r2] by auto
  have p: "persisted ops ok hs_of r2" if "persisted ops ok hs_of r"
    using that by (intro persist_hard_state [OF r2]) (simp_all add: persisted_def)
  show "currentTerm r' = currentTerm r + 1" "votedFor r' = rid r" "rstate r' = Candidate"
    using q by (simp_all add: d quiet_def)
  show "req = Some (voteRequestLocked r' (currentTerm r') False)" by (rule req)
  have "vstep ops ok hs_of r r2"
    using p by (simp add: vstep_def same_id_def vote_kept_def no_rise_def d)
  then show "vstep ops ok hs_of r r'" by (rule vstep_trans [OF _ quiet_vstep [OF q]])
qed

lemma campaign_begin_vstep:
  assumes "campaign_begin env r skip = Inr (r', req)"
  shows "vstep ops ok hs_of r r'"
proof (cases "stopped r \<or> rstate r = Leader \<or> \<not> skip")
  case True
  then have "quiet r r'" using assms by (auto simp: campaign_begin_def Let_def split: if_splits)
  then show ?thesis by (rule quiet_vstep)
next
  case False
  then have "startElection env (resetElectionTimerLocked env r) = Inr (r', req)"
    using assms by (simp add: campaign_begin_def Let_def)
  from startElection_vstep(1) [OF this] show ?thesis
    by (rule vstep_trans [OF quiet_vstep [OF quiet_reset]])
qed

lemma campaign_prevoted_vstep:
  "campaign_prevoted env r req won = Inr (r', req') \<Longrightarrow> vstep ops ok hs_of r r'"
  by (auto simp: campaign_prevoted_def intro: startElection_vstep(1) split: if_splits)

lemma voteResponse_vstep:
  "voteResponse env r resp = Inr (r', a) \<Longrightarrow> vstep ops ok hs_of r r'"
  by (auto simp: voteResponse_def elim!: bind_resE intro: becomeFollower_vstep(1)
      split: if_splits option.splits)

lemma HandleRequestVote_vstep:
  assumes "HandleRequestVote env r req = Inr (r', resp)"
  shows "vstep ops ok hs_of r r' \<and> (rvr_voteGranted resp \<and> \<not> rv_preVote req \<longrightarrow>
      currentTerm r' = rv_term req \<and> votedFor r' = rv_candidateId req)"
proof (cases "rv_preVote req \<or> rv_term req < currentTerm r")
  case True
  then show ?thesis using assms by (auto simp: HandleRequestVote_def split: if_splits)
next
  case False
  let ?no = "\<lambda>r1. \<not> (votedFor r1 = '''' \<or> votedFor r1 = rv_candidateId req) \<or>
    \<not> logUpToDateLocked r1 (rv_lastLogIndex req) (rv_lastLogTerm req)"
  obtain r1 where r1: "(if rv_term req > currentTerm r
         then becomeFollowerLocked env r (rv_term req) '''' else Inr r) = Inr r1"
      and rest: "(if ?no r1 then Inr (r1, \<lparr>rvr_term = currentTerm r1, rvr_voteGranted = False\<rparr>)
        else bind_res (persistLocked (r1\<lparr>votedFor := rv_candidateId req\<rparr>) True []) (\<lambda>r2.
          Inr (resetElectionTimerLocked env r2,
            \<lparr>rvr_term = currentTerm (resetElectionTimerLocked env r2), rvr_voteGranted = True\<rparr>)))
        = Inr (r', resp)"
    using assms False unfolding HandleRequestVote_def Let_def by (auto elim: bind_resE)
  have v1: "vstep ops ok hs_of r r1"
    using r1 by (auto intro: becomeFollower_vstep(1) split: if_splits)
  have t1: "currentTerm r1 = rv_term req"
    using r1 False becomeFollower_vstep(2) [of env r "rv_term req" "''''" r1]
    by (auto split: if_splits)
  show ?thesis
  proof (cases "?no r1")
    case True
    then show ?thesis using rest v1 by (auto split: if_splits)
  next
    case vote: False
    then obtain r2 where r2: "persistLocked (r1\<lparr>votedFor := rv_candidateId req\<rparr>) True [] = Inr r2"
        and r': "r' = resetElectionTimerLocked env r2"
      using rest by (auto elim: bind_resE split: if_splits)
    obtain d where d: "r2 = r1\<lparr>votedFor := rv_candidateId req, disk := d\<rparr>"
      using persist_fields [OF r2] by auto
    have "persisted ops ok hs_of r2" if "persisted ops ok hs_of r1"
      using that by (intro persist_hard_state [OF r2]) (simp_all add: persisted_def)
    then have "vstep ops ok hs_of r1 r2"
      using vote by (auto simp: vstep_def same_id_def vote_kept_def no_rise_def d)
    moreover have q: "quiet r2 r'" unfolding r' by simp
    ultimately have "vstep ops ok hs_of r r'"
      using v1 by (blast intro: vstep_trans vstep_quiet)
    then show ?thesis using q t1 by (simp add: quiet_def d)
  qed
qed

lemma tick_vstep:
  assumes "tick env r = Inr r'"
  shows "vstep ops ok hs_of r r'"
proof (cases "\<not> stopped r \<and> rstate r = Leader")
  case True
  then show ?thesis
    using assms by (auto simp: tick_def intro: becomeFollower_vstep(1) split: if_splits)
next
  case False
  then have "quiet r r'"
    using assms by (auto simp: tick_def quiet_def same_id_def split: if_splits)
  then show ?thesis by (rule quiet_vstep)
qed

lemma replicate_reply_vstep:
  assumes "replicate_reply env r peer tm req sentAt resp = Inr (r', again)"
  shows "vstep ops ok hs_of r r'"
proof (cases "aer_term resp > currentTerm r")
  case True
  then show ?thesis
    using assms by (auto simp: replicate_reply_def elim: bind_resE intro: becomeFollower_vstep(1))
next
  case False
  let ?r1 = "recordAckLocked r peer sentAt"
  have "quiet ?r1 r' \<or> r' = r"
    using assms False
    by (auto simp: replicate_reply_def Let_def elim!: bind_resE dest!: quiet_advanceCommit
        split: if_splits) (auto simp: quiet_def same_id_def)
  then show ?thesis using quiet_vstep quiet_trans [OF quiet_recordAck] vstep_refl by blast
qed

lemma snapshot_reply_vstep:
  assumes "snapshot_reply env r peer tm req sentAt resp = Inr (r', again)"
  shows "vstep ops ok hs_of r r'"
proof (cases "isr_term resp > currentTerm r")
  case True
  then show ?thesis
    using assms by (auto simp: snapshot_reply_def elim: bind_resE intro: becomeFollower_vstep(1))
next
  case False
  let ?r1 = "recordAckLocked r peer sentAt"
  have "quiet ?r1 r' \<or> r' = r"
    using assms False
    by (auto simp: snapshot_reply_def Let_def elim!: bind_resE dest!: quiet_advanceCommit
        split: if_splits) (auto simp: quiet_def same_id_def)
  then show ?thesis using quiet_vstep quiet_trans [OF quiet_recordAck] vstep_refl by blast
qed

lemma persist_log_vstep:
  assumes "persistLocked (r\<lparr>rlog := l\<rparr>) hb es = Inr r'"
  shows "vstep ops ok hs_of r r'"
  by (rule vstep_trans [OF quiet_vstep [OF quiet_update(1)] persist_vstep [OF assms]])

lemma acceptEntries_vstep:
  assumes "acceptEntries r req es = Inr r'"
  shows "vstep ops ok hs_of r r'"
proof -
  obtain l1 fresh r2 where r2: "(if fresh = [] then Inr (r\<lparr>rlog := l1\<rparr>)
          else bind_res (append_entries l1 fresh) (\<lambda>l2.
                 persistLocked (r\<lparr>rlog := l2\<rparr>) False fresh)) = Inr r2" and q: "quiet r2 r'"
    using assms unfolding acceptEntries_def Let_def by (elim bind_resE) (auto elim!: bind_resE)
  have "vstep ops ok hs_of r r2"
    using r2 quiet_vstep [OF quiet_update(1)] by (auto elim: bind_resE dest: persist_log_vstep split: if_splits)
  then show ?thesis using q by (rule vstep_quiet)
qed

lemma HandleAppendEntries_vstep:
  assumes "HandleAppendEntries env r req = Inr (r', resp)"
  shows "vstep ops ok hs_of r r'"
proof (cases "ae_term req < currentTerm r")
  case True
  then show ?thesis using assms by (simp add: HandleAppendEntries_def Let_def)
next
  case False
  from assms [unfolded HandleAppendEntries_def Let_def if_not_P [OF False]]
  obtain r1 where r1: "(if ae_term req > currentTerm r \<or> rstate r \<noteq> Follower \<or>
         leaderID r \<noteq> ae_leaderId req
       then becomeFollowerLocked env r (ae_term req) (ae_leaderId req) else Inr r) = Inr r1"
    by (rule bind_resE)
  let ?r = "resetElectionTimerLocked env (r1\<lparr>lastLeaderContact := now env\<rparr>)"
  have "vstep ops ok hs_of r r1"
    using r1 by (auto intro: becomeFollower_vstep(1) split: if_splits)
  then have v: "vstep ops ok hs_of r ?r"
    by (rule vstep_quiet) (rule quiet_trans [OF quiet_update(6) quiet_reset])
  have "vstep ops ok hs_of ?r r'"
    using assms [unfolded HandleAppendEntries_def Let_def if_not_P [OF False] r1 bind_res_Inr]
    by (auto elim!: bind_resE intro: acceptEntries_vstep split: if_splits)
  with v show ?thesis by (rule vstep_trans)
qed

lemma saveSnapshot_vstep:
  assumes d: "st_SaveSnapshot (c_Storage (cfg r)) (disk r) meta dat discard = (d, err)"
    and min: "sm_minWalSegment meta = 0" and err: "err = None \<or> \<not> discard" and q: "quiet (r\<lparr>disk := d\<rparr>) r'"
  shows "vstep ops ok hs_of r r'"
proof -
  have "persisted ops ok hs_of (r\<lparr>disk := d\<rparr>)" if "persisted ops ok hs_of r"
    using that d err snapshot_hs [of "disk r" meta dat discard d, OF _ min]
      snapshot_failed_hs [of "disk r" meta dat d, OF _ min]
    by (cases err) (auto simp: persisted_def)
  then have "vstep ops ok hs_of r (r\<lparr>disk := d\<rparr>)"
    by (simp add: vstep_def same_id_def vote_kept_def no_rise_def)
  then show ?thesis using q by (rule vstep_quiet)
qed

lemma HandleInstallSnapshot_vstep:
  assumes "HandleInstallSnapshot env r req = Inr (r', resp)"
  shows "vstep ops ok hs_of r r'"
proof (cases "is_term req < currentTerm r")
  case True
  then show ?thesis using assms by (simp add: HandleInstallSnapshot_def)
next
  case False
  from assms [unfolded HandleInstallSnapshot_def Let_def if_not_P [OF False]]
  obtain r1 where r1: "(if is_term req > currentTerm r \<or> rstate r \<noteq> Follower \<or>
         leaderID r \<noteq> is_leaderId req
       then becomeFollowerLocked env r (is_term req) (is_leaderId req) else Inr r) = Inr r1"
    by (rule bind_resE)
  have v: "vstep ops ok hs_of r r1"
    using r1 by (auto intro: becomeFollower_vstep(1) split: if_splits)
  let ?meta = "\<lparr>sm_index = is_lastIncludedIndex req, sm_term = is_lastIncludedTerm req,
    sm_minWalSegment = 0\<rparr>"
  note rest = assms [unfolded HandleInstallSnapshot_def Let_def if_not_P [OF False] r1 bind_res_Inr]
  have "vstep ops ok hs_of r1 r'"
  proof (cases "is_lastIncludedIndex req \<le> commitIndex r1")
    case True
    then have "quiet r1 r'" using rest quiet_trans [OF quiet_update(6) quiet_reset] by auto
    then show ?thesis by (rule quiet_vstep)
  next
    case False
    let ?discard = "term_at (rlog r1) (is_lastIncludedIndex req) \<noteq> Some (is_lastIncludedTerm req)"
    from False rest obtain d where
      d: "st_SaveSnapshot (c_Storage (cfg r1)) (disk r1) ?meta (is_data req) ?discard = (d, None)"
      by (auto split: prod.splits option.splits)
    have "quiet (r1\<lparr>disk := d\<rparr>) r'"
      using rest False d by (auto simp: quiet_def same_id_def resetElectionTimerLocked_def Let_def)
    then show ?thesis by (intro saveSnapshot_vstep [OF d]) simp_all
  qed
  with v show ?thesis by (rule vstep_trans)
qed

lemma snapshot_save_vstep:
  assumes "snapshot_save r index tm dat = (r', done)"
  shows "vstep ops ok hs_of r r'"
  using assms by (auto simp: snapshot_save_def intro: saveSnapshot_vstep split: prod.splits)

lemma appendProposals_vstep:
  assumes "appendProposals r batch = Inr r'"
  shows "vstep ops ok hs_of r r'"
proof (cases "rstate r \<noteq> Leader \<or> transferTarget r \<noteq> '''' \<or> stopped r")
  case True
  then have "quiet r r'" using assms by (auto simp: appendProposals_def Let_def split: if_splits)
  then show ?thesis by (rule quiet_vstep)
next
  case False
  then obtain l es r1 ws where r1: "persistLocked (r\<lparr>rlog := l\<rparr>) False es = Inr r1"
      and r': "advanceCommitLocked (triggerReplicationLocked (r1\<lparr>waiters := ws\<rparr>)) = Inr r'"
    using assms by (auto simp: appendProposals_def Let_def elim!: bind_resE)
  have "quiet r1 r'"
    using quiet_trans [OF quiet_trans [OF quiet_update(13) quiet_trigger] quiet_advanceCommit [OF r']] .
  then show ?thesis by (rule vstep_quiet [OF persist_log_vstep [OF r1]])
qed

text \<open>The one operation that makes a leader: it keeps the term and the vote.\<close>

lemma becomeLeader_fields:
  assumes "becomeLeaderLocked env r = Inr r'"
  shows "vstep ops ok hs_of (r\<lparr>rstate := Leader\<rparr>) r'" and "rstate r' = Leader"
    and "currentTerm r' = currentTerm r" and "votedFor r' = votedFor r"
proof -
  let ?li = "lastIndex (rlog r)"
  let ?r1 = "r\<lparr>rstate := Leader, leaderID := rid r, transferTarget := '''',
    nextIndex := map_of (map (\<lambda>p. (p, ?li + 1)) (others r)),
    matchIndex := map_of (map (\<lambda>p. (p, 0)) (others r)),
    ackedSendTime := map_of (map (\<lambda>p. (p, now env)) (others r)),
    triggers := map_of (map (\<lambda>p. (p, False)) (others r))\<rparr>"
  let ?noop = "\<lparr>e_index = ?li + 1, e_term = currentTerm r, e_type = ENTRY_NOOP, e_data = []\<rparr>"
  let ?r3 = "\<lambda>r2. r2\<lparr>noopIndex := e_index ?noop, leaderCancel := True,
    spawned := spawned r2 @ map (\<lambda>p. Replicator p (currentTerm r2)) (others r2)\<rparr>"
  obtain l r2 r4 where r2: "persistLocked (?r1\<lparr>rlog := l\<rparr>) False [?noop] = Inr r2"
      and r4: "advanceCommitLocked (?r3 r2) = Inr r4" and r': "r' = notifyStateChangeLocked r4"
    using assms unfolding becomeLeaderLocked_def Let_def by (elim bind_resE) simp
  have q1: "quiet (r\<lparr>rstate := Leader\<rparr>) ?r1" by (simp add: quiet_def same_id_def)
  have q3: "quiet r2 (?r3 r2)" by (simp add: quiet_def same_id_def)
  have q: "quiet r2 r'"
    unfolding r' by (rule quiet_trans [OF quiet_trans [OF q3 quiet_advanceCommit [OF r4]] quiet_notify])
  show "vstep ops ok hs_of (r\<lparr>rstate := Leader\<rparr>) r'"
    by (rule vstep_quiet [OF vstep_trans [OF quiet_vstep [OF q1] persist_log_vstep [OF r2]] q])
  show "rstate r' = Leader" "currentTerm r' = currentTerm r" "votedFor r' = votedFor r"
    using q q1 persist_fields [OF r2] by (auto simp: quiet_def)
qed

text \<open>Start-up reads the term and the vote back from disk.\<close>

lemma New_raft_fields:
  assumes "New_raft deps c d m = Inr r" and "c_Storage c = ops" and "fresh d"
  shows "persisted ops ok hs_of r" and "rid r = c_ID c" and "c_ID c \<noteq> ''''"
    and "others r = filter (\<lambda>p. p \<noteq> c_ID c) (c_Peers c)"
    and "quorum r = length (c_Peers c) div 2 + 1" and "rstate r = Follower"
    and "(currentTerm r, votedFor r) = hs_value (hs_of d)"
proof -
  obtain c' where c': "setDefaults deps c = Inr c'"
    using assms(1) unfolding New_raft_def by (rule bind_resE)
  then have cf: "c_Storage c' = c_Storage c" "c_ID c' = c_ID c" "c_Peers c' = c_Peers c"
      "c_ID c \<noteq> ''''"
    by (auto simp: setDefaults_def Let_def split: if_splits)
  obtain d' ld where ld: "st_Load (c_Storage c') d = Inr (d', ld)"
    using assms(1) [unfolded New_raft_def c' bind_res_Inr] by (rule bind_resE) auto
  let ?r1 = "(zero_raft c' d' m)\<lparr>currentTerm := fst (hs_value (ld_hardState ld)),
    votedFor := snd (hs_value (ld_hardState ld))\<rparr>"
  have hs: "ok d'" "hs_of d' = hs_of d" "ld_hardState ld = hs_of d"
    using load_hs [OF assms(3)] ld by (auto simp: cf assms(2))
  have q: "quiet ?r1 r"
    using assms(1) [unfolded New_raft_def c' bind_res_Inr ld prod.case Let_def]
    by (auto elim!: bind_resE simp: quiet_def same_id_def hs_value_def zero_raft_def
        split: option.splits)
  have z: "cfg ?r1 = c'" "rid ?r1 = c_ID c" "disk ?r1 = d'" "rstate ?r1 = Follower"
      "others ?r1 = filter (\<lambda>p. p \<noteq> c_ID c) (c_Peers c)" "quorum ?r1 = length (c_Peers c) div 2 + 1"
    by (simp_all add: zero_raft_def cf)
  show "persisted ops ok hs_of r" "rid r = c_ID c" "rstate r = Follower"
    "others r = filter (\<lambda>p. p \<noteq> c_ID c) (c_Peers c)" "quorum r = length (c_Peers c) div 2 + 1"
    "(currentTerm r, votedFor r) = hs_value (hs_of d)"
    using q z hs cf assms(2) by (simp_all add: quiet_def same_id_def persisted_def)
  show "c_ID c \<noteq> ''''" by (rule cf)
qed

end

end
