(* ===== verification/EK_System.thy ===== *)
theory EK_System
  imports EK_Voting
begin

text \<open>
  A group of replicas of one shard and the network between them. A state holds every replica,
  the campaigns that wait for votes, and the vote requests and responses ever sent; a message
  may be lost, delayed, duplicated and delivered in any order, and a node may crash at any
  moment and restart from what its disk then holds (\<open>crash\<close>, a parameter given by the storage). Every transition is one critical section of the code.

  The relation admits more than the code: append, snapshot and timeout messages and their
  replies are arbitrary, clocks and random numbers are arbitrary. What holds here therefore
  holds of the program.
\<close>

section \<open>The transitions\<close>

text \<open>The sections of one replica that neither send nor answer a vote request.\<close>

inductive local_step :: "('s, 'm) Raft \<Rightarrow> ('s, 'm) Raft \<Rightarrow> bool" where
  l_tick: "tick env r = Inr r' \<Longrightarrow> local_step r r'"
| l_start: "local_step r (Start env r)"
| l_stop: "local_step r (Stop r)"
| l_timeoutNow: "local_step r (fst (HandleTimeoutNow r tn))"
| l_appendEntries: "HandleAppendEntries env r ae = Inr (r', resp) \<Longrightarrow> local_step r r'"
| l_installSnapshot: "HandleInstallSnapshot env r ins = Inr (r', iresp) \<Longrightarrow> local_step r r'"
| l_replicate_reply:
    "replicate_reply env r peer tm ae t resp = Inr (r', again) \<Longrightarrow> local_step r r'"
| l_snapshot_reply:
    "snapshot_reply env r peer tm ins t iresp = Inr (r', again) \<Longrightarrow> local_step r r'"
| l_propose: "Propose_send r p ctxDone c = Some (Inr r') \<Longrightarrow> local_step r r'"
| l_proposer: "runProposer_turn r = Some (Inr r') \<Longrightarrow> local_step r r'"
| l_reader_drain: "runReader_drain r = Some (r', batch) \<Longrightarrow> local_step r r'"
| l_reader_answer: "local_step r (runReader_answer r batch res)"
| l_confirm: "confirm_begin env r = Inr (r', x) \<Longrightarrow> local_step r r'"
| l_applier_begin: "applier_begin r = Inr (r', w) \<Longrightarrow> local_step r r'"
| l_applier_restore: "applier_restore r ins = Inr r' \<Longrightarrow> local_step r r'"
| l_applier_restored: "local_step r (applier_restored r ins)"
| l_applier_apply: "applier_apply r es = Inr (r', bs) \<Longrightarrow> local_step r r'"
| l_applier_finish: "applier_finish r es bs = Inr (r', snap) \<Longrightarrow> local_step r r'"
| l_snapshot_save: "snapshot_save r i tm dat = (r', saved) \<Longrightarrow> local_step r r'"
| l_snapshot_compact: "local_step r (snapshot_compact r i tm)"
| l_transfer_begin: "transfer_begin env r target = Inr (r', tm) \<Longrightarrow> local_step r r'"
| l_transfer_exit: "local_step r (transfer_exit r tm)"

text \<open>A campaign goroutine between its critical sections: collecting votes for a request, with
  the answers received so far in order, or about to run its deferred function.\<close>

datatype camp = Collecting RequestVoteRequest "(node_id \<times> bool) list" | Returning

record ('s, 'm) sys =
  nodes :: "node_id \<Rightarrow> ('s, 'm) Raft"
  camps :: "node_id \<Rightarrow> camp list"
  vreqs :: "RequestVoteRequest set" \<comment> \<open>vote requests sent\<close>
  vresps :: "(node_id \<times> RequestVoteRequest \<times> RequestVoteResponse) set" \<comment> \<open>who answered what\<close>
  elected :: "(nat \<times> node_id) set" \<comment> \<open>every term and node that won it, ever\<close>

definition set_node :: "('s, 'm) sys \<Rightarrow> node_id \<Rightarrow> ('s, 'm) Raft \<Rightarrow> ('s, 'm) sys" where
  "set_node s n r = s\<lparr>nodes := (nodes s)(n := r)\<rparr>"

definition set_camps :: "('s, 'm) sys \<Rightarrow> node_id \<Rightarrow> camp list \<Rightarrow> ('s, 'm) sys" where
  "set_camps s n cs = s\<lparr>camps := (camps s)(n := cs)\<rparr>"

text \<open>A section of a campaign ended with a request to send, or by returning; \<open>cs\<close> are the other
  campaign goroutines of the node.\<close>

definition camp_next ::
  "('s, 'm) sys \<Rightarrow> node_id \<Rightarrow> camp list \<Rightarrow> RequestVoteRequest option \<Rightarrow> ('s, 'm) sys" where
  "camp_next s n cs req =
     (case req of
        None \<Rightarrow> set_camps s n (Returning # cs)
      | Some q \<Rightarrow> (set_camps s n (Collecting q [] # cs))\<lparr>vreqs := insert q (vreqs s)\<rparr>)"

inductive elect_step :: "node_id list \<Rightarrow> ('s, 'm) sys \<Rightarrow> ('s, 'm) sys \<Rightarrow> bool"
  for ps :: "node_id list" where
  s_begin: "n \<in> set ps \<Longrightarrow> Campaign skip \<in> set (spawned (nodes s n)) \<Longrightarrow>
    campaign_begin env
      ((nodes s n)\<lparr>spawned := remove1 (Campaign skip) (spawned (nodes s n))\<rparr>) skip = Inr (r', req) \<Longrightarrow>
    elect_step ps s (camp_next (set_node s n r') n (camps s n) req)"
| s_prevoted: "n \<in> set ps \<Longrightarrow> Collecting q ans \<in> set (camps s n) \<Longrightarrow> rv_preVote q \<Longrightarrow>
    (won \<longrightarrow> collectVotes (nodes s n) (map snd ans)) \<Longrightarrow>
    campaign_prevoted env (nodes s n) q won = Inr (r', req) \<Longrightarrow>
    elect_step ps s (camp_next (set_node s n r') n (remove1 (Collecting q ans) (camps s n)) req)"
| s_finish: "n \<in> set ps \<Longrightarrow> Collecting q ans \<in> set (camps s n) \<Longrightarrow> \<not> rv_preVote q \<Longrightarrow>
    (won \<longrightarrow> collectVotes (nodes s n) (map snd ans)) \<Longrightarrow>
    campaign_finish env (nodes s n) q won = Inr r' \<Longrightarrow>
    elect_step ps s ((set_camps (set_node s n r') n (Returning # remove1 (Collecting q ans) (camps s n)))
      \<lparr>elected := (if rstate r' = Leader then insert (currentTerm r', n) (elected s) else elected s)\<rparr>)"
| s_exit: "n \<in> set ps \<Longrightarrow> Returning \<in> set (camps s n) \<Longrightarrow>
    elect_step ps s (set_camps (set_node s n (campaign_exit (nodes s n))) n (remove1 Returning (camps s n)))"
| s_vote: "v \<in> set ps \<Longrightarrow> q \<in> vreqs s \<Longrightarrow> v \<noteq> rv_candidateId q \<Longrightarrow>
    HandleRequestVote env (nodes s v) q = Inr (r', resp) \<Longrightarrow>
    elect_step ps s ((set_node s v r')\<lparr>vresps := insert (v, q, resp) (vresps s)\<rparr>)"
| s_answer: "n \<in> set ps \<Longrightarrow> Collecting q ans \<in> set (camps s n) \<Longrightarrow>
    p \<in> set (others (nodes s n)) \<Longrightarrow> p \<notin> fst ` set ans \<Longrightarrow>
    (p, q, resp) \<in> vresps s \<Longrightarrow> voteResponse env (nodes s n) (Some resp) = Inr (r', a) \<Longrightarrow>
    elect_step ps s
      (set_camps (set_node s n r') n
        (Collecting q (ans @ [(p, a)]) # remove1 (Collecting q ans) (camps s n)))"
| s_rpc_error: "n \<in> set ps \<Longrightarrow> Collecting q ans \<in> set (camps s n) \<Longrightarrow>
    p \<in> set (others (nodes s n)) \<Longrightarrow> p \<notin> fst ` set ans \<Longrightarrow>
    voteResponse env (nodes s n) None = Inr (r', a) \<Longrightarrow>
    elect_step ps s
      (set_camps (set_node s n r') n
        (Collecting q (ans @ [(p, a)]) # remove1 (Collecting q ans) (camps s n)))"

text \<open>The sections of elections, the other sections of a replica, and crashes.\<close>

inductive sys_step :: "('s \<Rightarrow> 's \<Rightarrow> bool) \<Rightarrow> node_id list \<Rightarrow> (node_id \<Rightarrow> ('s, 'm) Config) \<Rightarrow> 'm
    \<Rightarrow> ('s, 'm) sys \<Rightarrow> ('s, 'm) sys \<Rightarrow> bool"
  for crash :: "'s \<Rightarrow> 's \<Rightarrow> bool" and ps :: "node_id list"
    and cf :: "node_id \<Rightarrow> ('s, 'm) Config" and m0 :: 'm where
  s_local: "n \<in> set ps \<Longrightarrow> local_step (nodes s n) r' \<Longrightarrow> sys_step crash ps cf m0 s (set_node s n r')"
| s_elect: "elect_step ps s s' \<Longrightarrow> sys_step crash ps cf m0 s s'"
| s_crash: "n \<in> set ps \<Longrightarrow> crash (disk (nodes s n)) d \<Longrightarrow>
    New_raft True (cf n) d m0 = Inr r' \<Longrightarrow>
    sys_step crash ps cf m0 s (set_camps (set_node s n r') n [])"
| s_crash_inside: "n \<in> set ps \<Longrightarrow> becomeFollowerLocked env (nodes s n) tm l = Inr r1 \<Longrightarrow>
    crash (disk r1) d \<Longrightarrow> New_raft True (cf n) d m0 = Inr r' \<Longrightarrow>
    sys_step crash ps cf m0 s (set_camps (set_node s n r') n [])"

text \<open>A group starts with every node created on its disk.\<close>

definition sys_init :: "node_id list \<Rightarrow> (node_id \<Rightarrow> ('s, 'm) Config) \<Rightarrow> 's \<Rightarrow> 'm
    \<Rightarrow> ('s, 'm) sys \<Rightarrow> bool" where
  "sys_init ps cf d0 m0 s \<longleftrightarrow> (\<forall>n \<in> set ps. New_raft True (cf n) d0 m0 = Inr (nodes s n)) \<and>
     camps s = (\<lambda>_. []) \<and> vreqs s = {} \<and> vresps s = {} \<and> elected s = {}"

inductive sys_reach :: "('s \<Rightarrow> 's \<Rightarrow> bool) \<Rightarrow> node_id list \<Rightarrow> (node_id \<Rightarrow> ('s, 'm) Config)
    \<Rightarrow> 's \<Rightarrow> 'm \<Rightarrow> ('s, 'm) sys \<Rightarrow> bool"
  for crash :: "'s \<Rightarrow> 's \<Rightarrow> bool" and ps :: "node_id list" and cf :: "node_id \<Rightarrow> ('s, 'm) Config" and d0 :: 's and m0 :: 'm where
  reach_init: "sys_init ps cf d0 m0 s \<Longrightarrow> sys_reach crash ps cf d0 m0 s"
| reach_step: "sys_reach crash ps cf d0 m0 s \<Longrightarrow> sys_step crash ps cf m0 s s' \<Longrightarrow> sys_reach crash ps cf d0 m0 s'"

text \<open>The configurations of one group: every node knows the same members.\<close>

definition group_config ::
  "'s StorageOps \<Rightarrow> node_id list \<Rightarrow> (node_id \<Rightarrow> ('s, 'm) Config) \<Rightarrow> bool" where
  "group_config ops ps cf \<longleftrightarrow> distinct ps \<and>
     (\<forall>n \<in> set ps. c_ID (cf n) = n \<and> c_Peers (cf n) = ps \<and> c_Storage (cf n) = ops)"

section \<open>The vote history\<close>

text \<open>The votes given in real elections: those granted by a response, and those of the
  candidates for themselves.\<close>

definition votes :: "('s, 'm) sys \<Rightarrow> (node_id \<times> nat \<times> node_id) set" where
  "votes s =
     {(v, rv_term q, rv_candidateId q) | v q resp.
        (v, q, resp) \<in> vresps s \<and> rvr_voteGranted resp \<and> \<not> rv_preVote q} \<union>
     {(rv_candidateId q, rv_term q, rv_candidateId q) | q. q \<in> vreqs s \<and> \<not> rv_preVote q}"

text \<open>A vote of the history is still the node's vote, or the node has moved to a later term.\<close>

definition remembers :: "(node_id \<Rightarrow> ('s, 'm) Raft) \<Rightarrow> node_id \<times> nat \<times> node_id \<Rightarrow> bool" where
  "remembers N = (\<lambda>(v, t, c). currentTerm (N v) > t \<or> (currentTerm (N v) = t \<and> votedFor (N v) = c))"

definition votes_ok ::
  "node_id list \<Rightarrow> (node_id \<Rightarrow> ('s, 'm) Raft) \<Rightarrow> (node_id \<times> nat \<times> node_id) set \<Rightarrow> bool" where
  "votes_ok ps N V \<longleftrightarrow>
     (\<forall>v t c. (v, t, c) \<in> V \<longrightarrow> v \<in> set ps \<and> c \<in> set ps \<and> c \<noteq> '''' \<and> remembers N (v, t, c)) \<and>
     (\<forall>v t c c'. (v, t, c) \<in> V \<longrightarrow> (v, t, c') \<in> V \<longrightarrow> c = c')"

definition node_ok :: "'s StorageOps \<Rightarrow> ('s \<Rightarrow> bool) \<Rightarrow> ('s \<Rightarrow> HardState option) \<Rightarrow> node_id list
    \<Rightarrow> node_id \<Rightarrow> ('s, 'm) Raft \<Rightarrow> bool" where
  "node_ok ops ok hs_of ps n r \<longleftrightarrow> rid r = n \<and> n \<noteq> '''' \<and>
     others r = filter (\<lambda>p. p \<noteq> n) ps \<and> quorum r = length ps div 2 + 1 \<and> persisted ops ok hs_of r"

definition camp_ok :: "('s, 'm) sys \<Rightarrow> node_id list \<Rightarrow> node_id \<Rightarrow> camp \<Rightarrow> bool" where
  "camp_ok s ps n c \<longleftrightarrow> (case c of Returning \<Rightarrow> True
     | Collecting q ans \<Rightarrow> q \<in> vreqs s \<and> rv_candidateId q = n \<and> distinct (map fst ans) \<and>
         fst ` set ans \<subseteq> set ps - {n} \<and>
         (\<forall>p. (p, True) \<in> set ans \<longrightarrow> (\<exists>resp. (p, q, resp) \<in> vresps s \<and> rvr_voteGranted resp)))"

definition has_quorum ::
  "node_id list \<Rightarrow> (node_id \<times> nat \<times> node_id) set \<Rightarrow> nat \<Rightarrow> node_id \<Rightarrow> bool" where
  "has_quorum ps V t n \<longleftrightarrow> (\<exists>Q. Q \<subseteq> set ps \<and> length ps div 2 + 1 \<le> card Q \<and> (\<forall>v \<in> Q. (v, t, n) \<in> V))"

definition vote_inv :: "'s StorageOps \<Rightarrow> ('s \<Rightarrow> bool) \<Rightarrow> ('s \<Rightarrow> HardState option) \<Rightarrow> node_id list
    \<Rightarrow> ('s, 'm) sys \<Rightarrow> bool" where
  "vote_inv ops ok hs_of ps s \<longleftrightarrow>
     (\<forall>n \<in> set ps. node_ok ops ok hs_of ps n (nodes s n)) \<and>
     votes_ok ps (nodes s) (votes s) \<and>
     (\<forall>q \<in> vreqs s. rv_candidateId q \<in> set ps) \<and>
     (\<forall>n \<in> set ps. \<forall>c \<in> set (camps s n). camp_ok s ps n c) \<and>
     (\<forall>t n. (t, n) \<in> elected s \<longrightarrow> has_quorum ps (votes s) t n) \<and>
     (\<forall>n \<in> set ps. rstate (nodes s n) = Leader \<longrightarrow> (currentTerm (nodes s n), n) \<in> elected s)"

section \<open>Votes\<close>

lemma remembers_step:
  assumes "remembers N (v, t, c)" and "vote_kept (N n) r'" and "c \<noteq> ''''"
  shows "remembers (N(n := r')) (v, t, c)"
  using assms by (auto simp: remembers_def vote_kept_def)

lemma votes_ok_step:
  assumes "votes_ok ps N V" and "vote_kept (N n) r'"
  shows "votes_ok ps (N(n := r')) V"
  using assms remembers_step [of N _ _ _ n r'] unfolding votes_ok_def by blast

text \<open>A node may add the vote that it holds: any earlier vote of the same term is that vote.\<close>

lemma votes_ok_insert:
  assumes "votes_ok ps N V" and "v \<in> set ps" "c \<in> set ps" "c \<noteq> ''''"
    and "currentTerm (N v) = t" "votedFor (N v) = c"
  shows "votes_ok ps N (insert (v, t, c) V)"
proof -
  have "c' = c" if "(v, t, c') \<in> V" for c'
    using that assms(1,5,6) unfolding votes_ok_def remembers_def by fastforce
  then show ?thesis using assms unfolding votes_ok_def by (auto simp: remembers_def)
qed

lemma has_quorum_mono: "has_quorum ps V t n \<Longrightarrow> V \<subseteq> V' \<Longrightarrow> has_quorum ps V' t n"
  unfolding has_quorum_def by (meson subsetD)

lemma has_quorum_unique:
  assumes "votes_ok ps N V" and "has_quorum ps V t a" and "has_quorum ps V t b"
  shows "a = b"
proof -
  obtain A B where A: "A \<subseteq> set ps" "length ps div 2 + 1 \<le> card A" "\<forall>v \<in> A. (v, t, a) \<in> V"
      and B: "B \<subseteq> set ps" "length ps div 2 + 1 \<le> card B" "\<forall>v \<in> B. (v, t, b) \<in> V"
    using assms(2,3) unfolding has_quorum_def by blast
  have "card (set ps) < card A + card B"
    using A(2) B(2) card_length [of ps] by linarith
  then obtain v where "v \<in> A" "v \<in> B"
    using majorities_meet [OF _ A(1) B(1)] by auto
  then show ?thesis using A(3) B(3) assms(1) unfolding votes_ok_def by blast
qed

text \<open>The counting loop says yes only when the granted answers reach the quorum.\<close>

lemma count_votes_quorum:
  "count_votes q n g k as \<Longrightarrow> q \<le> g + length (filter id as)"
  by (induction q n g k as rule: count_votes.induct) (auto simp: Let_def split: if_splits)

lemma collectVotes_quorum:
  "collectVotes r as \<Longrightarrow> quorum r \<le> 1 + length (filter id as)"
  using count_votes_quorum [of "quorum r" "length (others r)" 1 0 as]
  by (auto simp: collectVotes_def)

section \<open>The invariant\<close>

lemma sys_fields [simp]:
  "nodes (set_node s n r) = (nodes s)(n := r)" "camps (set_node s n r) = camps s"
  "vreqs (set_node s n r) = vreqs s" "vresps (set_node s n r) = vresps s"
  "elected (set_node s n r) = elected s"
  "nodes (set_camps s n cs) = nodes s" "camps (set_camps s n cs) = (camps s)(n := cs)"
  "vreqs (set_camps s n cs) = vreqs s" "vresps (set_camps s n cs) = vresps s"
  "elected (set_camps s n cs) = elected s"
  by (simp_all add: set_node_def set_camps_def)

lemma votes_frame [simp]:
  "votes (set_node s n r) = votes s" "votes (set_camps s n cs) = votes s"
  "votes (s\<lparr>elected := E\<rparr>) = votes s" "votes (s\<lparr>camps := C\<rparr>) = votes s"
  by (simp_all add: votes_def)

lemma votes_vreqs:
  "votes (s\<lparr>vreqs := insert q (vreqs s)\<rparr>) =
     (if rv_preVote q then votes s
      else insert (rv_candidateId q, rv_term q, rv_candidateId q) (votes s))"
  by (auto simp: votes_def)

lemma votes_vresps:
  "votes (s\<lparr>vresps := insert (v, q, resp) (vresps s)\<rparr>) =
     (if rvr_voteGranted resp \<and> \<not> rv_preVote q
      then insert (v, rv_term q, rv_candidateId q) (votes s) else votes s)"
  by (auto simp: votes_def)

lemma camp_ok_mono:
  "camp_ok s ps n c \<Longrightarrow> vreqs s \<subseteq> vreqs s' \<Longrightarrow> vresps s \<subseteq> vresps s' \<Longrightarrow> camp_ok s' ps n c"
  by (fastforce simp: camp_ok_def split: camp.splits)

lemma set_node_twice [simp]: "set_node (set_node s n r) n r' = set_node s n r'"
  by (simp add: set_node_def)

lemma camp_ok_Returning [simp]: "camp_ok s ps n Returning"
  by (simp add: camp_ok_def)

lemma inv_replace:
  assumes inv: "vote_inv ops ok hs_of ps s" and n: "n \<in> set ps"
    and v: "node_ok ops ok hs_of ps n r'" "vote_kept (nodes s n) r'" "no_rise (nodes s n) r'"
  shows "vote_inv ops ok hs_of ps (set_node s n r')"
proof -
  have "votes_ok ps ((nodes s)(n := r')) (votes s)"
    using inv v by (intro votes_ok_step) (simp_all add: vote_inv_def)
  moreover have "(currentTerm r', n) \<in> elected s" if "rstate r' = Leader"
    using inv n v that by (auto simp: vote_inv_def no_rise_def)
  moreover have "camp_ok (set_node s n r') ps m c" if "m \<in> set ps" "c \<in> set (camps s m)" for m c
    using inv that camp_ok_mono [of s ps m c "set_node s n r'"] by (simp add: vote_inv_def)
  ultimately show ?thesis using inv v by (simp add: vote_inv_def)
qed

lemma inv_node:
  assumes inv: "vote_inv ops ok hs_of ps s" and n: "n \<in> set ps"
    and v: "vstep ops ok hs_of (nodes s n) r'"
  shows "vote_inv ops ok hs_of ps (set_node s n r')"
proof -
  have "node_ok ops ok hs_of ps n r'"
    using inv n v unfolding vote_inv_def node_ok_def vstep_def same_id_def by metis
  then show ?thesis using inv_replace [OF inv n] v by (simp add: vstep_def)
qed

lemma inv_camps:
  assumes "vote_inv ops ok hs_of ps s" and "\<forall>c \<in> set cs. camp_ok s ps n c"
  shows "vote_inv ops ok hs_of ps (set_camps s n cs)"
proof -
  have "camp_ok (set_camps s n cs) ps m c = camp_ok s ps m c" for m c
    by (simp add: camp_ok_def split: camp.split)
  then show ?thesis using assms by (auto simp: vote_inv_def)
qed

lemma inv_vreq:
  assumes inv: "vote_inv ops ok hs_of ps s" and c: "rv_candidateId q \<in> set ps"
    and vote: "\<not> rv_preVote q \<Longrightarrow> currentTerm (nodes s (rv_candidateId q)) = rv_term q \<and>
      votedFor (nodes s (rv_candidateId q)) = rv_candidateId q"
  shows "vote_inv ops ok hs_of ps (s\<lparr>vreqs := insert q (vreqs s)\<rparr>)"
proof -
  let ?s = "s\<lparr>vreqs := insert q (vreqs s)\<rparr>"
  have "votes_ok ps (nodes s) (votes ?s)"
    using inv c vote by (auto simp: votes_vreqs vote_inv_def node_ok_def intro!: votes_ok_insert)
  moreover have "votes s \<subseteq> votes ?s" by (auto simp: votes_vreqs)
  then have "has_quorum ps (votes ?s) t n" if "(t, n) \<in> elected s" for t n
    using inv that has_quorum_mono unfolding vote_inv_def by blast
  moreover have "camp_ok ?s ps n c" if "n \<in> set ps" "c \<in> set (camps s n)" for n c
    using inv that camp_ok_mono [of s ps n c ?s] by (auto simp: vote_inv_def)
  ultimately show ?thesis using inv c by (simp add: vote_inv_def)
qed

lemma inv_vresp:
  assumes inv: "vote_inv ops ok hs_of ps s" and v: "v \<in> set ps" and q: "q \<in> vreqs s"
    and vote: "rvr_voteGranted resp \<Longrightarrow> \<not> rv_preVote q \<Longrightarrow>
      currentTerm (nodes s v) = rv_term q \<and> votedFor (nodes s v) = rv_candidateId q"
  shows "vote_inv ops ok hs_of ps (s\<lparr>vresps := insert (v, q, resp) (vresps s)\<rparr>)"
proof -
  let ?s = "s\<lparr>vresps := insert (v, q, resp) (vresps s)\<rparr>"
  have "rv_candidateId q \<in> set ps" using inv q by (simp add: vote_inv_def)
  then have "votes_ok ps (nodes s) (votes ?s)"
    using inv v vote by (auto simp: votes_vresps vote_inv_def node_ok_def intro!: votes_ok_insert)
  moreover have "votes s \<subseteq> votes ?s" by (auto simp: votes_vresps)
  then have "has_quorum ps (votes ?s) t n" if "(t, n) \<in> elected s" for t n
    using inv that has_quorum_mono unfolding vote_inv_def by blast
  moreover have "camp_ok ?s ps n c" if "n \<in> set ps" "c \<in> set (camps s n)" for n c
    using inv that camp_ok_mono [of s ps n c ?s] by (auto simp: vote_inv_def)
  ultimately show ?thesis using inv by (simp add: vote_inv_def)
qed

lemma inv_elected:
  assumes "vote_inv ops ok hs_of ps s" and "has_quorum ps (votes s) t n"
  shows "vote_inv ops ok hs_of ps (s\<lparr>elected := insert (t, n) (elected s)\<rparr>)"
proof -
  let ?s = "s\<lparr>elected := insert (t, n) (elected s)\<rparr>"
  have "camp_ok ?s ps m c = camp_ok s ps m c" for m c
    by (simp add: camp_ok_def split: camp.split)
  then show ?thesis using assms by (auto simp: vote_inv_def)
qed

text \<open>A campaign that counted a majority has one: its own vote and the granted answers.\<close>

lemma campaign_quorum:
  assumes inv: "vote_inv ops ok hs_of ps s" and n: "n \<in> set ps"
    and c: "Collecting q ans \<in> set (camps s n)" and real: "\<not> rv_preVote q"
    and won: "collectVotes (nodes s n) (map snd ans)"
  shows "has_quorum ps (votes s) (rv_term q) n"
proof -
  have ok: "camp_ok s ps n (Collecting q ans)" and q: "quorum (nodes s n) = length ps div 2 + 1"
    using inv n c by (auto simp: vote_inv_def node_ok_def)
  let ?yes = "filter snd ans"
  let ?Q = "insert n (fst ` set ?yes)"
  have "distinct (map fst ?yes)" using ok by (simp add: camp_ok_def distinct_map_filter)
  then have "card (fst ` set ?yes) = length ?yes"
    using distinct_card [of "map fst ?yes"] by simp
  moreover have "n \<notin> fst ` set ?yes" using ok by (auto simp: camp_ok_def)
  ultimately have card: "card ?Q = 1 + length ?yes" by simp
  have "length (filter id (map snd ans)) = length ?yes"
    by (simp add: filter_map comp_def)
  then have "length ps div 2 + 1 \<le> card ?Q"
    using collectVotes_quorum [OF won] q card by simp
  moreover have "(v, rv_term q, n) \<in> votes s" if "v \<in> ?Q" for v
    using that ok real by (fastforce simp: camp_ok_def votes_def)
  moreover have "?Q \<subseteq> set ps" using ok n by (auto simp: camp_ok_def)
  ultimately show ?thesis unfolding has_quorum_def by blast
qed

lemma inv_camp_next:
  assumes inv: "vote_inv ops ok hs_of ps s" and n: "n \<in> set ps" and cs: "set cs \<subseteq> set (camps s n)"
    and req: "\<And>q. req = Some q \<Longrightarrow> rv_candidateId q = n \<and>
      (\<not> rv_preVote q \<longrightarrow> currentTerm (nodes s n) = rv_term q \<and> votedFor (nodes s n) = n)"
  shows "vote_inv ops ok hs_of ps (camp_next s n cs req)"
proof (cases req)
  case None
  have "camp_ok s ps n Returning" by (simp add: camp_ok_def)
  moreover have "camp_ok s ps n c" if "c \<in> set cs" for c
    using inv n cs that by (auto simp: vote_inv_def)
  ultimately have "vote_inv ops ok hs_of ps (set_camps s n (Returning # cs))"
    by (intro inv_camps [OF inv]) simp
  then show ?thesis by (simp add: camp_next_def None)
next
  case (Some q)
  let ?s = "s\<lparr>vreqs := insert q (vreqs s)\<rparr>"
  have s: "vote_inv ops ok hs_of ps ?s"
    using req [OF Some] n by (intro inv_vreq [OF inv]) auto
  have "camp_ok ?s ps n (Collecting q [])" using req [OF Some] by (simp add: camp_ok_def)
  moreover have "camp_ok ?s ps n c" if "c \<in> set cs" for c
    using s n cs that by (auto simp: vote_inv_def)
  ultimately have "vote_inv ops ok hs_of ps (set_camps ?s n (Collecting q [] # cs))"
    by (intro inv_camps [OF s]) simp
  moreover have "camp_next s n cs req = set_camps ?s n (Collecting q [] # cs)"
    by (simp add: camp_next_def Some set_camps_def)
  ultimately show ?thesis by simp
qed

context hard_state_storage
begin

lemma local_step_vstep: "local_step r r' \<Longrightarrow> vstep ops ok hs_of r r'"
proof (induction rule: local_step.induct)
  case (l_proposer r r')
  then obtain p ps n where "appendProposals (r\<lparr>proposeCh := drop n ps\<rparr>) (p # take n ps) = Inr r'"
    by (auto simp: runProposer_turn_def Let_def split: list.splits)
  from appendProposals_vstep [OF this] show ?case
    by (rule vstep_trans [OF quiet_vstep [OF quiet_update(15)]])
next
  case (l_propose r p ctxDone c r')
  then show ?case
    by (auto simp: Propose_send_def intro!: quiet_vstep split: select_case.splits if_splits)
next
  case (l_applier_restore r ins r')
  then show ?case by (auto simp: applier_restore_def intro!: quiet_vstep split: sum.splits)
next
  case (l_applier_apply r es r' bs)
  then show ?case by (auto simp: applier_apply_def intro!: quiet_vstep elim!: bind_resE)
next
  case (l_confirm env r r' x)
  then show ?case by (auto simp: confirm_begin_def intro!: quiet_vstep split: if_splits)
next
  case (l_reader_drain r r' batch)
  then show ?case by (auto simp: runReader_drain_def intro!: quiet_vstep split: if_splits)
qed (auto simp: Start_def runReader_answer_def applier_restored_def snapshot_compact_def
      transfer_exit_def
    intro: tick_vstep HandleAppendEntries_vstep HandleInstallSnapshot_vstep replicate_reply_vstep
      snapshot_reply_vstep snapshot_save_vstep
      quiet_vstep quiet_Stop quiet_HandleTimeoutNow
    dest: quiet_applier_begin quiet_applier_finish quiet_transfer_begin)

lemma campaign_begin_req:
  fixes r r' :: "('s, 'm) Raft"
  assumes "campaign_begin env r skip = Inr (r', Some q)"
  shows "rv_candidateId q = rid r' \<and>
    (\<not> rv_preVote q \<longrightarrow> currentTerm r' = rv_term q \<and> votedFor r' = rid r')"
  using assms startElection_vstep [of env "resetElectionTimerLocked env r" r' "Some q"]
  by (auto simp: campaign_begin_def Let_def voteRequestLocked_def vstep_def same_id_def
      split: if_splits)

lemma campaign_prevoted_req:
  fixes r r' :: "('s, 'm) Raft"
  assumes "campaign_prevoted env r p won = Inr (r', Some q)"
  shows "rv_candidateId q = rid r' \<and>
    (\<not> rv_preVote q \<longrightarrow> currentTerm r' = rv_term q \<and> votedFor r' = rid r')"
  using assms startElection_vstep [of env r r' "Some q"]
  by (auto simp: campaign_prevoted_def voteRequestLocked_def vstep_def same_id_def split: if_splits)

lemma inv_rid: "vote_inv ops ok hs_of ps s \<Longrightarrow> n \<in> set ps \<Longrightarrow> rid (nodes s n) = n"
  by (simp add: vote_inv_def node_ok_def)

lemma inv_restart:
  assumes inv: "vote_inv ops ok hs_of ps s" and n: "n \<in> set ps" and g: "group_config ops ps cf"
    and lost: "crash (disk (nodes s n)) d" and new: "New_raft True (cf n) d m0 = Inr r'"
  shows "vote_inv ops ok hs_of ps (set_camps (set_node s n r') n [])"
proof -
  have c: "c_ID (cf n) = n" "c_Peers (cf n) = ps" "c_Storage (cf n) = ops"
    using g n by (auto simp: group_config_def)
  have p: "persisted ops ok hs_of (nodes s n)" using inv n by (simp add: vote_inv_def node_ok_def)
  then have d: "fresh d" "hs_of d = hs_of (disk (nodes s n))"
    using crash_hs [OF _ lost] by (simp_all add: persisted_def)
  note f = New_raft_fields [OF new c(3) d(1)]
  have "(currentTerm r', votedFor r') = (currentTerm (nodes s n), votedFor (nodes s n))"
    using f(7) p by (simp add: persisted_def d(2))
  then have "vote_inv ops ok hs_of ps (set_node s n r')"
    using f c by (intro inv_replace [OF inv n]) (auto simp: node_ok_def vote_kept_def no_rise_def)
  then show ?thesis by (intro inv_camps) auto
qed

lemma inv_others: "vote_inv ops ok hs_of ps s \<Longrightarrow> n \<in> set ps \<Longrightarrow>
    set (others (nodes s n)) = set ps - {n}"
  by (auto simp: vote_inv_def node_ok_def)

lemma inv_camp: "vote_inv ops ok hs_of ps s \<Longrightarrow> n \<in> set ps \<Longrightarrow> c \<in> set (camps s n) \<Longrightarrow>
    camp_ok s ps n c"
  by (simp add: vote_inv_def)

text \<open>An answer added to a campaign.\<close>

lemma inv_answer:
  assumes inv: "vote_inv ops ok hs_of ps s" and n: "n \<in> set ps"
    and c: "Collecting q ans \<in> set (camps s n)" and p: "p \<in> set ps - {n}" "p \<notin> fst ` set ans"
    and a: "a \<Longrightarrow> \<exists>resp. (p, q, resp) \<in> vresps s \<and> rvr_voteGranted resp"
  shows "vote_inv ops ok hs_of ps
    (set_camps s n (Collecting q (ans @ [(p, a)]) # remove1 (Collecting q ans) (camps s n)))"
proof (rule inv_camps [OF inv], intro ballI)
  fix c' assume "c' \<in> set (Collecting q (ans @ [(p, a)]) # remove1 (Collecting q ans) (camps s n))"
  then consider "c' = Collecting q (ans @ [(p, a)])" | "c' \<in> set (camps s n)"
    using set_remove1_subset by fastforce
  then show "camp_ok s ps n c'"
  proof cases
    case 1
    then show ?thesis using inv_camp [OF inv n c] p a by (auto simp: camp_ok_def)
  next
    case 2
    then show ?thesis by (rule inv_camp [OF inv n])
  qed
qed

lemma inv_finish:
  assumes inv: "vote_inv ops ok hs_of ps s" and n: "n \<in> set ps"
    and c: "Collecting q ans \<in> set (camps s n)" and real: "\<not> rv_preVote q"
    and won: "won \<longrightarrow> collectVotes (nodes s n) (map snd ans)"
    and fin: "campaign_finish env (nodes s n) q won = Inr r'"
  shows "vote_inv ops ok hs_of ps ((set_node s n r')
      \<lparr>elected := (if rstate r' = Leader then insert (currentTerm r', n) (elected s) else elected s)\<rparr>)"
proof (cases "won \<and> \<not> stopped (nodes s n) \<and> rstate (nodes s n) = Candidate \<and>
    currentTerm (nodes s n) = rv_term q")
  case True
  let ?r = "nodes s n"
  from True fin have b: "becomeLeaderLocked env ?r = Inr r'" by (simp add: campaign_finish_def)
  note f = becomeLeader_fields [OF b]
  let ?s1 = "s\<lparr>elected := insert (rv_term q, n) (elected s)\<rparr>"
  have "vote_inv ops ok hs_of ps ?s1"
    using campaign_quorum [OF inv n c real] won True by (intro inv_elected [OF inv]) simp
  moreover have "node_ok ops ok hs_of ps n r'"
  proof -
    have "node_ok ops ok hs_of ps n (?r\<lparr>rstate := Leader\<rparr>)"
      using inv n by (simp add: vote_inv_def node_ok_def persisted_def)
    then show ?thesis using f(1) unfolding node_ok_def vstep_def same_id_def by simp
  qed
  ultimately have "vote_inv ops ok hs_of ps (?s1\<lparr>nodes := (nodes s)(n := r')\<rparr>)"
    using f True votes_ok_step [of ps "nodes s" "votes s" n r']
    by (auto simp: vote_inv_def vote_kept_def votes_def camp_ok_def cong: camp.case_cong)
  moreover have "?s1\<lparr>nodes := (nodes s)(n := r')\<rparr> =
      (set_node s n r')\<lparr>elected := insert (rv_term q, n) (elected s)\<rparr>"
    by (cases s) (simp add: set_node_def)
  ultimately show ?thesis using f True by simp
next
  case False
  then have r': "r' = nodes s n" using fin by (auto simp: campaign_finish_def)
  then have "(if rstate r' = Leader then insert (currentTerm r', n) (elected s) else elected s) =
      elected s"
    using inv n by (auto simp: vote_inv_def)
  then show ?thesis using inv r' by (simp add: set_node_def)
qed

lemma elect_step_inv:
  assumes "elect_step ps s s'" and inv: "vote_inv ops ok hs_of ps s"
  shows "vote_inv ops ok hs_of ps s'"
  using assms(1)
proof cases
  case (s_begin n skip env r' req)
  let ?r = "(nodes s n)\<lparr>spawned := remove1 (Campaign skip) (spawned (nodes s n))\<rparr>"
  have v: "vstep ops ok hs_of (nodes s n) r'"
    by (rule vstep_trans [OF quiet_vstep [OF quiet_update(22)] campaign_begin_vstep [OF s_begin(4)]])
  have i: "vote_inv ops ok hs_of ps (set_node s n r')" by (rule inv_node [OF inv s_begin(2) v])
  show ?thesis unfolding s_begin(1)
    using s_begin(4) campaign_begin_req [of env ?r skip r'] inv_rid [OF i s_begin(2)]
    by (intro inv_camp_next [OF i s_begin(2)]) auto
next
  case (s_prevoted n q ans won env r' req)
  have i: "vote_inv ops ok hs_of ps (set_node s n r')"
    by (rule inv_node [OF inv s_prevoted(2) campaign_prevoted_vstep [OF s_prevoted(6)]])
  show ?thesis unfolding s_prevoted(1)
    using s_prevoted(6) campaign_prevoted_req [of env "nodes s n" q won r'] inv_rid [OF i s_prevoted(2)]
      set_remove1_subset [of "Collecting q ans" "camps s n"]
    by (intro inv_camp_next [OF i s_prevoted(2)]) auto
next
  case (s_finish n q ans won env r')
  let ?E = "if rstate r' = Leader then insert (currentTerm r', n) (elected s) else elected s"
  let ?s1 = "(set_node s n r')\<lparr>elected := ?E\<rparr>"
  have i: "vote_inv ops ok hs_of ps ?s1"
    by (rule inv_finish [OF inv s_finish(2-6)])
  have "vote_inv ops ok hs_of ps (set_camps ?s1 n (Returning # remove1 (Collecting q ans) (camps s n)))"
  proof (rule inv_camps [OF i], intro ballI)
    fix c assume "c \<in> set (Returning # remove1 (Collecting q ans) (camps s n))"
    then have "c = Returning \<or> c \<in> set (camps ?s1 n)"
      using set_remove1_subset by fastforce
    then show "camp_ok ?s1 ps n c"
      using inv_camp [OF i s_finish(2), of c] by auto
  qed
  moreover have "s' = set_camps ?s1 n (Returning # remove1 (Collecting q ans) (camps s n))"
    unfolding s_finish(1) by (simp add: set_camps_def)
  ultimately show ?thesis by simp
next
  case (s_exit n)
  have i: "vote_inv ops ok hs_of ps (set_node s n (campaign_exit (nodes s n)))"
    by (rule inv_node [OF inv s_exit(2) quiet_vstep]) (simp add: campaign_exit_def)
  show ?thesis unfolding s_exit(1)
    using inv_camp [OF i s_exit(2)] set_remove1_subset [of Returning "camps s n"]
    by (intro inv_camps [OF i]) auto
next
  case (s_vote v q env r' resp)
  note h = HandleRequestVote_vstep [OF s_vote(5)]
  have i: "vote_inv ops ok hs_of ps (set_node s v r')" using inv_node [OF inv s_vote(2)] h by blast
  show ?thesis
    using inv_vresp [OF i s_vote(2), of q resp] h s_vote(3) unfolding s_vote(1) by simp
next
  case (s_answer n q ans p resp env r' a)
  have i: "vote_inv ops ok hs_of ps (set_node s n r')"
    by (rule inv_node [OF inv s_answer(2) voteResponse_vstep [OF s_answer(7)]])
  have "a = rvr_voteGranted resp" using s_answer(7) by (auto simp: voteResponse_def elim: bind_resE)
  then show ?thesis
    using inv_answer [OF i s_answer(2), of q ans p a] s_answer(3-6) inv_others [OF inv s_answer(2)]
    unfolding s_answer(1) by auto
next
  case (s_rpc_error n q ans p env r' a)
  have i: "vote_inv ops ok hs_of ps (set_node s n r')"
    by (rule inv_node [OF inv s_rpc_error(2) voteResponse_vstep [OF s_rpc_error(6)]])
  have "\<not> a" using s_rpc_error(6) by (simp add: voteResponse_def)
  then show ?thesis
    using inv_answer [OF i s_rpc_error(2), of q ans p a] s_rpc_error(3-5)
      inv_others [OF inv s_rpc_error(2)]
    unfolding s_rpc_error(1) by auto
qed

lemma sys_step_inv:
  assumes "sys_step crash ps cf m0 s s'" and g: "group_config ops ps cf"
    and inv: "vote_inv ops ok hs_of ps s"
  shows "vote_inv ops ok hs_of ps s'"
  using assms(1)
proof cases
  case (s_local n r')
  then show ?thesis using inv_node [OF inv] local_step_vstep by blast
next
  case s_elect
  then show ?thesis using elect_step_inv inv by blast
next
  case (s_crash n d r')
  show ?thesis unfolding s_crash(1)
    by (rule inv_restart [OF inv s_crash(2) g s_crash(3,4)])
next
  case (s_crash_inside n env tm l r1 d r')
  have i: "vote_inv ops ok hs_of ps (set_node s n r1)"
    by (rule inv_node [OF inv s_crash_inside(2) becomeFollower_vstep(1) [OF s_crash_inside(3)]])
  show ?thesis
    using inv_restart [OF i s_crash_inside(2) g, of d m0 r'] s_crash_inside(4,5)
    unfolding s_crash_inside(1) by simp
qed

lemma sys_reach_inv:
  assumes "sys_reach crash ps cf d0 m0 s" and g: "group_config ops ps cf" and "fresh d0"
  shows "vote_inv ops ok hs_of ps s"
  using assms(1)
proof induction
  case (reach_init s)
  have "node_ok ops ok hs_of ps n (nodes s n)" "rstate (nodes s n) = Follower" if "n \<in> set ps" for n
    using New_raft_fields [of True "cf n" d0 m0 "nodes s n"] reach_init g that assms(3)
    by (auto simp: sys_init_def group_config_def node_ok_def)
  then show ?case using reach_init by (auto simp: sys_init_def vote_inv_def votes_def votes_ok_def)
next
  case (reach_step s s')
  show ?case by (rule sys_step_inv [OF reach_step.hyps(2) g reach_step.IH])
qed

theorem one_leader_per_term:
  assumes "sys_reach crash ps cf d0 m0 s" and "group_config ops ps cf" and "fresh d0"
    and "(t, a) \<in> elected s" and "(t, b) \<in> elected s"
  shows "a = b"
  using sys_reach_inv [OF assms(1-3)] assms(4,5) has_quorum_unique
  unfolding vote_inv_def by blast

lemma leader_was_elected:
  assumes "sys_reach crash ps cf d0 m0 s" and "group_config ops ps cf" and "fresh d0"
    and "n \<in> set ps" and "rstate (nodes s n) = Leader"
  shows "(currentTerm (nodes s n), n) \<in> elected s"
  using sys_reach_inv [OF assms(1-3)] assms(4,5) unfolding vote_inv_def by blast

end

end
