(* ===== verification/EK_Crc.thy ===== *)
theory EK_Crc
  imports EK_Prelude
begin

text \<open>
  The parts of the Go standard library that the files on disk depend on: little-endian
  integers (\<open>encoding/binary\<close>) and CRC-32C (\<open>hash/crc32\<close> with the Castagnoli table, here bit by
  bit: the table holds the eight-fold bit step of every byte). The lemma that matters for
  recovery is that replacing one byte of a message always changes its checksum.
\<close>

unbundle bit_operations_syntax

section \<open>Little-endian integers\<close>

fun le_bytes :: "nat \<Rightarrow> nat \<Rightarrow> bytes" where
  "le_bytes 0 x = []"
| "le_bytes (Suc n) x = of_nat (x mod 256) # le_bytes n (x div 256)"

fun le_val :: "bytes \<Rightarrow> nat" where
  "le_val [] = 0"
| "le_val (b # bs) = unat b + 256 * le_val bs"

section \<open>CRC-32C\<close>

definition castagnoli :: u32 where
  "castagnoli = 0x82f63b78"

definition crc_bit :: "u32 \<Rightarrow> u32" where
  "crc_bit c = (if bit c 0 then drop_bit 1 c XOR castagnoli else drop_bit 1 c)"

definition crc_byte :: "u32 \<Rightarrow> u8 \<Rightarrow> u32" where
  "crc_byte c b = (crc_bit ^^ 8) (c XOR ucast b)"

definition crc_update :: "u32 \<Rightarrow> bytes \<Rightarrow> u32" where
  "crc_update crc p = NOT (foldl crc_byte (NOT crc) p)"

section \<open>Properties\<close>

lemma length_le_bytes [simp]: "length (le_bytes n x) = n"
  by (induction n arbitrary: x) auto

lemma unat_of_nat_byte: "unat (of_nat (x mod 256) :: u8) = x mod 256"
  by (simp add: unat_of_nat)

lemma le_val_bytes [simp]: "le_val (le_bytes n x) = x mod 256 ^ n"
proof (induction n arbitrary: x)
  case (Suc n)
  have "x mod (256 * 256 ^ n) = x mod 256 + 256 * (x div 256 mod 256 ^ n)"
    by (simp add: mod_mult2_eq)
  then show ?case using Suc by (simp add: unat_of_nat_byte)
qed simp

lemma le_val_word32 [simp]: "le_val (le_bytes 4 (unat (w :: u32))) = unat w"
proof -
  have "unat w < 2 ^ LENGTH(32)" by (rule unsigned_less)
  then show ?thesis by simp
qed

lemma crc_update_append: "crc_update c (p @ q) = crc_update (crc_update c p) q"
  by (simp add: crc_update_def)

text \<open>The bit step is injective: the polynomial has its top bit set, so the top bit of the
  result tells which branch was taken.\<close>

lemma crc_bit_top: "bit (crc_bit c) 31 = bit c 0"
  by (auto simp: crc_bit_def castagnoli_def bit_simps dest: bit_imp_le_length)

lemma xor_cancel: "a XOR k = b XOR k \<longleftrightarrow> a = (b :: 'a :: len word)"
  by (metis xor.assoc xor.right_neutral xor_self_eq)

lemma inj_crc_bit: "inj crc_bit"
proof (rule injI)
  fix a b assume eq: "crc_bit a = crc_bit b"
  then have low: "bit a 0 = bit b 0" using crc_bit_top by metis
  then have "drop_bit 1 a = drop_bit 1 b"
    using eq by (auto simp: crc_bit_def xor_cancel split: if_splits)
  then have "bit a (Suc n) = bit b (Suc n)" for n
    by (metis bit_drop_bit_eq comp_apply plus_1_eq_Suc)
  with low have "bit a n = bit b n" for n by (cases n) auto
  then show "a = b" by (simp add: bit_eq_iff)
qed

lemma inj_crc_bits: "inj (crc_bit ^^ n)"
  using inj_crc_bit by (simp add: inj_fn)

lemma crc_byte_inj1: "crc_byte c b = crc_byte c' b \<Longrightarrow> c = c'"
  unfolding crc_byte_def using inj_crc_bits [THEN injD] xor_cancel by blast

lemma crc_byte_inj2: "crc_byte c b = crc_byte c b' \<Longrightarrow> b = b'"
proof -
  assume "crc_byte c b = crc_byte c b'"
  then have "c XOR ucast b = c XOR (ucast b' :: u32)"
    unfolding crc_byte_def using inj_crc_bits [THEN injD] by blast
  then have "(ucast b :: u32) = ucast b'" by (simp add: xor_cancel xor.commute [of c])
  then have "unat (ucast b :: u32) = unat (ucast b' :: u32)" by simp
  moreover have "unat x < 2 ^ 32" for x :: u8
  proof -
    have "unat x < 2 ^ LENGTH(8)" by (rule unsigned_less)
    then show ?thesis by simp
  qed
  ultimately have "unat b = unat b'" by (simp add: unsigned_ucast_eq take_bit_nat_eq_self)
  then show ?thesis by (rule unsigned_word_eqI)
qed

lemma crc_fold_inj: "foldl crc_byte c q = foldl crc_byte c' q \<Longrightarrow> c = c'"
  by (induction q arbitrary: c c') (auto dest: crc_byte_inj1)

lemma crc_update_byte:
  assumes "b \<noteq> b'"
  shows "crc_update c (p @ b # q) \<noteq> crc_update c (p @ b' # q)"
proof
  assume "crc_update c (p @ b # q) = crc_update c (p @ b' # q)"
  then have "foldl crc_byte (crc_byte (foldl crc_byte (NOT c) p) b) q =
      foldl crc_byte (crc_byte (foldl crc_byte (NOT c) p) b') q"
    by (simp add: crc_update_def)
  then have "crc_byte (foldl crc_byte (NOT c) p) b = crc_byte (foldl crc_byte (NOT c) p) b'"
    by (rule crc_fold_inj)
  then show False using assms crc_byte_inj2 by blast
qed


text \<open>A published value of CRC-32C, that of the digit 1.\<close>

lemma crc_check_value: "crc_update 0 [49] = 0x90f599e3"
  by code_simp

end
