(* ===== verification/EK_Wal.thy ===== *)
theory EK_Wal
  imports EK_Crc "HOL-Library.AList" "HOL-Library.Multiset"
begin

text \<open>
  \<open>internal/wal/wal.go\<close>: the segmented write-ahead log, down to the bytes of its files.

  A segment file is identified by its sequence number and tag, which its name spells in hex.
  The operating system is modelled by what the code uses of it: a file has contents and the
  number of bytes known to be durable, and \<open>faults\<close> lists the outcomes of the next calls that
  change something (\<open>IoFail k\<close>: the call fails, a write after \<open>k\<close> bytes); once the list is used
  up every call succeeds. Directory entries are durable when the call that syncs the directory
  returns. Reading does not fail. Sizes, offsets and sequence numbers are natural numbers.
\<close>

section \<open>Records\<close>

record WalRecord =
  w_type :: u8
  w_data :: bytes

definition headerSize :: nat where
  "headerSize = 9"

definition DefaultSegmentSize :: nat where
  "DefaultSegmentSize = 16 * 1024 * 1024"

definition maxRecordSize :: nat where
  "maxRecordSize = 256 * 1024 * 1024"

definition checksum :: "u8 \<Rightarrow> bytes \<Rightarrow> u32" where
  "checksum typ dat = crc_update (crc_update 0 [typ]) dat"

definition encode_record :: "WalRecord \<Rightarrow> bytes" where
  "encode_record r =
     le_bytes 4 (length (w_data r)) @ le_bytes 4 (unat (checksum (w_type r) (w_data r))) @
     [w_type r] @ w_data r"

definition encode_all :: "WalRecord list \<Rightarrow> bytes" where
  "encode_all rs = concat (map encode_record rs)"

text \<open>\<open>readSegment\<close> on the contents of the file. The callback is a state transformer, because
  the closures the code passes collect into variables. The result is that state, the offset
  past the last valid record, and the error.\<close>

function (sequential) readSegment ::
  "(WalRecord \<Rightarrow> 'a \<Rightarrow> go_error + 'a) \<Rightarrow> 'a \<Rightarrow> nat \<Rightarrow> bytes \<Rightarrow> 'a \<times> nat \<times> go_error option" where
  "readSegment fn st offset bs =
     (if bs = [] then (st, offset, None)
      else if length bs < headerSize then (st, offset, Some ErrTorn)
      else
        let len = le_val (take 4 bs);
            sum = of_nat (le_val (take 4 (drop 4 bs)));
            typ = bs ! 8;
            rest = drop headerSize bs in
        if len > maxRecordSize then (st, offset, Some ErrTorn)
        else if length rest < len then (st, offset, Some ErrTorn)
        else if checksum typ (take len rest) \<noteq> sum then (st, offset, Some ErrTorn)
        else case fn \<lparr>w_type = typ, w_data = take len rest\<rparr> st of
            Inl e \<Rightarrow> (st, offset, Some e)
          | Inr st' \<Rightarrow> readSegment fn st' (offset + headerSize + len) (drop len rest))"
  by pat_completeness auto
termination
  by (relation "measure (\<lambda>(fn, st, offset, bs). length bs)") (auto simp: headerSize_def)

declare readSegment.simps [simp del]
declare map_of_eq_Some_iff [simp del]

section \<open>The log and its files\<close>

record Segment =
  sg_seq :: nat
  sg_tag :: nat

record File =
  f_data :: bytes
  f_synced :: nat

datatype io_result = IoOk | IoFail nat

record WAL =
  segmentSize :: nat
  syncOpt :: bool
  segments :: "Segment list"
  active :: "(Segment \<times> bool) option" \<comment> \<open>the open handle; whether it is still open\<close>
  filePos :: nat \<comment> \<open>offset of the handle\<close>
  wsize :: nat
  files :: "(Segment \<times> File) list"
  faults :: "io_result list"

definition next_io :: "WAL \<Rightarrow> WAL \<times> io_result" where
  "next_io w = (case faults w of [] \<Rightarrow> (w, IoOk) | f # fs \<Rightarrow> (w\<lparr>faults := fs\<rparr>, f))"

text \<open>A call on a path or a directory: it either fails without effect or has the effect given.\<close>

definition sys_call :: "string \<Rightarrow> (WAL \<Rightarrow> WAL) \<Rightarrow> (WAL, unit) io" where
  "sys_call what f w =
     (case next_io w of (w1, IoOk) \<Rightarrow> (f w1, Inr ()) | (w1, IoFail _) \<Rightarrow> (w1, Inl (ErrIO what)))"

text \<open>A call on the open handle.\<close>

definition sys_handle :: "string \<Rightarrow> (Segment \<Rightarrow> File \<Rightarrow> File) \<Rightarrow> (WAL, unit) io" where
  "sys_handle what f w =
     (case active w of
        Some (sg, True) \<Rightarrow>
          sys_call what (\<lambda>w. w\<lparr>files := AList.map_entry sg (f sg) (files w)\<rparr>) w
      | _ \<Rightarrow> (w, Inl (ErrIO what)))"

definition file_write :: "nat \<Rightarrow> bytes \<Rightarrow> File \<Rightarrow> File" where
  "file_write pos buf f =
     f\<lparr>f_data := take pos (f_data f) @ replicate (pos - length (f_data f)) 0 @ buf @
         drop (pos + length buf) (f_data f),
       f_synced := min (f_synced f) pos\<rparr>"

definition file_sync :: "File \<Rightarrow> File" where
  "file_sync f = f\<lparr>f_synced := length (f_data f)\<rparr>"

definition file_truncate :: "nat \<Rightarrow> File \<Rightarrow> File" where
  "file_truncate n f = f\<lparr>f_data := take n (f_data f), f_synced := min (f_synced f) n\<rparr>"

text \<open>\<open>File.Write\<close>: the number of bytes written, and the error.\<close>

definition sys_write :: "bytes \<Rightarrow> WAL \<Rightarrow> WAL \<times> nat \<times> go_error option" where
  "sys_write buf w =
     (case active w of
        Some (sg, True) \<Rightarrow>
          (case next_io w of (w1, res) \<Rightarrow>
             let n = (case res of IoOk \<Rightarrow> length buf | IoFail k \<Rightarrow> min k (length buf)) in
             (w1\<lparr>files := AList.map_entry sg (file_write (filePos w1) (take n buf)) (files w1),
                 filePos := filePos w1 + n\<rparr>, n,
              (case res of IoOk \<Rightarrow> None | IoFail _ \<Rightarrow> Some (ErrIO ''write''))))
      | _ \<Rightarrow> (w, 0, Some (ErrIO ''write'')))"

definition sys_sync :: "(WAL, unit) io" where
  "sys_sync = sys_handle ''sync'' (\<lambda>_. file_sync)"

text \<open>\<open>File.Close\<close> releases the handle even when it reports an error.\<close>

definition sys_close :: "(WAL, unit) io" where
  "sys_close w =
     (case active w of
        Some (sg, True) \<Rightarrow>
          (case next_io w of (w1, res) \<Rightarrow>
             (w1\<lparr>active := Some (sg, False)\<rparr>,
              (case res of IoOk \<Rightarrow> Inr () | IoFail _ \<Rightarrow> Inl (ErrIO ''close''))))
      | _ \<Rightarrow> (w, Inl (ErrIO ''close'')))"

section \<open>Operations\<close>

definition listSegments :: "WAL \<Rightarrow> Segment list" where
  "listSegments w = sort_key sg_seq (map fst (files w))"

definition createSegment :: "nat \<Rightarrow> nat \<Rightarrow> (WAL, unit) io" where
  "createSegment seq tag w =
     (let sg = \<lparr>sg_seq = seq, sg_tag = tag\<rparr> in
      if map_of (files w) sg \<noteq> None then (w, Inl (ErrIO ''exists''))
      else io_bind (sys_call ''create''
             (\<lambda>w. w\<lparr>files := AList.update sg \<lparr>f_data = [], f_synced = 0\<rparr> (files w)\<rparr>)) (\<lambda>_.
           io_bind (sys_call ''syncdir'' id) (\<lambda>_ w.
             (w\<lparr>segments := segments w @ [sg], active := Some (sg, True), filePos := 0,
                wsize := 0\<rparr>, Inr ()))) w)"

text \<open>\<open>Open\<close> on the files that the directory holds.\<close>

definition wal_Open :: "nat \<Rightarrow> bool \<Rightarrow> (Segment \<times> File) list \<Rightarrow> io_result list
    \<Rightarrow> go_error + WAL" where
  "wal_Open segSize sync fs flts =
     (let w0 = \<lparr>segmentSize = (if segSize = 0 then DefaultSegmentSize else segSize),
                syncOpt = sync, segments = [], active = None, filePos = 0, wsize = 0,
                files = fs, faults = flts\<rparr>;
          w = w0\<lparr>segments := listSegments w0\<rparr>
      in if segments w = []
         then (case createSegment 1 0 w of (w', Inl e) \<Rightarrow> Inl e | (w', Inr _) \<Rightarrow> Inr w')
         else let lst = last (segments w);
                  size = (case map_of fs lst of None \<Rightarrow> 0 | Some f \<Rightarrow> length (f_data f))
              in Inr (w\<lparr>active := Some (lst, True), filePos := size, wsize := size\<rparr>))"

text \<open>What \<open>ReadAll\<close> does after a torn record at the end of the last segment.\<close>

definition truncate_tail :: "nat \<Rightarrow> (WAL, unit) io" where
  "truncate_tail good =
     io_bind (sys_handle ''truncate'' (\<lambda>_. file_truncate good)) (\<lambda>_.
     io_bind sys_sync (\<lambda>_ w. (w\<lparr>filePos := good, wsize := good\<rparr>, Inr ())))"

fun read_segs :: "nat \<Rightarrow> (WalRecord \<Rightarrow> 'a \<Rightarrow> go_error + 'a) \<Rightarrow> 'a \<Rightarrow> Segment list \<Rightarrow> WAL
    \<Rightarrow> WAL \<times> 'a \<times> go_error option" where
  "read_segs minSeq fn st [] w = (w, st, None)"
| "read_segs minSeq fn st (sg # sgs) w =
     (if sg_seq sg < minSeq then read_segs minSeq fn st sgs w
      else case map_of (files w) sg of
        None \<Rightarrow> (w, st, Some (ErrIO ''open''))
      | Some f \<Rightarrow>
          (case readSegment fn st 0 (f_data f) of
             (st', good, None) \<Rightarrow> read_segs minSeq fn st' sgs w
           | (st', good, Some e) \<Rightarrow>
               if e \<noteq> ErrTorn then (w, st', Some e)
               else if sgs \<noteq> [] then (w, st', Some ErrCorrupt)
               else (case truncate_tail good w of
                   (w', Inl e') \<Rightarrow> (w', st', Some e')
                 | (w', Inr _) \<Rightarrow> (w', st', None))))"

definition ReadAll :: "nat \<Rightarrow> (WalRecord \<Rightarrow> 'a \<Rightarrow> go_error + 'a) \<Rightarrow> 'a \<Rightarrow> WAL
    \<Rightarrow> WAL \<times> 'a \<times> go_error option" where
  "ReadAll minSeq fn st w = read_segs minSeq fn st (segments w) w"

definition appendLocked :: "WalRecord list \<Rightarrow> (WAL, unit) io" where
  "appendLocked recs w =
     (if recs = [] then (w, Inr ())
      else case sys_write (encode_all recs) w of
        (w1, n, err) \<Rightarrow>
          let w2 = w1\<lparr>wsize := wsize w1 + n\<rparr> in
          (case err of Some e \<Rightarrow> (w2, Inl e)
           | None \<Rightarrow> if syncOpt w2 then sys_sync w2 else (w2, Inr ())))"

definition Append :: "WalRecord list \<Rightarrow> (WAL, unit) io" where
  "Append = appendLocked"

definition ShouldRotate :: "WAL \<Rightarrow> bool" where
  "ShouldRotate w \<longleftrightarrow> wsize w \<ge> segmentSize w"

definition Rotate :: "nat \<Rightarrow> WalRecord list \<Rightarrow> (WAL, nat) io" where
  "Rotate tag head =
     io_bind sys_sync (\<lambda>_. io_bind sys_close (\<lambda>_ w.
       if segments w = [] then (w, Inl (Panic ''index out of range''))
       else let seq = sg_seq (last (segments w)) + 1 in
         io_bind (createSegment seq tag) (\<lambda>_. io_bind (appendLocked head) (\<lambda>_.
         io_bind sys_sync (\<lambda>_. io_ret seq))) w))"

text \<open>The loop of \<open>RemoveBefore\<close>: the segments kept so far, and whether one was removed.\<close>

fun remove_loop :: "nat \<Rightarrow> Segment list \<Rightarrow> Segment list \<Rightarrow> bool \<Rightarrow> (WAL, Segment list \<times> bool) io"
where
  "remove_loop seq keep [] removed = io_ret (keep, removed)"
| "remove_loop seq keep (sg # sgs) removed =
     (if sg_seq sg < seq \<and> sgs \<noteq> []
      then io_bind (sys_call ''remove'' (\<lambda>w. w\<lparr>files := AList.delete sg (files w)\<rparr>))
             (\<lambda>_. remove_loop seq keep sgs True)
      else remove_loop seq (keep @ [sg]) sgs removed)"

definition RemoveBefore :: "nat \<Rightarrow> (WAL, unit) io" where
  "RemoveBefore seq w =
     io_bind (remove_loop seq [] (segments w) False) (\<lambda>(keep, removed) w.
       let w' = w\<lparr>segments := keep\<rparr> in
       if removed then sys_call ''syncdir'' id w' else (w', Inr ())) w"

definition SizeOnDisk :: "WAL \<Rightarrow> nat" where
  "SizeOnDisk w =
     sum_list (map (\<lambda>sg. case map_of (files w) sg of None \<Rightarrow> 0 | Some f \<Rightarrow> length (f_data f))
       (segments w))"

definition wal_Close :: "(WAL, unit) io" where
  "wal_Close w =
     (if active w = None then (w, Inr ())
      else case sys_sync w of (w1, r1) \<Rightarrow>
        (case sys_close w1 of (w2, r2) \<Rightarrow>
           (w2\<lparr>active := None\<rparr>, case r1 of Inl e \<Rightarrow> Inl e | Inr _ \<Rightarrow> r2)))"

section \<open>Vocabulary\<close>

definition rec_ok :: "WalRecord \<Rightarrow> bool" where
  "rec_ok r \<longleftrightarrow> length (w_data r) \<le> maxRecordSize"

text \<open>The callback over a list of records.\<close>

fun feed :: "(WalRecord \<Rightarrow> 'a \<Rightarrow> go_error + 'a) \<Rightarrow> 'a \<Rightarrow> WalRecord list \<Rightarrow> go_error + 'a" where
  "feed fn st [] = Inr st"
| "feed fn st (r # rs) = bind_res (fn r st) (\<lambda>st'. feed fn st' rs)"

text \<open>The records that lie completely within the first \<open>k\<close> bytes.\<close>

fun whole :: "nat \<Rightarrow> WalRecord list \<Rightarrow> WalRecord list" where
  "whole k [] = []"
| "whole k (r # rs) =
     (if length (encode_record r) \<le> k then r # whole (k - length (encode_record r)) rs else [])"

text \<open>Bytes that a crash may leave after the last record: nothing, or no complete record.\<close>

definition torn_tail :: "bytes \<Rightarrow> bool" where
  "torn_tail bs \<longleftrightarrow> bs = [] \<or> readSegment (\<lambda>_ u. Inr u) () 0 bs = ((), 0, Some ErrTorn)"

section \<open>Reading back what was written\<close>

lemma length_encode_record: "length (encode_record r) = headerSize + length (w_data r)"
  by (simp add: encode_record_def headerSize_def)

lemma encode_all_simps [simp]:
  "encode_all [] = []" "encode_all (r # rs) = encode_record r @ encode_all rs"
  "encode_all (rs @ rs') = encode_all rs @ encode_all rs'"
  by (simp_all add: encode_all_def)

lemma encode_record_fields:
  assumes "rec_ok r"
  shows "le_val (take 4 (encode_record r @ bs)) = length (w_data r)"
    and "of_nat (le_val (take 4 (drop 4 (encode_record r @ bs)))) = checksum (w_type r) (w_data r)"
    and "(encode_record r @ bs) ! 8 = w_type r"
    and "drop headerSize (encode_record r @ bs) = w_data r @ bs"
proof -
  have "length (w_data r) mod 256 ^ 4 = length (w_data r)"
    using assms by (simp add: rec_ok_def maxRecordSize_def)
  then show "le_val (take 4 (encode_record r @ bs)) = length (w_data r)"
    by (simp add: encode_record_def)
  show "of_nat (le_val (take 4 (drop 4 (encode_record r @ bs)))) = checksum (w_type r) (w_data r)"
    by (simp add: encode_record_def del: le_val_bytes)
  show "(encode_record r @ bs) ! 8 = w_type r"
    by (simp add: encode_record_def nth_append)
  show "drop headerSize (encode_record r @ bs) = w_data r @ bs"
    by (simp add: encode_record_def headerSize_def)
qed

lemma readSegment_Nil [simp]: "readSegment fn st off [] = (st, off, None)"
  by (simp add: readSegment.simps)

lemma record_eta: "\<lparr>w_type = w_type r, w_data = w_data r\<rparr> = r"
  by (cases r) simp

lemma readSegment_record:
  assumes "rec_ok r"
  shows "readSegment fn st off (encode_record r @ bs) =
    (case fn r st of Inl e \<Rightarrow> (st, off, Some e)
     | Inr st' \<Rightarrow> readSegment fn st' (off + length (encode_record r)) bs)"
proof -
  define x where "x = encode_record r @ bs"
  note f = encode_record_fields [OF assms, of bs, folded x_def]
  have len: "length x = headerSize + length (w_data r) + length bs"
    by (simp add: x_def length_encode_record)
  then have ne: "x \<noteq> []" by (auto simp: headerSize_def)
  have "length (w_data r) \<le> maxRecordSize" using assms by (simp add: rec_ok_def)
  then have "readSegment fn st off x = (case fn r st of Inl e \<Rightarrow> (st, off, Some e)
     | Inr st' \<Rightarrow> readSegment fn st' (off + headerSize + length (w_data r)) bs)"
    using ne by (subst readSegment.simps) (simp add: f len Let_def record_eta split: sum.split)
  then show ?thesis unfolding x_def length_encode_record add.assoc .
qed

lemma readSegment_offset:
  assumes "readSegment fn st off bs = (st', off', e)"
  shows "off \<le> off'"
  using assms
proof (induction fn st off bs rule: readSegment.induct)
  case (1 fn st off bs)
  let ?len = "le_val (take 4 bs)" and ?rest = "drop headerSize bs"
  let ?rec = "\<lparr>w_type = bs ! 8, w_data = take ?len ?rest\<rparr>"
  show ?case
  proof (cases "bs = [] \<or> length bs < headerSize \<or> ?len > maxRecordSize \<or> length ?rest < ?len \<or>
      checksum (bs ! 8) (take ?len ?rest) \<noteq> of_nat (le_val (take 4 (drop 4 bs)))")
    case True
    then show ?thesis using 1(2) by (subst (asm) readSegment.simps) (auto simp: Let_def split: if_splits)
  next
    case False
    show ?thesis
    proof (cases "fn ?rec st")
      case (Inl e')
      then show ?thesis
        using 1(2) False by (subst (asm) readSegment.simps) (auto simp: Let_def)
    next
      case (Inr st1)
      then have "readSegment fn st1 (off + headerSize + ?len) (drop ?len ?rest) = (st', off', e)"
        using 1(2) False by (subst (asm) readSegment.simps) (auto simp: Let_def)
      from 1(1) [OF _ _ refl refl refl refl _ _ _ Inr this] False show ?thesis by auto
    qed
  qed
qed

lemma readSegment_all:
  assumes "\<forall>r \<in> set rs. rec_ok r" and "feed fn st rs = Inr st'"
  shows "readSegment fn st off (encode_all rs @ bs) =
    readSegment fn st' (off + length (encode_all rs)) bs"
  using assms
proof (induction rs arbitrary: st off)
  case (Cons r rs)
  then obtain st1 where "fn r st = Inr st1" "feed fn st1 rs = Inr st'"
    by (auto elim: bind_resE)
  then show ?case using Cons by (simp add: readSegment_record add.assoc)
qed simp

text \<open>A record cut short is never taken for a record.\<close>

lemma readSegment_cut:
  assumes "rec_ok r" and "0 < k" and "k < length (encode_record r)"
  shows "readSegment fn st off (take k (encode_record r)) = (st, off, Some ErrTorn)"
proof (cases "k < headerSize")
  case True
  then show ?thesis using assms(2,3) by (subst readSegment.simps) (auto simp: min_def)
next
  case False
  let ?bs = "take k (encode_record r)"
  have "take 4 ?bs = take 4 (encode_record r)" using False by (simp add: headerSize_def min_def)
  then have "le_val (take 4 ?bs) = length (w_data r)"
    using encode_record_fields(1) [OF assms(1), of "[]"] by simp
  moreover have "length (drop headerSize ?bs) < length (w_data r)"
    using assms(3) False by (simp add: length_encode_record min_def)
  moreover have "?bs \<noteq> []" "\<not> length ?bs < headerSize" using assms(2,3) False by (auto simp: min_def)
  ultimately show ?thesis by (subst readSegment.simps) (simp add: Let_def)
qed

lemma readSegment_whole:
  assumes "\<forall>r \<in> set rs. rec_ok r" and "feed fn st (whole k rs) = Inr st'"
  shows "readSegment fn st off (take k (encode_all rs)) =
    (st', off + length (encode_all (whole k rs)),
     if length (encode_all (whole k rs)) = min k (length (encode_all rs)) then None else Some ErrTorn)"
  using assms
proof (induction rs arbitrary: k st off)
  case (Cons r rs)
  show ?case
  proof (cases "length (encode_record r) \<le> k")
    case True
    let ?k = "k - length (encode_record r)"
    obtain st1 where st1: "fn r st = Inr st1" "feed fn st1 (whole ?k rs) = Inr st'"
      using Cons.prems(2) True by (auto elim: bind_resE)
    have eq: "take k (encode_all (r # rs)) = encode_record r @ take ?k (encode_all rs)"
      using True by simp
    have "readSegment fn st off (take k (encode_all (r # rs))) =
        readSegment fn st1 (off + length (encode_record r)) (take ?k (encode_all rs))"
      unfolding eq using Cons.prems(1) st1(1) by (simp add: readSegment_record)
    then show ?thesis
      using Cons.IH [OF _ st1(2), of "off + length (encode_record r)"] Cons.prems(1) True by auto
  next
    case False
    then have "st' = st" using Cons.prems(2) by simp
    moreover have "take k (encode_all (r # rs)) = take k (encode_record r)" using False by simp
    ultimately show ?thesis
      using readSegment_cut [of r k fn st off] Cons.prems(1) False by (cases "k = 0") auto
  qed
qed simp

lemma whole_append:
  "length (encode_all rs) \<le> k \<Longrightarrow>
   whole k (rs @ rs') = rs @ whole (k - length (encode_all rs)) rs'"
  by (induction rs arbitrary: k) auto

lemma whole_all: "length (encode_all rs) \<le> k \<Longrightarrow> whole k rs = rs"
  using whole_append [of rs k "[]"] by simp

lemma whole_prefix: "\<exists>rs'. rs = whole k rs @ rs'"
  by (induction rs arbitrary: k) auto

lemma torn_tail_read:
  assumes "torn_tail bs"
  shows "readSegment fn st off bs = (st, off, if bs = [] then None else Some ErrTorn)"
proof (cases "bs = []")
  case False
  let ?len = "le_val (take 4 bs)"
  let ?bad = "length bs < headerSize \<or> ?len > maxRecordSize \<or> length (drop headerSize bs) < ?len \<or>
    checksum (bs ! 8) (take ?len (drop headerSize bs)) \<noteq> of_nat (le_val (take 4 (drop 4 bs)))"
  have ?bad
  proof (rule ccontr)
    assume "\<not> ?bad"
    then have "readSegment (\<lambda>_ u. Inr u) () 0 bs =
        readSegment (\<lambda>_ u. Inr u) () (headerSize + ?len) (drop ?len (drop headerSize bs))"
      using False by (subst readSegment.simps) (simp add: Let_def)
    then have "headerSize + ?len \<le> 0"
      using assms False by (intro readSegment_offset) (simp add: torn_tail_def)
    then show False by (simp add: headerSize_def)
  qed
  then show ?thesis using False by (subst readSegment.simps) (auto simp: Let_def)
qed simp

lemma torn_tail_cut:
  assumes "\<forall>r \<in> set rs. rec_ok r"
  shows "\<exists>tl. take k (encode_all rs) = encode_all (whole k rs) @ tl \<and> torn_tail tl"
  using assms
proof (induction rs arbitrary: k)
  case Nil
  then show ?case by (simp add: torn_tail_def)
next
  case (Cons r rs)
  show ?case
  proof (cases "length (encode_record r) \<le> k")
    case True
    then show ?thesis using Cons.IH [of "k - length (encode_record r)"] Cons.prems by auto
  next
    case False
    then have "torn_tail (take k (encode_record r))"
      using Cons.prems by (cases "k = 0") (simp_all add: torn_tail_def readSegment_cut)
    then show ?thesis using False by simp
  qed
qed

section \<open>The operations on a healthy log\<close>

text \<open>\<open>wal_rep w V\<close>: the log \<open>w\<close> holds the segments \<open>V\<close> with their records, every byte of them
  durable, and no call is going to fail.\<close>

definition durable :: "WalRecord list \<Rightarrow> File" where
  "durable rs = \<lparr>f_data = encode_all rs, f_synced = length (encode_all rs)\<rparr>"

definition wal_rep :: "WAL \<Rightarrow> (Segment \<times> WalRecord list) list \<Rightarrow> bool" where
  "wal_rep w V \<longleftrightarrow> V \<noteq> [] \<and> segments w = map fst V \<and> sorted_wrt (<) (map (sg_seq \<circ> fst) V) \<and>
     distinct (map fst (files w)) \<and> set (map fst (files w)) = set (segments w) \<and>
     (\<forall>p \<in> set V. (\<forall>r \<in> set (snd p). rec_ok r) \<and>
        map_of (files w) (fst p) = Some (durable (snd p))) \<and>
     active w = Some (fst (last V), True) \<and> filePos w = length (encode_all (snd (last V))) \<and>
     wsize w = filePos w \<and> syncOpt w \<and> faults w = []"

definition append_view ::
  "(Segment \<times> WalRecord list) list \<Rightarrow> WalRecord list \<Rightarrow> (Segment \<times> WalRecord list) list" where
  "append_view V recs = butlast V @ [(fst (last V), snd (last V) @ recs)]"

definition remove_view ::
  "(Segment \<times> WalRecord list) list \<Rightarrow> nat \<Rightarrow> (Segment \<times> WalRecord list) list" where
  "remove_view V seq = filter (\<lambda>p. seq \<le> sg_seq (fst p)) (butlast V) @ [last V]"

definition read_view :: "(Segment \<times> WalRecord list) list \<Rightarrow> nat \<Rightarrow> WalRecord list" where
  "read_view V minSeq = concat (map snd (filter (\<lambda>p. minSeq \<le> sg_seq (fst p)) V))"

lemma next_io_ok [simp]: "faults w = [] \<Longrightarrow> next_io w = (w, IoOk)"
  by (simp add: next_io_def)

lemma sys_call_ok [simp]: "faults w = [] \<Longrightarrow> sys_call what f w = (f w, Inr ())"
  by (simp add: sys_call_def)

lemma map_of_map_entry:
  "map_of (AList.map_entry k f al) k' =
     (if k' = k then map_option f (map_of al k') else map_of al k')"
  by (induction al) auto

lemma map_entry_keys [simp]: "map fst (AList.map_entry k f al) = map fst al"
  by (induction al) auto

lemma map_entry_keyset [simp]: "fst ` set (AList.map_entry k f al) = fst ` set al"
  by (metis list.set_map map_entry_keys)

lemma view_snoc [simp]:
  "append_view (V @ [(sg, rs)]) recs = V @ [(sg, rs @ recs)]"
  "remove_view (V @ [(sg, rs)]) seq = filter (\<lambda>p. seq \<le> sg_seq (fst p)) V @ [(sg, rs)]"
  by (simp_all add: append_view_def remove_view_def)

lemma wal_rep_snoc: "wal_rep w V \<Longrightarrow> \<exists>V' sg rs. V = V' @ [(sg, rs)]"
  by (cases V rule: rev_cases) (auto simp: wal_rep_def)

lemma wal_rep_last:
  assumes "wal_rep w (V @ [(sg, rs)])"
  shows "active w = Some (sg, True)" "faults w = []" "syncOpt w"
    "filePos w = length (encode_all rs)" "wsize w = length (encode_all rs)"
    "map_of (files w) sg = Some (durable rs)"
    "segments w = map fst V @ [sg]" "\<forall>p \<in> set V. sg_seq (fst p) < sg_seq sg"
  using assms by (auto simp: wal_rep_def sorted_wrt_append)

lemma durable_write:
  "file_sync (file_write (length (encode_all rs)) (encode_all recs) (durable rs)) =
   durable (rs @ recs)"
  by (simp add: durable_def file_write_def file_sync_def)

lemma durable_sync [simp]: "file_sync (durable rs) = durable rs"
  by (simp add: durable_def file_sync_def)

lemma append_rep:
  assumes rep: "wal_rep w (V @ [(sg, rs)])" and recs: "\<forall>r \<in> set recs. rec_ok r"
  shows "\<exists>w'. appendLocked recs w = (w', Inr ()) \<and> wal_rep w' (V @ [(sg, rs @ recs)]) \<and>
    segmentSize w' = segmentSize w"
proof (cases "recs = []")
  case True
  then show ?thesis using rep by (simp add: appendLocked_def)
next
  case False
  note l = wal_rep_last [OF rep]
  let ?buf = "encode_all recs"
  let ?fs1 = "AList.map_entry sg (file_write (filePos w) ?buf) (files w)"
  let ?w' = "w\<lparr>files := AList.map_entry sg file_sync ?fs1, filePos := filePos w + length ?buf,
    wsize := wsize w + length ?buf\<rparr>"
  have "appendLocked recs w = (?w', Inr ())"
    using False l(1-5)
    by (simp add: appendLocked_def sys_write_def sys_sync_def sys_handle_def Let_def)
  moreover have "wal_rep ?w' (V @ [(sg, rs @ recs)])"
  proof -
    have ne: "fst p \<noteq> sg" if "p \<in> set V" for p using l(8) that by auto
    have f: "map_of (files ?w') sg = Some (durable (rs @ recs))"
      using l(4,6) by (simp add: map_of_map_entry durable_write)
    have "map_of (files ?w') (fst p) = map_of (files w) (fst p)" if "p \<in> set V" for p
      using ne [OF that] by (simp add: map_of_map_entry)
    then show ?thesis using rep recs l f unfolding wal_rep_def by (simp add: ball_Un)
  qed
  ultimately show ?thesis by auto
qed

lemma createSegment_ok:
  assumes "faults w = []" and "map_of (files w) \<lparr>sg_seq = seq, sg_tag = tag\<rparr> = None"
  shows "createSegment seq tag w =
    (w\<lparr>files := AList.update \<lparr>sg_seq = seq, sg_tag = tag\<rparr> \<lparr>f_data = [], f_synced = 0\<rparr> (files w),
       segments := segments w @ [\<lparr>sg_seq = seq, sg_tag = tag\<rparr>],
       active := Some (\<lparr>sg_seq = seq, sg_tag = tag\<rparr>, True), filePos := 0, wsize := 0\<rparr>, Inr ())"
  using assms by (simp add: createSegment_def Let_def io_bind_def)

lemma sync_rep:
  assumes rep: "wal_rep w (V @ [(sg, rs)])"
  shows "\<exists>w'. sys_sync w = (w', Inr ()) \<and> wal_rep w' (V @ [(sg, rs)]) \<and>
    segmentSize w' = segmentSize w"
proof -
  note l = wal_rep_last [OF rep]
  let ?w' = "w\<lparr>files := AList.map_entry sg file_sync (files w)\<rparr>"
  have "sys_sync w = (?w', Inr ())" using l(1,2) by (simp add: sys_sync_def sys_handle_def)
  moreover have "map_of (files ?w') k = map_of (files w) k" for k
    using l(6) by (simp add: map_of_map_entry)
  then have "wal_rep ?w' (V @ [(sg, rs)])"
    using rep unfolding wal_rep_def by simp
  ultimately show ?thesis by auto
qed

lemma create_rep:
  assumes rep: "wal_rep w (V @ [(sg, rs)])"
  shows "\<exists>w'. createSegment (sg_seq sg + 1) tag (w\<lparr>active := Some (sg, False)\<rparr>) = (w', Inr ()) \<and>
    wal_rep w' ((V @ [(sg, rs)]) @ [(\<lparr>sg_seq = sg_seq sg + 1, sg_tag = tag\<rparr>, [])]) \<and>
    segmentSize w' = segmentSize w"
proof -
  note l = wal_rep_last [OF rep]
  let ?new = "\<lparr>sg_seq = sg_seq sg + 1, sg_tag = tag\<rparr>" and ?w1 = "w\<lparr>active := Some (sg, False)\<rparr>"
  have keys: "fst ` set (files w) = insert sg (fst ` set V)" using rep by (simp add: wal_rep_def)
  have ne: "fst p \<noteq> ?new" if "p \<in> set V" for p using l(8) that by auto
  have ne': "sg \<noteq> ?new" by (metis Segment.select_convs(1) n_not_Suc_n Suc_eq_plus1)
  have "?new \<notin> fst ` set V" by (metis imageE ne)
  then have new: "map_of (files ?w1) ?new = None"
    using ne' by (simp add: map_of_eq_None_iff keys)
  let ?w' = "?w1\<lparr>files := AList.update ?new \<lparr>f_data = [], f_synced = 0\<rparr> (files w),
    segments := segments w @ [?new], active := Some (?new, True), filePos := 0, wsize := 0\<rparr>"
  have "createSegment (sg_seq sg + 1) tag ?w1 = (?w', Inr ())"
    using createSegment_ok [OF _ new] l(2) by simp
  moreover have "wal_rep ?w' ((V @ [(sg, rs)]) @ [(?new, [])])"
  proof -
    have k: "map fst (files ?w') = map fst (files w) @ [?new]"
      using new by (simp add: update_keys map_of_eq_None_iff)
    have "map_of (files ?w') ?new = Some (durable [])"
      by (simp add: update_conv' durable_def)
    moreover have "map_of (files ?w') (fst p) = map_of (files w) (fst p)" if "p \<in> set V" for p
      using ne [OF that] by (simp add: update_conv')
    moreover have "map_of (files ?w') sg = map_of (files w) sg" using ne' by (simp add: update_conv')
    moreover have "sorted_wrt (<) (map (sg_seq \<circ> fst) (V @ [(sg, rs)]) @ [sg_seq ?new])"
      using rep l(8) by (auto simp: wal_rep_def sorted_wrt_append)
    moreover have "distinct (map fst (files ?w'))" "set (map fst (files ?w')) = set (segments ?w')"
      unfolding k using rep new by (simp_all add: wal_rep_def map_of_eq_None_iff insert_commute)
    ultimately show ?thesis using rep unfolding wal_rep_def by simp
  qed
  ultimately show ?thesis by auto
qed

lemma rotate_rep:
  assumes rep: "wal_rep w (V @ [(sg, rs)])" and head: "\<forall>r \<in> set head. rec_ok r"
  shows "\<exists>w'. Rotate tag head w = (w', Inr (sg_seq sg + 1)) \<and>
    wal_rep w' ((V @ [(sg, rs)]) @ [(\<lparr>sg_seq = sg_seq sg + 1, sg_tag = tag\<rparr>, head)]) \<and>
    segmentSize w' = segmentSize w"
proof -
  obtain w1 where w1: "sys_sync w = (w1, Inr ())" "wal_rep w1 (V @ [(sg, rs)])"
      "segmentSize w1 = segmentSize w"
    using sync_rep [OF rep] by blast
  note l = wal_rep_last [OF w1(2)]
  let ?w1 = "w1\<lparr>active := Some (sg, False)\<rparr>"
  have c: "sys_close w1 = (?w1, Inr ())" using l(1,2) by (simp add: sys_close_def)
  have seg: "segments ?w1 \<noteq> []" "sg_seq (last (segments ?w1)) = sg_seq sg" using l(7) by simp_all
  let ?new = "\<lparr>sg_seq = sg_seq sg + 1, sg_tag = tag\<rparr>" and ?V = "V @ [(sg, rs)]"
  obtain w2 where w2: "createSegment (sg_seq sg + 1) tag ?w1 = (w2, Inr ())"
      "wal_rep w2 (?V @ [(?new, [])])" "segmentSize w2 = segmentSize w1"
    using create_rep [OF w1(2)] by blast
  obtain w3 where w3: "appendLocked head w2 = (w3, Inr ())" "wal_rep w3 (?V @ [(?new, [] @ head)])"
      "segmentSize w3 = segmentSize w2"
    using append_rep [OF w2(2) head] by blast
  obtain w4 where w4: "sys_sync w3 = (w4, Inr ())" "wal_rep w4 (?V @ [(?new, [] @ head)])"
      "segmentSize w4 = segmentSize w3"
    using sync_rep [OF w3(2)] by blast
  have "Rotate tag head w = (w4, Inr (sg_seq sg + 1))"
    using w1 c seg w2 w3 w4 by (simp add: Rotate_def io_bind_def Let_def)
  then show ?thesis using w1 w2 w3 w4 by simp
qed

lemma remove_loop_ok:
  assumes "faults w = []"
  shows "\<exists>removed'. remove_loop seq keep sgs removed w =
    (w\<lparr>files := filter (\<lambda>p. fst p \<notin> set (filter (\<lambda>s. sg_seq s < seq) (butlast sgs))) (files w)\<rparr>,
     Inr (keep @ filter (\<lambda>s. seq \<le> sg_seq s) (butlast sgs) @ (if sgs = [] then [] else [last sgs]),
       removed'))"
  using assms
proof (induction sgs arbitrary: keep removed w)
  case Nil
  then show ?case by simp
next
  case (Cons sg sgs)
  show ?case
  proof (cases "sg_seq sg < seq \<and> sgs \<noteq> []")
    case True
    let ?w = "w\<lparr>files := AList.delete sg (files w)\<rparr>"
    have "remove_loop seq keep (sg # sgs) removed w = remove_loop seq keep sgs True ?w"
      using True Cons.prems by (simp add: io_bind_def)
    moreover have "filter (\<lambda>p. fst p \<notin> set (filter (\<lambda>s. sg_seq s < seq) (butlast sgs))) (files ?w) =
        filter (\<lambda>p. fst p \<notin> set (filter (\<lambda>s. sg_seq s < seq) (butlast (sg # sgs)))) (files w)"
      using True by (auto simp: AList.delete_eq intro!: filter_cong)
    ultimately show ?thesis
      using Cons.IH [of ?w keep True] Cons.prems True by auto
  next
    case False
    then have "remove_loop seq keep (sg # sgs) removed w = remove_loop seq (keep @ [sg]) sgs removed w"
      by auto
    then show ?thesis using Cons.IH [of w "keep @ [sg]" removed] Cons.prems False by auto
  qed
qed

lemma remove_rep:
  assumes rep: "wal_rep w (V @ [(sg, rs)])"
  shows "\<exists>w'. RemoveBefore seq w = (w', Inr ()) \<and>
    wal_rep w' (filter (\<lambda>p. seq \<le> sg_seq (fst p)) V @ [(sg, rs)]) \<and>
    segmentSize w' = segmentSize w"
proof -
  note l = wal_rep_last [OF rep]
  let ?V = "filter (\<lambda>p. seq \<le> sg_seq (fst p)) V"
  let ?gone = "set (filter (\<lambda>s. sg_seq s < seq) (map fst V))"
  let ?fs = "filter (\<lambda>p. fst p \<notin> ?gone) (files w)"
  let ?w' = "w\<lparr>files := ?fs, segments := map fst ?V @ [sg]\<rparr>"
  obtain removed where "remove_loop seq [] (segments w) False w =
      (w\<lparr>files := ?fs\<rparr>, Inr (map fst ?V @ [sg], removed))"
    using remove_loop_ok [OF l(2), of seq "[]" "segments w" False] l(7)
    by (auto simp: filter_map comp_def)
  then have "RemoveBefore seq w = (?w', Inr ())"
    using l(2) by (simp add: RemoveBefore_def io_bind_def Let_def)
  moreover have "wal_rep ?w' (?V @ [(sg, rs)])"
  proof -
    have keys: "fst ` set (files w) = insert sg (fst ` set V)" using rep by (simp add: wal_rep_def)
    have sg: "sg \<notin> ?gone" using l(8) by auto
    have "fst ` set ?fs = fst ` set (files w) - ?gone" by auto
    also have "\<dots> = set (map fst ?V @ [sg])" unfolding keys using sg by auto
    finally have k: "fst ` set ?fs = set (map fst ?V @ [sg])" .
    have f: "map_of ?fs x = map_of (files w) x" if "x \<notin> ?gone" for x
      using that map_of_filter_keys [of "\<lambda>s. s \<notin> ?gone" "files w" x] by simp
    have "\<forall>p \<in> set ?V. (\<forall>r \<in> set (snd p). rec_ok r) \<and> map_of ?fs (fst p) = Some (durable (snd p))"
    proof
      fix p assume p: "p \<in> set ?V"
      then have "map_of ?fs (fst p) = map_of (files w) (fst p)" by (intro f) auto
      then show "(\<forall>r \<in> set (snd p). rec_ok r) \<and> map_of ?fs (fst p) = Some (durable (snd p))"
        using rep p unfolding wal_rep_def by auto
    qed
    moreover have "sorted_wrt (<) (map (sg_seq \<circ> fst) (?V @ [(sg, rs)]))"
      using rep unfolding wal_rep_def sorted_wrt_map by (auto simp: sorted_wrt_append sorted_wrt_filter)
    moreover have "distinct (map fst ?fs)" using rep by (simp add: wal_rep_def distinct_map_filter)
    ultimately show ?thesis
      using rep k f [OF sg] unfolding wal_rep_def by (simp del: set_filter)
  qed
  ultimately show ?thesis by auto
qed

section \<open>Recovery\<close>

text \<open>What a process finds when it opens the log after a crash: the last file may end in bytes
  of an append that never returned.\<close>

definition found_file :: "WalRecord list \<Rightarrow> bytes \<Rightarrow> File" where
  "found_file rs tail = \<lparr>f_data = encode_all rs @ tail, f_synced = length (encode_all rs @ tail)\<rparr>"

definition wal_found :: "WAL \<Rightarrow> (Segment \<times> WalRecord list) list \<Rightarrow> bytes \<Rightarrow> bool" where
  "wal_found w V tail \<longleftrightarrow> torn_tail tail \<and> V \<noteq> [] \<and> segments w = map fst V \<and>
     sorted_wrt (<) (map (sg_seq \<circ> fst) V) \<and> distinct (map fst (files w)) \<and>
     set (map fst (files w)) = set (segments w) \<and>
     (\<forall>p \<in> set V. \<forall>r \<in> set (snd p). rec_ok r) \<and>
     (\<forall>p \<in> set (butlast V). map_of (files w) (fst p) = Some (durable (snd p))) \<and>
     map_of (files w) (fst (last V)) = Some (found_file (snd (last V)) tail) \<and>
     active w = Some (fst (last V), True) \<and>
     filePos w = length (encode_all (snd (last V)) @ tail) \<and> wsize w = filePos w \<and>
     syncOpt w \<and> faults w = []"

lemma feed_append: "feed fn st (rs @ rs') = bind_res (feed fn st rs) (\<lambda>st'. feed fn st' rs')"
  by (induction rs arbitrary: st) (auto simp: bind_res_def split: sum.splits)

lemma read_segs_prefix:
  assumes "\<forall>p \<in> set V. (\<forall>r \<in> set (snd p). rec_ok r) \<and>
      (\<exists>f. map_of (files w) (fst p) = Some f \<and> f_data f = encode_all (snd p))"
    and "feed fn st (read_view V minSeq) = Inr st'"
  shows "read_segs minSeq fn st (map fst V @ sgs) w = read_segs minSeq fn st' sgs w"
  using assms
proof (induction V arbitrary: st)
  case Nil
  then show ?case by (simp add: read_view_def)
next
  case (Cons p V)
  show ?case
  proof (cases "sg_seq (fst p) < minSeq")
    case True
    then show ?thesis using Cons by (cases p) (simp add: read_view_def)
  next
    case False
    then have "read_view (p # V) minSeq = snd p @ read_view V minSeq"
      by (cases p) (simp add: read_view_def)
    then obtain st1 where st1: "feed fn st (snd p) = Inr st1" "feed fn st1 (read_view V minSeq) = Inr st'"
      using Cons.prems(2) by (auto simp: feed_append elim: bind_resE)
    obtain f where f: "map_of (files w) (fst p) = Some f" "f_data f = encode_all (snd p)"
      using Cons.prems(1) by auto
    have "readSegment fn st 0 (f_data f) = (st1, length (f_data f), None)"
      using readSegment_all [OF _ st1(1), of 0 "[]"] Cons.prems(1) f(2) by simp
    then show ?thesis using Cons.IH [OF _ st1(2)] Cons.prems(1) False f(1) by simp
  qed
qed

lemma wal_found_clean: "wal_found w V [] \<Longrightarrow> wal_rep w V"
proof -
  assume f: "wal_found w V []"
  then obtain V' sg rs where V: "V = V' @ [(sg, rs)]"
    by (cases V rule: rev_cases) (auto simp: wal_found_def)
  have "found_file rs [] = durable rs" by (simp add: found_file_def durable_def)
  then show "wal_rep w V" using f unfolding wal_found_def wal_rep_def V by simp
qed

lemma truncate_found:
  assumes "wal_found w (V @ [(sg, rs)]) tail"
  shows "\<exists>w'. truncate_tail (length (encode_all rs)) w = (w', Inr ()) \<and> wal_rep w' (V @ [(sg, rs)]) \<and>
    segmentSize w' = segmentSize w"
proof -
  have l: "active w = Some (sg, True)" "faults w = []" "map_of (files w) sg = Some (found_file rs tail)"
      and ne: "\<forall>p \<in> set V. fst p \<noteq> sg"
    using assms by (auto simp: wal_found_def sorted_wrt_append)
  let ?n = "length (encode_all rs)"
  let ?fs = "AList.map_entry sg file_sync (AList.map_entry sg (file_truncate ?n) (files w))"
  let ?w' = "w\<lparr>files := ?fs, filePos := ?n, wsize := ?n\<rparr>"
  have "truncate_tail ?n w = (?w', Inr ())"
    using l by (simp add: truncate_tail_def sys_sync_def sys_handle_def io_bind_def)
  moreover have "map_of ?fs sg = Some (durable rs)"
    using l(3) by (simp add: map_of_map_entry found_file_def file_truncate_def file_sync_def durable_def)
  moreover have "\<forall>p \<in> set V. map_of ?fs (fst p) = map_of (files w) (fst p)"
    using ne by (simp add: map_of_map_entry)
  ultimately show ?thesis
    using assms unfolding wal_found_def wal_rep_def by simp
qed

lemma readall_found:
  assumes found: "wal_found w (V @ [(sg, rs)]) tail" and "minSeq \<le> sg_seq sg"
    and st': "feed fn st (read_view (V @ [(sg, rs)]) minSeq) = Inr st'"
  shows "\<exists>w'. ReadAll minSeq fn st w = (w', st', None) \<and> wal_rep w' (V @ [(sg, rs)]) \<and>
    segmentSize w' = segmentSize w"
proof -
  have V: "\<forall>p \<in> set V. (\<forall>r \<in> set (snd p). rec_ok r) \<and>
      (\<exists>f. map_of (files w) (fst p) = Some f \<and> f_data f = encode_all (snd p))"
    and l: "map_of (files w) sg = Some (found_file rs tail)" "\<forall>r \<in> set rs. rec_ok r"
      "segments w = map fst V @ [sg]" "torn_tail tail"
    using found by (auto simp: wal_found_def durable_def)
  have "read_view (V @ [(sg, rs)]) minSeq = read_view V minSeq @ rs"
    using assms(2) by (simp add: read_view_def)
  then obtain st1 where st1: "feed fn st (read_view V minSeq) = Inr st1" "feed fn st1 rs = Inr st'"
    using st' by (auto simp: feed_append elim: bind_resE)
  have r: "ReadAll minSeq fn st w = read_segs minSeq fn st1 [sg] w"
    unfolding ReadAll_def l(3) by (rule read_segs_prefix [OF V st1(1)])
  have s: "readSegment fn st1 0 (f_data (found_file rs tail)) =
      (st', length (encode_all rs), if tail = [] then None else Some ErrTorn)"
    by (simp add: found_file_def readSegment_all [OF l(2) st1(2)] torn_tail_read [OF l(4)])
  show ?thesis
  proof (cases "tail = []")
    case True
    then show ?thesis using r s l(1) assms(2) wal_found_clean found by auto
  next
    case False
    obtain w' where "truncate_tail (length (encode_all rs)) w = (w', Inr ())"
        "wal_rep w' (V @ [(sg, rs)])" "segmentSize w' = segmentSize w"
      using truncate_found [OF found] by blast
    then show ?thesis using r s l(1) assms(2) False by auto
  qed
qed

text \<open>The segment files after a crash in the middle of appending \<open>recs\<close>: the first \<open>k\<close> bytes of
  the write reached the disk.\<close>

definition crash_append :: "WAL \<Rightarrow> WalRecord list \<Rightarrow> nat \<Rightarrow> (Segment \<times> File) list" where
  "crash_append w recs k =
     AList.map_entry (fst (the (active w)))
       (\<lambda>f. let d = f_data f @ take k (encode_all recs) in \<lparr>f_data = d, f_synced = length d\<rparr>)
       (files w)"

lemma listSegments_sorted:
  assumes "mset (map fst fs) = mset (map fst V)" and "sorted_wrt (<) (map (sg_seq \<circ> fst) V)"
  shows "sort_key sg_seq (map fst fs) = map fst V"
proof (rule sort_key_inj_key_eq)
  show "mset (map fst fs) = mset (map fst V)" by (rule assms(1))
  have d: "distinct (map (sg_seq \<circ> fst) V)" "sorted (map (sg_seq \<circ> fst) V)"
    using assms(2) by (simp_all add: strict_sorted_iff)
  have "set (map fst fs) = set (map fst V)" using assms(1) mset_eq_setD by blast
  then show "inj_on sg_seq (set (map fst fs))"
    using d(1) by (simp add: distinct_map comp_inj_on_iff [symmetric] inj_on_imageI)
  show "sorted (map sg_seq (map fst V))" using d(2) by simp
qed

lemma open_found:
  assumes V: "V \<noteq> []" "sorted_wrt (<) (map (sg_seq \<circ> fst) V)" "\<forall>p \<in> set V. \<forall>r \<in> set (snd p). rec_ok r"
    and fs: "distinct (map fst fs)" "set (map fst fs) = set (map fst V)"
    and files: "\<forall>p \<in> set (butlast V). map_of fs (fst p) = Some (durable (snd p))"
      "map_of fs (fst (last V)) = Some (found_file (snd (last V)) tail)" "torn_tail tail"
  shows "\<exists>w. wal_Open ss True fs [] = Inr w \<and> wal_found w V tail"
proof -
  have "distinct (map fst V)" using V(2) by (auto simp: strict_sorted_iff distinct_map comp_inj_on_iff inj_on_def)
  then have "mset (map fst fs) = mset (map fst V)"
    using fs set_eq_iff_mset_eq_distinct by blast
  then have s: "sort_key sg_seq (map fst fs) = map fst V" using V(2) by (rule listSegments_sorted)
  then show ?thesis
    using V fs files
    by (simp add: wal_Open_def listSegments_def Let_def wal_found_def last_map found_file_def)
qed

definition collect :: "WalRecord \<Rightarrow> WalRecord list \<Rightarrow> go_error + WalRecord list" where
  "collect r acc = Inr (acc @ [r])"

lemma feed_collect [simp]: "feed collect acc rs = Inr (acc @ rs)"
  by (induction rs arbitrary: acc) (simp_all add: collect_def)

lemma crash_append_found:
  assumes rep: "wal_rep w (V @ [(sg, rs)])" and recs: "\<forall>r \<in> set recs. rec_ok r"
  shows "\<exists>w1 tail. wal_Open ss True (crash_append w recs k) [] = Inr w1 \<and>
    wal_found w1 (V @ [(sg, rs @ whole k recs)]) tail"
proof -
  note l = wal_rep_last [OF rep]
  obtain tail where tail: "take k (encode_all recs) = encode_all (whole k recs) @ tail" "torn_tail tail"
    using torn_tail_cut [OF recs] by blast
  let ?fs = "crash_append w recs k" and ?V = "V @ [(sg, rs @ whole k recs)]"
  obtain rest where "recs = whole k recs @ rest" using whole_prefix by blast
  then have "\<forall>r \<in> set (whole k recs). rec_ok r" using recs by (metis Un_iff set_append)
  then have "\<forall>p \<in> set ?V. \<forall>r \<in> set (snd p). rec_ok r" using rep by (auto simp: wal_rep_def)
  moreover have "map_of ?fs sg = Some (found_file (rs @ whole k recs) tail)"
    using l(1,6) tail(1)
    by (simp add: crash_append_def map_of_map_entry durable_def found_file_def Let_def)
  moreover have "\<forall>p \<in> set V. map_of ?fs (fst p) = Some (durable (snd p))"
    using rep l(1,8) by (auto simp: crash_append_def map_of_map_entry wal_rep_def)
  moreover have "distinct (map fst ?fs)" "set (map fst ?fs) = set (map fst ?V)"
    using rep by (simp_all add: crash_append_def wal_rep_def)
  moreover have "sorted_wrt (<) (map (sg_seq \<circ> fst) ?V)" using rep by (simp add: wal_rep_def)
  ultimately have "\<exists>w1. wal_Open ss True ?fs [] = Inr w1 \<and> wal_found w1 ?V tail"
    using tail(2) by (intro open_found) simp_all
  then show ?thesis by blast
qed

text \<open>C8. Recovery after a crash in the middle of \<open>Append\<close>: opening the log and reading it
  succeeds, and gives every record appended before, in order, followed by a prefix of the
  interrupted batch; the whole batch if all its bytes had been written. The torn record is cut
  off and the log is healthy again.\<close>

theorem wal_crash_recovery:
  assumes "wal_rep w V" and "\<forall>r \<in> set recs. rec_ok r"
  shows "\<exists>w1 w2 n. wal_Open ss True (crash_append w recs k) [] = Inr w1 \<and>
    ReadAll 0 collect [] w1 = (w2, read_view V 0 @ take n recs, None) \<and>
    wal_rep w2 (append_view V (take n recs)) \<and>
    (k \<ge> length (encode_all recs) \<longrightarrow> take n recs = recs)"
proof -
  obtain V' sg rs where V: "V = V' @ [(sg, rs)]" using wal_rep_snoc [OF assms(1)] by blast
  obtain w1 tail where w1: "wal_Open ss True (crash_append w recs k) [] = Inr w1"
      "wal_found w1 (V' @ [(sg, rs @ whole k recs)]) tail"
    using crash_append_found assms unfolding V by blast
  obtain rest where "recs = whole k recs @ rest" using whole_prefix by blast
  then have n: "take (length (whole k recs)) recs = whole k recs" by (metis append_eq_conv_conj)
  obtain w2 where w2: "ReadAll 0 collect [] w1 = (w2, read_view (V' @ [(sg, rs @ whole k recs)]) 0, None)"
      "wal_rep w2 (V' @ [(sg, rs @ whole k recs)])"
    using readall_found [OF w1(2), of 0 collect "[]"] by auto
  have "read_view (V' @ [(sg, rs @ whole k recs)]) 0 = read_view V 0 @ whole k recs"
    by (simp add: V read_view_def)
  moreover have "k \<ge> length (encode_all recs) \<longrightarrow> whole k recs = recs" by (simp add: whole_all)
  ultimately show ?thesis
    using w1 w2 n by (intro exI [of _ w1] exI [of _ w2] exI [of _ "length (whole k recs)"]) (simp add: V)
qed

text \<open>One byte of a record's type or data replaced on disk.\<close>

definition damage :: "WalRecord \<Rightarrow> nat \<Rightarrow> u8 \<Rightarrow> bytes" where
  "damage r i b = (encode_record r)[8 + i := b]"

lemma damage_read:
  assumes r: "rec_ok r" and i: "i \<le> length (w_data r)" and b: "b \<noteq> (w_type r # w_data r) ! i"
  shows "readSegment fn st off (damage r i b @ bs) = (st, off, Some ErrTorn)"
proof -
  let ?msg = "w_type r # w_data r" and ?x = "damage r i b @ bs"
  have enc: "encode_record r = le_bytes 4 (length (w_data r)) @
      le_bytes 4 (unat (checksum (w_type r) (w_data r))) @ ?msg"
    by (simp add: encode_record_def)
  have x: "?x = le_bytes 4 (length (w_data r)) @
      le_bytes 4 (unat (checksum (w_type r) (w_data r))) @ ?msg[i := b] @ bs"
    unfolding damage_def enc by (simp add: list_update_append)
  have len: "length (w_data r) < 256 ^ 4" "length (w_data r) \<le> maxRecordSize"
    using r by (simp_all add: rec_ok_def maxRecordSize_def)
  have sum: "of_nat (unat (checksum (w_type r) (w_data r)) mod 4294967296) = checksum (w_type r) (w_data r)"
    using encode_record_fields(2) [OF r] by (simp add: encode_record_def)
  obtain t d where td: "?msg[i := b] = t # d" "length d = length (w_data r)"
    by (cases i) auto
  define msg where "msg = w_type r # w_data r"
  have upd: "msg[i := b] = take i msg @ b # drop (Suc i) msg" and
      orig: "msg = take i msg @ msg ! i # drop (Suc i) msg"
    using i by (simp_all add: msg_def upd_conv_take_nth_drop del: list_update.simps drop_Suc_Cons)
      (rule id_take_nth_drop, simp)
  have "b \<noteq> msg ! i" using b by (simp add: msg_def)
  then have ne: "crc_update 0 (msg[i := b]) \<noteq> crc_update 0 msg"
    using crc_update_byte [of b "msg ! i" 0 "take i msg" "drop (Suc i) msg"] upd orig by metis
  have "checksum t d = crc_update 0 (?msg[i := b])"
    unfolding td checksum_def by (simp flip: crc_update_append)
  also have "\<dots> \<noteq> crc_update 0 ?msg" using ne unfolding msg_def .
  also have "crc_update 0 ?msg = checksum (w_type r) (w_data r)"
    unfolding checksum_def by (simp flip: crc_update_append)
  finally have "checksum t d \<noteq> checksum (w_type r) (w_data r)" .
  then show ?thesis
    unfolding x td using len td(2)
    by (subst readSegment.simps) (simp add: Let_def headerSize_def nth_append sum)
qed

text \<open>A log one of whose files has other bytes than were written.\<close>

definition damaged :: "WAL \<Rightarrow> Segment \<Rightarrow> bytes \<Rightarrow> WAL" where
  "damaged w sg bs = w\<lparr>files := AList.map_entry sg (\<lambda>f. f\<lparr>f_data := bs\<rparr>) (files w)\<rparr>"

lemma length_damage [simp]: "length (damage r i b) = length (encode_record r)"
  by (simp add: damage_def)

lemma read_rep:
  assumes "wal_rep w V"
  shows "ReadAll 0 collect [] w = (w, read_view V 0, None)"
proof -
  have "\<forall>p \<in> set V. (\<forall>r \<in> set (snd p). rec_ok r) \<and>
      (\<exists>f. map_of (files w) (fst p) = Some f \<and> f_data f = encode_all (snd p))"
    using assms by (auto simp: wal_rep_def durable_def)
  then show ?thesis
    using read_segs_prefix [of V w collect "[]" 0 "read_view V 0" "[]"] assms
    by (simp add: ReadAll_def wal_rep_def)
qed

lemma read_damaged:
  assumes rep: "wal_rep w (V1 @ (sg, rs1 @ r # rs2) # V2)"
    and "i \<le> length (w_data r)" and "b \<noteq> (w_type r # w_data r) ! i"
  defines "w' \<equiv> damaged w sg (encode_all rs1 @ damage r i b @ encode_all rs2)"
  shows "ReadAll 0 collect [] w' = read_segs 0 collect (read_view V1 0) (sg # map fst V2) w'"
    and "\<exists>f. map_of (files w') sg = Some f \<and> readSegment collect (read_view V1 0) 0 (f_data f) =
      (read_view V1 0 @ rs1, length (encode_all rs1), Some ErrTorn)"
proof -
  have ne: "fst p \<noteq> sg" if "p \<in> set V1" for p using rep that by (auto simp: wal_rep_def sorted_wrt_append)
  then have "\<forall>p \<in> set V1. (\<forall>r \<in> set (snd p). rec_ok r) \<and>
      (\<exists>f. map_of (files w') (fst p) = Some f \<and> f_data f = encode_all (snd p))"
    using rep by (auto simp: w'_def damaged_def wal_rep_def durable_def map_of_map_entry)
  then show "ReadAll 0 collect [] w' = read_segs 0 collect (read_view V1 0) (sg # map fst V2) w'"
    using read_segs_prefix [of V1 w' collect "[]" 0 "read_view V1 0" "sg # map fst V2"] rep
    by (simp add: ReadAll_def wal_rep_def w'_def damaged_def)
  have ok: "\<forall>x \<in> set rs1. rec_ok x" "rec_ok r" using rep by (auto simp: wal_rep_def)
  show "\<exists>f. map_of (files w') sg = Some f \<and> readSegment collect (read_view V1 0) 0 (f_data f) =
      (read_view V1 0 @ rs1, length (encode_all rs1), Some ErrTorn)"
    using rep readSegment_all [OF ok(1), of collect "read_view V1 0"] damage_read [OF ok(2) assms(2,3)]
    by (auto simp: w'_def damaged_def wal_rep_def map_of_map_entry)
qed


text \<open>The same damage in the last segment is taken for a torn write: \<open>ReadAll\<close> succeeds,
  and the damaged record and every acknowledged record after it are cut off the file.\<close>

theorem last_damage_truncates:
  assumes "wal_rep w (V1 @ [(sg, rs1 @ r # rs2)])"
    and "i \<le> length (w_data r)" and "b \<noteq> (w_type r # w_data r) ! i"
  defines "w' \<equiv> damaged w sg (encode_all rs1 @ damage r i b @ encode_all rs2)"
  shows "\<exists>w2. ReadAll 0 collect [] w' = (w2, read_view V1 0 @ rs1, None) \<and>
    wal_rep w2 (V1 @ [(sg, rs1)])"
proof -
  have ok: "rec_ok r" using assms(1) by (auto simp: wal_rep_def)
  have ne: "fst p \<noteq> sg" if "p \<in> set V1" for p
    using assms(1) that by (auto simp: wal_rep_def sorted_wrt_append)
  have "torn_tail (damage r i b @ encode_all rs2)"
    unfolding torn_tail_def by (rule disjI2) (rule damage_read [OF ok assms(2,3)])
  then have "wal_found w' (V1 @ [(sg, rs1)]) (damage r i b @ encode_all rs2)"
    using assms(1) ne
    by (auto simp: w'_def damaged_def wal_rep_def wal_found_def map_of_map_entry durable_def found_file_def)
  from readall_found [OF this, of 0 collect "[]"] show ?thesis by (auto simp: read_view_def)
qed

lemma append_bytes:
  assumes "active w = Some (sg, True)" and "faults w = []" and "syncOpt w" and "recs \<noteq> []"
    and "map_of (files w) sg = Some f" and "filePos w = length (f_data f)"
  defines "d \<equiv> f_data f @ encode_all recs"
  shows "\<exists>fs. Append recs w = (w\<lparr>files := fs, filePos := length d,
      wsize := wsize w + length (encode_all recs)\<rparr>, Inr ()) \<and>
    map_of fs = (map_of (files w))(sg \<mapsto> \<lparr>f_data = d, f_synced = length d\<rparr>) \<and> map fst fs = map fst (files w)"
proof -
  let ?fs1 = "AList.map_entry sg (file_write (filePos w) (encode_all recs)) (files w)"
  let ?fs = "AList.map_entry sg file_sync ?fs1"
  have "Append recs w = (w\<lparr>files := ?fs, filePos := length d, wsize := wsize w + length (encode_all recs)\<rparr>, Inr ())"
    using assms by (simp add: Append_def appendLocked_def sys_write_def sys_sync_def sys_handle_def Let_def)
  moreover have "map_of ?fs = (map_of (files w))(sg \<mapsto> \<lparr>f_data = d, f_synced = length d\<rparr>)"
    using assms by (intro ext) (simp add: map_of_map_entry file_write_def file_sync_def)
  ultimately show ?thesis by auto
qed

lemma found_tail:
  assumes rep: "wal_rep w (V @ [(sg, rs)])" and "torn_tail tail"
    and "map_of fs = (map_of (files w))(sg \<mapsto> found_file rs tail)" and "map fst fs = map fst (files w)"
    and "n = length (encode_all rs @ tail)"
  shows "wal_found (w\<lparr>files := fs, filePos := n, wsize := n\<rparr>) (V @ [(sg, rs)]) tail"
proof -
  have "\<forall>p \<in> set V. fst p \<noteq> sg" using rep by (auto simp: wal_rep_def sorted_wrt_append)
  then have "\<forall>p \<in> set V. map_of fs (fst p) = Some (durable (snd p))"
    using rep assms(3) by (simp add: wal_rep_def)
  then show ?thesis
    using rep assms(2-5) unfolding wal_rep_def wal_found_def list.set_map [symmetric] by simp
qed

lemma oversize_torn:
  assumes "maxRecordSize < length (w_data r)" and "length (w_data r) < 2 ^ 32"
  shows "readSegment fn st off (encode_record r @ bs) = (st, off, Some ErrTorn)"
  using assms
  by (subst readSegment.simps)
     (auto simp: Let_def encode_record_def headerSize_def)

text \<open>C11. \<open>Append\<close> accepts a record longer than \<open>maxRecordSize\<close> and reports success, but
  reading the log takes that record for a torn one: it is cut off, although it was acknowledged.\<close>

theorem oversize_record_lost:
  assumes "wal_rep w V" and "maxRecordSize < length (w_data r)" and "length (w_data r) < 2 ^ 32"
  shows "\<exists>w1 w2. Append [r] w = (w1, Inr ()) \<and> ReadAll 0 collect [] w1 = (w2, read_view V 0, None) \<and>
    wal_rep w2 V"
proof -
  obtain V' sg rs where V: "V = V' @ [(sg, rs)]" using wal_rep_snoc [OF assms(1)] by blast
  note rep = assms(1) [unfolded V] and l = wal_rep_last [OF assms(1) [unfolded V]]
  have torn: "torn_tail (encode_record r)"
    using oversize_torn [OF assms(2,3), of "\<lambda>_ u. Inr u" "()" 0 "[]"] by (simp add: torn_tail_def)
  obtain fs where fs: "Append [r] w = (w\<lparr>files := fs, filePos := length (encode_all (rs @ [r])),
        wsize := wsize w + length (encode_all [r])\<rparr>, Inr ())"
      "map_of fs = (map_of (files w))(sg \<mapsto> found_file rs (encode_record r))"
      "map fst fs = map fst (files w)"
    using append_bytes [of w sg "[r]" "durable rs"] l by (auto simp: durable_def found_file_def)
  have "wal_found (w\<lparr>files := fs, filePos := length (encode_all (rs @ [r])),
      wsize := wsize w + length (encode_all [r])\<rparr>) (V' @ [(sg, rs)]) (encode_record r)"
    using found_tail [OF rep torn fs(2,3)] l(5) by simp
  from readall_found [OF this, of 0 collect "[]"] show ?thesis
    using fs(1) by (auto simp: V)
qed

text \<open>A write that fails after its first \<open>k\<close> bytes.\<close>

lemma append_failed:
  assumes "active w = Some (sg, True)" and "faults w = [IoFail k]" and "recs \<noteq> []"
    and "map_of (files w) sg = Some f" and "filePos w = length (f_data f)" and "wsize w = filePos w"
    and "k \<le> length (encode_all recs)" and "f_synced f = length (f_data f)"
  shows "\<exists>fs. Append recs w = (w\<lparr>files := fs, filePos := filePos w + k, wsize := filePos w + k,
      faults := []\<rparr>, Inl (ErrIO ''write'')) \<and>
    map_of fs = (map_of (files w))(sg \<mapsto> f\<lparr>f_data := f_data f @ take k (encode_all recs)\<rparr>) \<and>
    map fst fs = map fst (files w)"
proof -
  let ?fs = "AList.map_entry sg (file_write (filePos w) (take k (encode_all recs))) (files w)"
  have "Append recs w = (w\<lparr>files := ?fs, filePos := filePos w + k, wsize := filePos w + k,
      faults := []\<rparr>, Inl (ErrIO ''write''))"
    using assms(1-3,6,7)
    by (simp add: Append_def appendLocked_def sys_write_def next_io_def Let_def min_def)
  moreover have "map_of ?fs = (map_of (files w))(sg \<mapsto> f\<lparr>f_data := f_data f @ take k (encode_all recs)\<rparr>)"
    using assms(4,5,8) by (intro ext) (simp add: map_of_map_entry file_write_def)
  ultimately show ?thesis by auto
qed

lemma header_torn:
  assumes "rec_ok r" and "length bs < length (w_data r)"
  shows "readSegment fn st off (take headerSize (encode_record r) @ bs) = (st, off, Some ErrTorn)"
proof -
  have len: "length (w_data r) mod 256 ^ 4 = length (w_data r)"
    using assms(1) by (simp add: rec_ok_def maxRecordSize_def)
  have hd: "take headerSize (encode_record r) = le_bytes 4 (length (w_data r)) @
      le_bytes 4 (unat (checksum (w_type r) (w_data r))) @ [w_type r]"
    by (simp add: encode_record_def headerSize_def)
  show ?thesis
    unfolding hd using assms(2) len
    by (subst readSegment.simps) (auto simp: Let_def headerSize_def)
qed

text \<open>C12. A write that fails half way leaves its bytes in the file, and the next \<open>Append\<close>
  continues after them. If only the header of the first record reached the file, a shorter
  record appended next is reported as written and synced, yet reading the log finds a torn
  record and cuts both off.\<close>

theorem append_after_failed_write_lost:
  assumes "wal_rep w V" and "rec_ok r1" and "length (encode_record r2) < length (w_data r1)"
  shows "\<exists>w1 w2 w3. Append [r1] (w\<lparr>faults := [IoFail headerSize]\<rparr>) = (w1, Inl (ErrIO ''write'')) \<and>
    Append [r2] w1 = (w2, Inr ()) \<and> ReadAll 0 collect [] w2 = (w3, read_view V 0, None) \<and>
    wal_rep w3 V"
proof -
  obtain V' sg rs where V: "V = V' @ [(sg, rs)]" using wal_rep_snoc [OF assms(1)] by blast
  note rep = assms(1) [unfolded V] and l = wal_rep_last [OF assms(1) [unfolded V]]
  define hd where "hd = take headerSize (encode_record r1)"
  let ?tail = "hd @ encode_record r2"
  have hs: "headerSize \<le> length (encode_all [r1])" "length hd = headerSize"
    by (simp_all add: hd_def length_encode_record)
  obtain fs1 where fs1: "Append [r1] (w\<lparr>faults := [IoFail headerSize]\<rparr>) = (w\<lparr>files := fs1,
        filePos := filePos w + headerSize, wsize := filePos w + headerSize, faults := []\<rparr>, Inl (ErrIO ''write''))"
      "map_of fs1 = (map_of (files w))(sg \<mapsto> durable rs\<lparr>f_data := encode_all rs @ hd\<rparr>)"
      "map fst fs1 = map fst (files w)"
    using append_failed [of "w\<lparr>faults := [IoFail headerSize]\<rparr>" sg headerSize "[r1]" "durable rs"] l hs(1)
    by (auto simp: durable_def hd_def)
  let ?w1 = "w\<lparr>files := fs1, filePos := filePos w + headerSize, wsize := filePos w + headerSize, faults := []\<rparr>"
  obtain fs2 where fs2: "Append [r2] ?w1 = (?w1\<lparr>files := fs2, filePos := length (encode_all rs @ ?tail),
        wsize := wsize ?w1 + length (encode_record r2)\<rparr>, Inr ())"
      "map_of fs2 = (map_of fs1)(sg \<mapsto> found_file rs ?tail)" "map fst fs2 = map fst fs1"
    using append_bytes [of ?w1 sg "[r2]" "durable rs\<lparr>f_data := encode_all rs @ hd\<rparr>"] l fs1(2) hs(2)
    by (auto simp: found_file_def)
  have torn: "torn_tail ?tail"
    using header_torn [OF assms(2,3), of "\<lambda>_ u. Inr u" "()" 0] by (simp add: torn_tail_def hd_def)
  have "wal_found (w\<lparr>files := fs2, filePos := length (encode_all rs @ ?tail),
      wsize := length (encode_all rs @ ?tail)\<rparr>) (V' @ [(sg, rs)]) ?tail"
    using fs1(2,3) fs2(2,3) by (intro found_tail [OF rep torn]) simp_all
  moreover have "?w1\<lparr>files := fs2, filePos := length (encode_all rs @ ?tail),
      wsize := wsize ?w1 + length (encode_record r2)\<rparr> = w\<lparr>files := fs2,
      filePos := length (encode_all rs @ ?tail), wsize := length (encode_all rs @ ?tail)\<rparr>"
    using l(2,4) hs(2) by (cases w) simp
  ultimately have "wal_found (fst (Append [r2] ?w1)) (V' @ [(sg, rs)]) ?tail"
    using fs2(1) by simp
  from readall_found [OF this, of 0 collect "[]"] show ?thesis
    using fs1(1) fs2(1) by (auto simp: V)
qed

text \<open>C9. The log refines a list of segments with their records: on a healthy log \<open>Append\<close>
  extends the last segment, \<open>Rotate\<close> starts a segment with the records given and the next
  sequence number, \<open>RemoveBefore\<close> drops exactly the older segments but the last, and
  \<open>ReadAll\<close> reads the records back in order.\<close>

theorem wal_refines:
  assumes "wal_rep w V" and "\<forall>r \<in> set recs. rec_ok r"
  shows "(\<exists>w'. Append recs w = (w', Inr ()) \<and> wal_rep w' (append_view V recs)) \<and>
    (\<exists>w' sg. Rotate tag recs w = (w', Inr (sg_seq sg)) \<and> sg_tag sg = tag \<and>
      sg_seq sg = sg_seq (fst (last V)) + 1 \<and> wal_rep w' (V @ [(sg, recs)])) \<and>
    (\<exists>w'. RemoveBefore seq w = (w', Inr ()) \<and> wal_rep w' (remove_view V seq)) \<and>
    ReadAll 0 collect [] w = (w, read_view V 0, None)"
proof (intro conjI)
  obtain V' sg rs where V: "V = V' @ [(sg, rs)]" using wal_rep_snoc [OF assms(1)] by blast
  note rep = assms(1) [unfolded V]
  show "\<exists>w'. Append recs w = (w', Inr ()) \<and> wal_rep w' (append_view V recs)"
    using append_rep [OF rep assms(2)] by (auto simp: V Append_def)
  show "\<exists>w' sg. Rotate tag recs w = (w', Inr (sg_seq sg)) \<and> sg_tag sg = tag \<and>
      sg_seq sg = sg_seq (fst (last V)) + 1 \<and> wal_rep w' (V @ [(sg, recs)])"
    using rotate_rep [OF rep assms(2), of tag]
    by (auto simp: V intro!: exI [of _ "\<lparr>sg_seq = sg_seq sg + 1, sg_tag = tag\<rparr>"])
  show "\<exists>w'. RemoveBefore seq w = (w', Inr ()) \<and> wal_rep w' (remove_view V seq)"
    using remove_rep [OF rep, of seq] by (auto simp: V)
  show "ReadAll 0 collect [] w = (w, read_view V 0, None)" by (rule read_rep [OF assms(1)])
qed

section \<open>Witnesses\<close>

text \<open>A log of two segments, the first of two records and the second of one.\<close>

definition ex_rec :: "nat \<Rightarrow> WalRecord" where
  "ex_rec n = \<lparr>w_type = 1, w_data = replicate n 7\<rparr>"

definition ex_view :: "(Segment \<times> WalRecord list) list" where
  "ex_view = [(\<lparr>sg_seq = 1, sg_tag = 0\<rparr>, [ex_rec 2, ex_rec 3]), (\<lparr>sg_seq = 2, sg_tag = 5\<rparr>, [ex_rec 4])]"

definition ex_wal :: WAL where
  "ex_wal = \<lparr>segmentSize = 64, syncOpt = True, segments = map fst ex_view,
     active = Some (fst (last ex_view), True), filePos = length (encode_all (snd (last ex_view))),
     wsize = length (encode_all (snd (last ex_view))),
     files = map (\<lambda>p. (fst p, durable (snd p))) ex_view, faults = []\<rparr>"

lemma ex_rec_ok [simp]: "rec_ok (ex_rec n) \<longleftrightarrow> n \<le> 268435456"
  by (simp add: rec_ok_def ex_rec_def maxRecordSize_def)

lemma ex_rep: "wal_rep ex_wal ex_view"
  by (simp add: wal_rep_def ex_wal_def ex_view_def)

theorem wal_crash_recovery_witness:
  "\<exists>w1 w2 n. wal_Open 64 True (crash_append ex_wal [ex_rec 1, ex_rec 2] 13) [] = Inr w1 \<and>
    ReadAll 0 collect [] w1 = (w2, [ex_rec 2, ex_rec 3, ex_rec 4] @ take n [ex_rec 1, ex_rec 2], None)"
  using wal_crash_recovery [OF ex_rep, of "[ex_rec 1, ex_rec 2]" 64 13]
  by (auto simp: ex_view_def read_view_def)


theorem last_damage_truncates_witness:
  "\<exists>w2. ReadAll 0 collect [] (damaged ex_wal \<lparr>sg_seq = 2, sg_tag = 5\<rparr>
     (encode_all [] @ damage (ex_rec 4) 2 9 @ encode_all [])) = (w2, [ex_rec 2, ex_rec 3], None)"
  using last_damage_truncates [of ex_wal "butlast ex_view" "\<lparr>sg_seq = 2, sg_tag = 5\<rparr>" "[]" "ex_rec 4" "[]"
      2 9] ex_rep
  by (auto simp: ex_view_def read_view_def ex_rec_def)

theorem oversize_record_lost_witness:
  "\<exists>w1 w2. Append [ex_rec 300000000] ex_wal = (w1, Inr ()) \<and>
    ReadAll 0 collect [] w1 = (w2, [ex_rec 2, ex_rec 3, ex_rec 4], None)"
  using oversize_record_lost [OF ex_rep, of "ex_rec 300000000"]
  by (auto simp: ex_view_def read_view_def ex_rec_def maxRecordSize_def)

theorem append_after_failed_write_lost_witness:
  "\<exists>w1 w2 w3. Append [ex_rec 20] (ex_wal\<lparr>faults := [IoFail headerSize]\<rparr>) = (w1, Inl (ErrIO ''write'')) \<and>
    Append [ex_rec 1] w1 = (w2, Inr ()) \<and>
    ReadAll 0 collect [] w2 = (w3, [ex_rec 2, ex_rec 3, ex_rec 4], None)"
  using append_after_failed_write_lost [OF ex_rep, of "ex_rec 20" "ex_rec 1"]
  by (auto simp: ex_view_def read_view_def length_encode_record headerSize_def ex_rec_def rec_ok_def
      maxRecordSize_def)

theorem wal_refines_witness:
  "\<exists>w'. RemoveBefore 2 ex_wal = (w', Inr ()) \<and> wal_rep w' [(\<lparr>sg_seq = 2, sg_tag = 5\<rparr>, [ex_rec 4])]"
  using wal_refines [OF ex_rep, of "[]" 0 2] by (simp add: ex_view_def remove_view_def)

end
