(* ===== verification/EK_RaftStore.thy ===== *)
theory EK_RaftStore
  imports EK_Storage EK_Wal "HOL-Library.Product_Lexorder"
begin

text \<open>
  \<open>internal/raftstore/raftstore.go\<close>: the durable \<open>raft.Storage\<close>. The hard state and the log
  live in the write-ahead log, snapshots in files of their own.

  A snapshot file is identified by the index and the term that its name spells in fixed-width
  hex, so that the lexical order of the names is the order of the pairs; \<open>rs_tmps\<close> are the
  files with the suffix \<open>.tmp\<close>. Calls that change something draw their outcome from the same
  list \<open>faults\<close> as those of the write-ahead log. Marshalling is a parameter (\<open>pb_codec\<close>).
  \<open>SaveSnapshot\<close> gives up its lock while it writes the file: its two critical sections are
  definitions of their own, and \<open>rs_SaveSnapshot\<close> runs them with nothing in between.
\<close>

section \<open>Parameters and state\<close>

record pb_codec =
  hs_Marshal :: "HardState \<Rightarrow> bytes option"
  hs_Unmarshal :: "bytes \<Rightarrow> HardState option"
  entry_Marshal :: "Entry \<Rightarrow> bytes option"
  entry_Unmarshal :: "bytes \<Rightarrow> Entry option"
  meta_Marshal :: "SnapshotMeta \<Rightarrow> bytes option"
  meta_Unmarshal :: "bytes \<Rightarrow> SnapshotMeta option"

definition recEntry :: u8 where
  "recEntry = 1"

definition recHardState :: u8 where
  "recHardState = 2"

text \<open>The bytes of \<open>EKVSNAP1\<close>.\<close>

definition snapMagic :: bytes where
  "snapMagic = [0x45, 0x4b, 0x56, 0x53, 0x4e, 0x41, 0x50, 0x31]"

type_synonym snap_name = "nat \<times> nat"

record RaftStore =
  rs_wal :: WAL
  rs_hs :: "HardState option"
  rs_meta :: "SnapshotMeta option"
  rs_lastIndex :: nat
  rs_snaps :: "(snap_name \<times> bytes) list"
  rs_tmps :: "(snap_name \<times> bytes) list"

definition on_wal :: "(WAL, 'a) io \<Rightarrow> (RaftStore, 'a) io" where
  "on_wal f s = (case f (rs_wal s) of (w, r) \<Rightarrow> (s\<lparr>rs_wal := w\<rparr>, r))"

text \<open>A call on the snapshot directory.\<close>

definition rs_sys :: "string \<Rightarrow> (RaftStore \<Rightarrow> RaftStore) \<Rightarrow> (RaftStore, unit) io" where
  "rs_sys what f s =
     (case next_io (rs_wal s) of
        (w, IoOk) \<Rightarrow> (f (s\<lparr>rs_wal := w\<rparr>), Inr ())
      | (w, IoFail _) \<Rightarrow> (s\<lparr>rs_wal := w\<rparr>, Inl (ErrIO what)))"

text \<open>\<open>os.Remove\<close> with the error ignored.\<close>

definition rm_snap :: "snap_name \<Rightarrow> RaftStore \<Rightarrow> RaftStore" where
  "rm_snap k s = fst (rs_sys ''remove'' (\<lambda>s. s\<lparr>rs_snaps := AList.delete k (rs_snaps s)\<rparr>) s)"

definition rm_tmp :: "snap_name \<Rightarrow> RaftStore \<Rightarrow> RaftStore" where
  "rm_tmp k s = fst (rs_sys ''remove'' (\<lambda>s. s\<lparr>rs_tmps := AList.delete k (rs_tmps s)\<rparr>) s)"

section \<open>Snapshot files\<close>

definition snapshotPath :: "SnapshotMeta \<Rightarrow> snap_name" where
  "snapshotPath meta = (sm_index meta, sm_term meta)"

definition snapshotFiles :: "RaftStore \<Rightarrow> snap_name list" where
  "snapshotFiles s = sort (map fst (rs_snaps s))"

definition snapshot_body :: "bytes \<Rightarrow> bytes \<Rightarrow> bytes" where
  "snapshot_body metaBytes dat =
     snapMagic @ le_bytes 4 (length metaBytes) @ metaBytes @ le_bytes 8 (length dat) @ dat"

definition snapshot_bytes :: "bytes \<Rightarrow> bytes \<Rightarrow> bytes" where
  "snapshot_bytes metaBytes dat =
     (let buf = snapshot_body metaBytes dat in buf @ le_bytes 4 (unat (crc_update 0 buf)))"

text \<open>\<open>File.Write\<close> on the temporary file: a failing write leaves a part.\<close>

definition tmp_write :: "snap_name \<Rightarrow> bytes \<Rightarrow> (RaftStore, unit) io" where
  "tmp_write k buf s =
     (case next_io (rs_wal s) of
        (w, IoOk) \<Rightarrow> (s\<lparr>rs_wal := w, rs_tmps := AList.update k buf (rs_tmps s)\<rparr>, Inr ())
      | (w, IoFail n) \<Rightarrow>
          (s\<lparr>rs_wal := w, rs_tmps := AList.update k (take n buf) (rs_tmps s)\<rparr>,
           Inl (ErrIO ''write'')))"

text \<open>\<open>os.Rename\<close> of the temporary file to its final name.\<close>

definition tmp_rename :: "snap_name \<Rightarrow> RaftStore \<Rightarrow> RaftStore" where
  "tmp_rename k s =
     (case map_of (rs_tmps s) k of
        None \<Rightarrow> s
      | Some buf \<Rightarrow> s\<lparr>rs_tmps := AList.delete k (rs_tmps s), rs_snaps := AList.update k buf (rs_snaps s)\<rparr>)"

definition writeSnapshotFile :: "pb_codec \<Rightarrow> SnapshotMeta \<Rightarrow> bytes \<Rightarrow> (RaftStore, unit) io" where
  "writeSnapshotFile pb meta dat =
     (case meta_Marshal pb meta of
        None \<Rightarrow> io_err ErrMarshal
      | Some metaBytes \<Rightarrow>
          let buf = snapshot_bytes metaBytes dat; k = snapshotPath meta in
          io_bind (rs_sys ''create'' (\<lambda>s. s\<lparr>rs_tmps := AList.update k [] (rs_tmps s)\<rparr>)) (\<lambda>_.
          io_bind (tmp_write k buf) (\<lambda>_.
          io_bind (rs_sys ''sync'' id) (\<lambda>_.
          io_bind (rs_sys ''close'' id) (\<lambda>_.
          io_bind (rs_sys ''rename'' (tmp_rename k)) (\<lambda>_.
          rs_sys ''syncdir'' id))))))"

definition readSnapshotFile :: "pb_codec \<Rightarrow> bytes \<Rightarrow> go_error + (SnapshotMeta \<times> bytes)" where
  "readSnapshotFile pb buf =
     (if length buf < length snapMagic + 4 + 8 + 4 \<or> take (length snapMagic) buf \<noteq> snapMagic
      then Inl ErrBadSnapshot
      else
        let body = take (length buf - 4) buf;
            sum = of_nat (le_val (drop (length buf - 4) buf)) in
        if crc_update 0 body \<noteq> sum then Inl ErrBadSnapshot
        else
          let p = drop (length snapMagic) body;
              metaLen = le_val (take 4 p);
              p1 = drop 4 p in
          if length p1 < metaLen + 8 then Inl ErrBadSnapshot
          else case meta_Unmarshal pb (take metaLen p1) of
              None \<Rightarrow> Inl ErrBadSnapshot
            | Some meta \<Rightarrow>
                let p2 = drop metaLen p1;
                    dataLen = le_val (take 8 p2);
                    p3 = drop 8 p2 in
                if length p3 \<noteq> dataLen then Inl ErrBadSnapshot else Inr (meta, p3))"

definition read_path :: "pb_codec \<Rightarrow> RaftStore \<Rightarrow> snap_name \<Rightarrow> go_error + (SnapshotMeta \<times> bytes)" where
  "read_path pb s k =
     (case map_of (rs_snaps s) k of
        None \<Rightarrow> Inl (ErrIO ''open'') | Some buf \<Rightarrow> readSnapshotFile pb buf)"

definition loadNewestSnapshot ::
  "pb_codec \<Rightarrow> (RaftStore, SnapshotMeta option \<times> bytes) io" where
  "loadNewestSnapshot pb s =
     (let s1 = fold rm_tmp (map fst (rs_tmps s)) s; names = snapshotFiles s1 in
      if names = [] then (s1, Inr (None, []))
      else case read_path pb s1 (last names) of
          Inl e \<Rightarrow> (s1, Inl e)
        | Inr (meta, dat) \<Rightarrow> (s1, Inr (Some meta, dat)))"

section \<open>Garbage collection\<close>

fun gc_bound :: "nat \<Rightarrow> Segment list \<Rightarrow> nat \<Rightarrow> nat" where
  "gc_bound snapIdx (sg # sg' # sgs) removeBefore =
     (if sg_tag sg' > snapIdx + 1 then removeBefore
      else gc_bound snapIdx (sg' # sgs) (max removeBefore (sg_seq sg')))"
| "gc_bound snapIdx sgs removeBefore = removeBefore"

definition gc_snaps :: "SnapshotMeta \<Rightarrow> RaftStore \<Rightarrow> RaftStore" where
  "gc_snaps meta s =
     fold rm_snap (filter (\<lambda>k. k \<noteq> snapshotPath meta \<and> fst k \<le> sm_index meta) (snapshotFiles s)) s"

definition gcLocked :: "(RaftStore, unit) io" where
  "gcLocked s =
     (case rs_meta s of
        None \<Rightarrow> (s, Inr ())
      | Some meta \<Rightarrow>
          io_bind (on_wal (RemoveBefore
              (gc_bound (sm_index meta) (segments (rs_wal s)) (sm_minWalSegment meta))))
            (\<lambda>_ s. (gc_snaps meta s, Inr ())) s)"

section \<open>Operations\<close>

definition rs_Open :: "nat \<Rightarrow> bool \<Rightarrow> (Segment \<times> File) list \<Rightarrow> (snap_name \<times> bytes) list
    \<Rightarrow> (snap_name \<times> bytes) list \<Rightarrow> io_result list \<Rightarrow> go_error + RaftStore" where
  "rs_Open segSize sync fs snaps tmps flts =
     bind_res (wal_Open segSize sync fs flts) (\<lambda>w.
       Inr \<lparr>rs_wal = w, rs_hs = None, rs_meta = None, rs_lastIndex = 0, rs_snaps = snaps, rs_tmps = tmps\<rparr>)"

text \<open>The callback of \<open>Load\<close>, over the variables it captures: the hard state and the entries.\<close>

definition load_record :: "pb_codec \<Rightarrow> nat \<Rightarrow> WalRecord \<Rightarrow> HardState option \<times> Entry list
    \<Rightarrow> go_error + HardState option \<times> Entry list" where
  "load_record pb snapIdx r st =
     (if w_type r = recHardState
      then (case hs_Unmarshal pb (w_data r) of
              None \<Rightarrow> Inl ErrUnmarshal | Some h \<Rightarrow> Inr (Some h, snd st))
      else if w_type r = recEntry
      then (case entry_Unmarshal pb (w_data r) of
              None \<Rightarrow> Inl ErrUnmarshal
            | Some e \<Rightarrow>
                if e_index e \<le> snapIdx then Inr st
                else let pos = e_index e - snapIdx - 1 in
                  if pos > length (snd st) then Inl ErrGap
                  else Inr (fst st, take pos (snd st) @ [e]))
      else Inl ErrUnknownRecord)"

definition rs_Load :: "pb_codec \<Rightarrow> (RaftStore, Loaded) io" where
  "rs_Load pb =
     io_bind (loadNewestSnapshot pb) (\<lambda>(meta, dat) s.
       let (snapIdx, minSeq) =
             (case meta of None \<Rightarrow> (0, 0) | Some m \<Rightarrow> (sm_index m, sm_minWalSegment m)) in
       case ReadAll minSeq (load_record pb snapIdx) (rs_hs s, []) (rs_wal s) of
         (w, (h, es), err) \<Rightarrow>
           let s1 = s\<lparr>rs_meta := meta, rs_wal := w, rs_hs := h\<rparr> in
           (case err of
              Some e \<Rightarrow> (s1, Inl e)
            | None \<Rightarrow> io_bind gcLocked (\<lambda>_. io_ret
                \<lparr>ld_hardState = h, ld_snapshotMeta = meta, ld_snapshotData = dat, ld_entries = es\<rparr>)
                (s1\<lparr>rs_lastIndex := snapIdx + length es\<rparr>)))"

definition hardStateRecord :: "pb_codec \<Rightarrow> HardState \<Rightarrow> go_error + WalRecord" where
  "hardStateRecord pb h =
     (case hs_Marshal pb h of
        None \<Rightarrow> Inl ErrMarshal | Some b \<Rightarrow> Inr \<lparr>w_type = recHardState, w_data = b\<rparr>)"

fun entry_records :: "pb_codec \<Rightarrow> Entry list \<Rightarrow> go_error + WalRecord list" where
  "entry_records pb [] = Inr []"
| "entry_records pb (e # es) =
     (case entry_Marshal pb e of
        None \<Rightarrow> Inl ErrMarshal
      | Some b \<Rightarrow> bind_res (entry_records pb es) (\<lambda>rs. Inr (\<lparr>w_type = recEntry, w_data = b\<rparr> # rs)))"

text \<open>The records of a possibly absent hard state.\<close>

definition hs_records :: "pb_codec \<Rightarrow> HardState option \<Rightarrow> go_error + WalRecord list" where
  "hs_records pb hs =
     (case hs of None \<Rightarrow> Inr [] | Some h \<Rightarrow> bind_res (hardStateRecord pb h) (\<lambda>r. Inr [r]))"

definition rotateLocked :: "pb_codec \<Rightarrow> (RaftStore, unit) io" where
  "rotateLocked pb s =
     (case hs_records pb (rs_hs s) of
        Inl e \<Rightarrow> (s, Inl e)
      | Inr head \<Rightarrow> io_bind (on_wal (Rotate (rs_lastIndex s + 1) head)) (\<lambda>_. io_ret ()) s)"

text \<open>The three parts of \<open>Save\<close>: the batch, the fields in memory, and the rotation.\<close>

definition save_records :: "pb_codec \<Rightarrow> HardState option \<Rightarrow> Entry list \<Rightarrow> go_error + WalRecord list" where
  "save_records pb hs es =
     bind_res (hs_records pb hs) (\<lambda>a. bind_res (entry_records pb es) (\<lambda>b. Inr (a @ b)))"

definition note_saved :: "HardState option \<Rightarrow> Entry list \<Rightarrow> RaftStore \<Rightarrow> RaftStore" where
  "note_saved hs es s =
     s\<lparr>rs_hs := (case hs of None \<Rightarrow> rs_hs s | Some h \<Rightarrow> Some h),
       rs_lastIndex := (if es = [] then rs_lastIndex s else e_index (last es))\<rparr>"

definition rotate_if_full :: "pb_codec \<Rightarrow> (RaftStore, unit) io" where
  "rotate_if_full pb s =
     (if ShouldRotate (rs_wal s) then io_bind (rotateLocked pb) (\<lambda>_. gcLocked) s else (s, Inr ()))"

definition rs_Save :: "pb_codec \<Rightarrow> HardState option \<Rightarrow> Entry list \<Rightarrow> (RaftStore, unit) io" where
  "rs_Save pb hs es s =
     (case save_records pb hs es of
        Inl e \<Rightarrow> (s, Inl e)
      | Inr recs \<Rightarrow>
          io_bind (on_wal (Append recs)) (\<lambda>_ s. rotate_if_full pb (note_saved hs es s)) s)"

text \<open>The first critical section of \<open>SaveSnapshot\<close>: \<open>None\<close> when a newer snapshot is in place,
  otherwise the metadata to write.\<close>

definition snapshot_begin :: "pb_codec \<Rightarrow> SnapshotMeta \<Rightarrow> bool \<Rightarrow> (RaftStore, SnapshotMeta option) io" where
  "snapshot_begin pb meta discardLog s =
     (if (case rs_meta s of None \<Rightarrow> False | Some m \<Rightarrow> sm_index meta \<le> sm_index m)
      then (s, Inr None)
      else
        let meta1 = (case rs_meta s of None \<Rightarrow> meta
               | Some m \<Rightarrow> meta\<lparr>sm_minWalSegment := sm_minWalSegment m\<rparr>) in
        if discardLog
        then io_bind (rotateLocked pb) (\<lambda>_ s.
               (s, if segments (rs_wal s) = [] then Inl (Panic ''index out of range'')
                   else Inr (Some (meta1\<lparr>sm_minWalSegment := sg_seq (last (segments (rs_wal s)))\<rparr>))))
               (s\<lparr>rs_lastIndex := sm_index meta\<rparr>)
        else (s, Inr (Some meta1)))"

text \<open>The second one: the written snapshot becomes the current one.\<close>

definition snapshot_publish :: "SnapshotMeta \<Rightarrow> (RaftStore, unit) io" where
  "snapshot_publish meta s =
     gcLocked (if (case rs_meta s of None \<Rightarrow> True | Some m \<Rightarrow> sm_index meta > sm_index m)
               then s\<lparr>rs_meta := Some meta\<rparr> else s)"

definition rs_SaveSnapshot :: "pb_codec \<Rightarrow> SnapshotMeta \<Rightarrow> bytes \<Rightarrow> bool \<Rightarrow> (RaftStore, unit) io" where
  "rs_SaveSnapshot pb meta dat discardLog =
     io_bind (snapshot_begin pb meta discardLog) (\<lambda>m.
       case m of
         None \<Rightarrow> io_ret ()
       | Some meta1 \<Rightarrow> io_bind (writeSnapshotFile pb meta1 dat) (\<lambda>_. snapshot_publish meta1))"

definition rs_Snapshot :: "pb_codec \<Rightarrow> RaftStore \<Rightarrow> go_error + (SnapshotMeta option \<times> bytes)" where
  "rs_Snapshot pb s =
     (case rs_meta s of
        None \<Rightarrow> Inr (None, [])
      | Some meta \<Rightarrow> bind_res (read_path pb s (snapshotPath meta)) (\<lambda>(m, dat). Inr (Some m, dat)))"

definition WALSize :: "RaftStore \<Rightarrow> nat" where
  "WALSize s = SizeOnDisk (rs_wal s)"

definition rs_Close :: "(RaftStore, unit) io" where
  "rs_Close = on_wal wal_Close"

text \<open>The interface that Raft sees.\<close>

definition rs_ops :: "pb_codec \<Rightarrow> RaftStore StorageOps" where
  "rs_ops pb = \<lparr>
     st_Load = (\<lambda>s. case rs_Load pb s of (s', Inl e) \<Rightarrow> Inl e | (s', Inr ld) \<Rightarrow> Inr (s', ld)),
     st_Save = (\<lambda>s hs es. case rs_Save pb hs es s of (s', Inl e) \<Rightarrow> Inl e | (s', Inr _) \<Rightarrow> Inr s'),
     st_SaveSnapshot = (\<lambda>s meta dat discard. case rs_SaveSnapshot pb meta dat discard s of
       (s', Inl e) \<Rightarrow> (s', Some e) | (s', Inr _) \<Rightarrow> (s', None)),
     st_Snapshot = rs_Snapshot pb\<rparr>"

section \<open>Reading snapshot files back\<close>

lemma length_snapMagic [simp]: "length snapMagic = 8"
  by (simp add: snapMagic_def)

lemma crc_field [simp]: "of_nat (le_val (le_bytes 4 (unat (c :: u32)))) = c"
proof -
  have "unat c < 2 ^ LENGTH(32)" by (rule unsigned_less)
  then show ?thesis by simp
qed

lemma mod_eq_self: "0 < n \<Longrightarrow> x = x mod n \<longleftrightarrow> x < (n :: nat)"
  by (metis mod_less mod_less_divisor)

lemma readSnapshotFile_body:
  assumes "take 8 body = snapMagic" and "20 \<le> length body"
  shows "readSnapshotFile pb (body @ le_bytes 4 (unat (crc_update 0 body))) =
    (let p = drop 8 body; metaLen = le_val (take 4 p); p1 = drop 4 p in
     if length p1 < metaLen + 8 then Inl ErrBadSnapshot
     else case meta_Unmarshal pb (take metaLen p1) of
         None \<Rightarrow> Inl ErrBadSnapshot
       | Some meta \<Rightarrow>
           let p2 = drop metaLen p1; dataLen = le_val (take 8 p2); p3 = drop 8 p2 in
           if length p3 \<noteq> dataLen then Inl ErrBadSnapshot else Inr (meta, p3))"
  using assms by (simp add: readSnapshotFile_def Let_def del: le_val_bytes)

lemma readSnapshotFile_bytes:
  assumes "length mb < 2 ^ 32"
  shows "readSnapshotFile pb (snapshot_bytes mb dat) =
    (case meta_Unmarshal pb mb of
       None \<Rightarrow> Inl ErrBadSnapshot
     | Some meta \<Rightarrow> if length dat < 2 ^ 64 then Inr (meta, dat) else Inl ErrBadSnapshot)"
proof -
  let ?b = "snapshot_body mb dat"
  have m: "take 8 ?b = snapMagic" "20 \<le> length ?b" by (simp_all add: snapshot_body_def)
  have p: "drop 8 ?b = le_bytes 4 (length mb) @ mb @ le_bytes 8 (length dat) @ dat"
    by (simp add: snapshot_body_def)
  have l: "length mb mod 256 ^ 4 = length mb" using assms by simp
  have "length dat = length dat mod 256 ^ 8 \<longleftrightarrow> length dat < 256 ^ 8" by (rule mod_eq_self) simp
  then have d: "length dat = length dat mod 256 ^ 8 \<longleftrightarrow> length dat < 2 ^ 64" by simp
  show ?thesis
    unfolding snapshot_bytes_def Let_def readSnapshotFile_body [OF m, unfolded Let_def p]
    using l d by (simp split: option.split)
qed

lemma le_val_inj:
  "length bs = length cs \<Longrightarrow> le_val bs = le_val cs \<Longrightarrow> bs = cs"
proof (induction bs arbitrary: cs)
  case (Cons b bs)
  then obtain c cs' where cs: "cs = c # cs'" by (cases cs) auto
  have lt: "unat b < 2 ^ LENGTH(8)" "unat c < 2 ^ LENGTH(8)" by (rule unsigned_less)+
  have e: "unat b + 256 * le_val bs = unat c + 256 * le_val cs'" using Cons.prems cs by simp
  have "unat b = (unat b + 256 * le_val bs) mod 256" using lt by simp
  also have "\<dots> = unat c" unfolding e using lt by simp
  finally have u: "unat b = unat c" .
  then have "le_val bs = le_val cs'" using e by simp
  then show ?case using Cons u cs by (simp add: word_unat_eq_iff)
qed simp

lemma le_val_less: "le_val bs < 256 ^ length bs"
proof (induction bs)
  case (Cons b bs)
  have "unat b < 2 ^ LENGTH(8)" by (rule unsigned_less)
  then show ?case using Cons by simp
qed simp

lemma bad_sum:
  assumes "crc_update 0 body \<noteq> of_nat (le_val crc)" and "length crc = 4"
  shows "readSnapshotFile pb (body @ crc) = Inl ErrBadSnapshot"
  using assms by (simp add: readSnapshotFile_def)

text \<open>A snapshot file in which any one byte has changed, wherever it is, is not
  accepted.\<close>

theorem snapshot_damage_detected:
  assumes "i < length (snapshot_bytes mb dat)" and "b \<noteq> snapshot_bytes mb dat ! i"
  shows "readSnapshotFile pb ((snapshot_bytes mb dat)[i := b]) = Inl ErrBadSnapshot"
proof -
  define body where "body = snapshot_body mb dat"
  define crc where "crc = le_bytes 4 (unat (crc_update 0 body))"
  have sb: "snapshot_bytes mb dat = body @ crc" by (simp add: snapshot_bytes_def body_def crc_def Let_def)
  have val: "of_nat (le_val crc) = crc_update 0 body" "length crc = 4"
    by (simp_all add: crc_def del: le_val_bytes)
  show ?thesis
  proof (cases "i < length body")
    case True
    then have "crc_update 0 (body[i := b]) \<noteq> crc_update 0 body"
      using assms(2) crc_update_byte [of b "body ! i" 0 "take i body" "drop (Suc i) body"]
      by (simp add: sb upd_conv_take_nth_drop nth_append flip: id_take_nth_drop)
    then show ?thesis using True val by (simp add: sb list_update_append bad_sum)
  next
    case False
    let ?j = "i - length body"
    have j: "?j < length crc" "b \<noteq> crc ! ?j" using False assms by (auto simp: sb nth_append)
    then have "crc[?j := b] \<noteq> crc" by (metis nth_list_update_eq)
    then have "le_val (crc[?j := b]) \<noteq> le_val crc" using le_val_inj by fastforce
    moreover have "le_val (crc[?j := b]) < 2 ^ LENGTH(32)" "le_val crc < 2 ^ LENGTH(32)"
      using le_val_less [of "crc[?j := b]"] le_val_less [of crc] val(2) by simp_all
    moreover have "unat (of_nat n :: u32) = n" if "n < 2 ^ LENGTH(32)" for n
      using that by (simp add: unat_of_nat)
    ultimately have "(of_nat (le_val (crc[?j := b])) :: u32) \<noteq> of_nat (le_val crc)" by metis
    then show ?thesis using False val by (simp add: sb list_update_append bad_sum)
  qed
qed

section \<open>Writing snapshot files\<close>

lemma rs_sys_eq: "rs_sys what f s = (s', r) \<Longrightarrow>
    (\<exists>w. s' = f (s\<lparr>rs_wal := w\<rparr>) \<and> r = Inr ()) \<or> (\<exists>w. s' = s\<lparr>rs_wal := w\<rparr> \<and> r = Inl (ErrIO what))"
  by (auto simp: rs_sys_def split: prod.splits io_result.splits)

lemma io_bind_cases:
  assumes "io_bind m f s = (s', r)"
  obtains (failed) e where "m s = (s', Inl e)" and "r = Inl e"
    | (went_on) s1 a where "m s = (s1, Inr a)" and "f a s1 = (s', r)"
  using assms by (cases "m s"; cases "snd (m s)") (auto simp: io_bind_def)

lemma map_of_update [simp]: "map_of (AList.update k v al) k' = (if k' = k then Some v else map_of al k')"
  by (simp add: AList.update_conv)

text \<open>C16. Writing a snapshot is atomic: wherever the sequence of calls stops, the files with a
  final name are the old ones, or the old ones with the complete new file; and it is the latter
  when the call succeeds.\<close>

theorem snapshot_write_atomic:
  assumes "meta_Marshal pb meta = Some mb" and "writeSnapshotFile pb meta dat s = (s', r)"
  defines "new \<equiv> AList.update (snapshotPath meta) (snapshot_bytes mb dat) (rs_snaps s)"
  shows "(rs_snaps s' = rs_snaps s \<or> rs_snaps s' = new) \<and> (r = Inr () \<longrightarrow> rs_snaps s' = new)"
  using assms
  by (auto simp: writeSnapshotFile_def Let_def tmp_write_def tmp_rename_def elim!: io_bind_cases
      dest!: rs_sys_eq split: prod.splits io_result.splits)

section \<open>Which snapshot files garbage collection keeps\<close>

text \<open>The file that the current metadata names, and every file of a higher index.\<close>

definition gc_safe :: "SnapshotMeta option \<Rightarrow> snap_name \<Rightarrow> bool" where
  "gc_safe meta k = (case meta of None \<Rightarrow> True | Some m \<Rightarrow> k = snapshotPath m \<or> fst k > sm_index m)"

lemma rm_snap_frame:
  "rs_meta (rm_snap k s) = rs_meta s" "rs_hs (rm_snap k s) = rs_hs s"
  "rs_lastIndex (rm_snap k s) = rs_lastIndex s"
  "k' \<noteq> k \<Longrightarrow> map_of (rs_snaps (rm_snap k s)) k' = map_of (rs_snaps s) k'"
  by (auto simp: rm_snap_def rs_sys_def AList.delete_conv split: prod.splits io_result.splits)

lemma fold_rm_snap_frame:
  "rs_meta (fold rm_snap ks s) = rs_meta s" "rs_hs (fold rm_snap ks s) = rs_hs s"
  "rs_lastIndex (fold rm_snap ks s) = rs_lastIndex s"
  "k' \<notin> set ks \<Longrightarrow> map_of (rs_snaps (fold rm_snap ks s)) k' = map_of (rs_snaps s) k'"
  by (induction ks arbitrary: s) (simp_all add: rm_snap_frame)

lemma on_wal_eq: "on_wal f s = (s', r) \<longleftrightarrow> (\<exists>w. f (rs_wal s) = (w, r) \<and> s' = s\<lparr>rs_wal := w\<rparr>)"
  by (auto simp: on_wal_def split: prod.splits)

lemma gcLocked_frame:
  assumes "gcLocked s = (s', r)"
  shows "rs_meta s' = rs_meta s" "rs_hs s' = rs_hs s" "rs_lastIndex s' = rs_lastIndex s"
    "gc_safe (rs_meta s) k \<Longrightarrow> map_of (rs_snaps s') k = map_of (rs_snaps s) k"
  using assms
  by (auto simp: gcLocked_def gc_snaps_def gc_safe_def fold_rm_snap_frame on_wal_eq
      elim!: io_bind_cases split: option.splits)

lemma rotateLocked_frame:
  assumes "rotateLocked pb s = (s', r)"
  shows "rs_meta s' = rs_meta s" "rs_hs s' = rs_hs s" "rs_snaps s' = rs_snaps s"
    "rs_lastIndex s' = rs_lastIndex s"
  using assms by (auto simp: rotateLocked_def on_wal_eq elim!: io_bind_cases split: sum.splits)

lemma rotate_if_full_frame:
  assumes "rotate_if_full pb s = (s', r)"
  shows "rs_meta s' = rs_meta s" "rs_hs s' = rs_hs s" "rs_lastIndex s' = rs_lastIndex s"
    "gc_safe (rs_meta s) k \<Longrightarrow> map_of (rs_snaps s') k = map_of (rs_snaps s) k"
  using assms
  by (auto simp: rotate_if_full_def rotateLocked_frame gcLocked_frame elim!: io_bind_cases split: if_splits)

lemma rs_Save_frame:
  assumes "rs_Save pb hs es s = (s', r)"
  shows "rs_meta s' = rs_meta s"
    and "gc_safe (rs_meta s) k \<Longrightarrow> map_of (rs_snaps s') k = map_of (rs_snaps s) k"
  using assms
  by (auto simp: rs_Save_def on_wal_eq note_saved_def rotate_if_full_frame elim!: io_bind_cases
      split: sum.splits)

text \<open>The state after some calls of \<open>Save\<close>, failing or not.\<close>

definition saves :: "pb_codec \<Rightarrow> (HardState option \<times> Entry list) list \<Rightarrow> RaftStore \<Rightarrow> RaftStore" where
  "saves pb = fold (\<lambda>(hs, es) s. fst (rs_Save pb hs es s))"

lemma saves_frame:
  "rs_meta (saves pb bs s) = rs_meta s \<and>
   (gc_safe (rs_meta s) k \<longrightarrow> map_of (rs_snaps (saves pb bs s)) k = map_of (rs_snaps s) k)"
proof (induction bs arbitrary: s)
  case (Cons b bs)
  obtain hs es where b: "b = (hs, es)" by (cases b)
  obtain s1 r where s1: "rs_Save pb hs es s = (s1, r)" by (cases "rs_Save pb hs es s")
  show ?case
    using Cons.IH [of s1] rs_Save_frame [OF s1] by (simp add: saves_def b s1)
qed (simp add: saves_def)

lemma writeSnapshotFile_ok:
  assumes "writeSnapshotFile pb meta dat s = (s', Inr u)"
  shows "\<exists>mb. meta_Marshal pb meta = Some mb \<and>
      rs_snaps s' = AList.update (snapshotPath meta) (snapshot_bytes mb dat) (rs_snaps s)"
    and "rs_meta s' = rs_meta s" and "rs_hs s' = rs_hs s" and "rs_lastIndex s' = rs_lastIndex s"
  using assms
  by (auto simp: writeSnapshotFile_def Let_def tmp_write_def tmp_rename_def elim!: io_bind_cases
      dest!: rs_sys_eq split: prod.splits io_result.splits option.splits)

text \<open>C17. A snapshot that has been written is never lost before it is published: between the
  renaming of its file and the second critical section of \<open>SaveSnapshot\<close> any number of \<open>Save\<close>
  calls may run, rotate the log and collect garbage, and still \<open>Snapshot\<close> then returns the
  metadata and the data that were written.\<close>

theorem snapshot_survives_saves:
  assumes "codec_ok (meta_Marshal pb) (meta_Unmarshal pb)"
    and "\<And>mb. meta_Marshal pb meta = Some mb \<Longrightarrow> length mb < 2 ^ 32" and "length dat < 2 ^ 64"
    and "case rs_meta s of None \<Rightarrow> True | Some m \<Rightarrow> sm_index m < sm_index meta"
    and "writeSnapshotFile pb meta dat s = (s1, Inr ())"
    and "snapshot_publish meta (saves pb bs s1) = (s2, r)"
  shows "rs_Snapshot pb s2 = Inr (Some meta, dat)"
proof -
  let ?k = "snapshotPath meta" and ?s = "saves pb bs s1"
  obtain mb where mb: "meta_Marshal pb meta = Some mb" "map_of (rs_snaps s1) ?k = Some (snapshot_bytes mb dat)"
    using writeSnapshotFile_ok(1) [OF assms(5)] by auto
  have m: "rs_meta s1 = rs_meta s" using writeSnapshotFile_ok(2) [OF assms(5)] .
  then have "gc_safe (rs_meta s1) ?k" using assms(4) by (simp add: gc_safe_def snapshotPath_def split: option.splits)
  then have kept: "map_of (rs_snaps ?s) ?k = Some (snapshot_bytes mb dat)" "rs_meta ?s = rs_meta s"
    using saves_frame [of pb bs s1 ?k] mb(2) m by simp_all
  then have p: "gcLocked (?s\<lparr>rs_meta := Some meta\<rparr>) = (s2, r)"
    using assms(4,6) by (simp add: snapshot_publish_def split: option.splits)
  have "gc_safe (Some meta) ?k" by (simp add: gc_safe_def)
  then have "map_of (rs_snaps s2) ?k = Some (snapshot_bytes mb dat)" "rs_meta s2 = Some meta"
    using gcLocked_frame(1,4) [OF p] kept(1) by simp_all
  moreover have "readSnapshotFile pb (snapshot_bytes mb dat) = Inr (meta, dat)"
    using readSnapshotFile_bytes [of mb pb dat] assms(2,3) codec_okD [OF assms(1) mb(1)] mb(1) by simp
  ultimately show ?thesis by (simp add: rs_Snapshot_def read_path_def)
qed

section \<open>Witnesses\<close>

definition ex_snap_meta :: SnapshotMeta where
  "ex_snap_meta = \<lparr>sm_index = 5, sm_term = 2, sm_minWalSegment = 0\<rparr>"

definition ex_snap_codec :: pb_codec where
  "ex_snap_codec = \<lparr>hs_Marshal = \<lambda>_. None, hs_Unmarshal = \<lambda>_. None, entry_Marshal = \<lambda>_. None,
     entry_Unmarshal = \<lambda>_. None,
     meta_Marshal = \<lambda>m. if m = ex_snap_meta then Some [1] else None,
     meta_Unmarshal = \<lambda>b. if b = [1] then Some ex_snap_meta else None\<rparr>"

definition ex_snap_store :: "io_result list \<Rightarrow> RaftStore" where
  "ex_snap_store flts = \<lparr>rs_wal = ex_wal\<lparr>faults := flts\<rparr>, rs_hs = None, rs_meta = None, rs_lastIndex = 0,
     rs_snaps = [((3, 1), [7])], rs_tmps = []\<rparr>"

theorem snapshot_damage_detected_witness:
  "readSnapshotFile ex_snap_codec ((snapshot_bytes [1] [2, 3])[12 := 9]) = Inl ErrBadSnapshot"
  by (rule snapshot_damage_detected)
     (simp_all add: snapshot_bytes_def snapshot_body_def Let_def nth_append)

theorem snapshot_write_atomic_witness:
  "\<exists>s' r. writeSnapshotFile ex_snap_codec ex_snap_meta [2, 3]
       (ex_snap_store [IoOk, IoOk, IoOk, IoOk, IoOk, IoFail 0]) = (s', r) \<and>
     (rs_snaps s' = [((3, 1), [7])] \<or> rs_snaps s' = [((3, 1), [7]), ((5, 2), snapshot_bytes [1] [2, 3])])"
proof -
  obtain s' r where w: "writeSnapshotFile ex_snap_codec ex_snap_meta [2, 3]
       (ex_snap_store [IoOk, IoOk, IoOk, IoOk, IoOk, IoFail 0]) = (s', r)"
    by (cases "writeSnapshotFile ex_snap_codec ex_snap_meta [2, 3]
       (ex_snap_store [IoOk, IoOk, IoOk, IoOk, IoOk, IoFail 0])")
  have m: "meta_Marshal ex_snap_codec ex_snap_meta = Some [1]" by (simp add: ex_snap_codec_def)
  from snapshot_write_atomic [OF m w] show ?thesis
    using w by (auto simp: ex_snap_store_def snapshotPath_def ex_snap_meta_def)
qed

theorem snapshot_survives_saves_witness:
  "\<exists>s1 s2 r. writeSnapshotFile ex_snap_codec ex_snap_meta [2, 3] (ex_snap_store []) = (s1, Inr ()) \<and>
     snapshot_publish ex_snap_meta (saves ex_snap_codec [(None, []), (None, [])] s1) = (s2, r) \<and>
     rs_Snapshot ex_snap_codec s2 = Inr (Some ex_snap_meta, [2, 3])"
proof -
  obtain s1 where w: "writeSnapshotFile ex_snap_codec ex_snap_meta [2, 3] (ex_snap_store []) = (s1, Inr ())"
    by (auto simp: writeSnapshotFile_def ex_snap_codec_def Let_def io_bind_def rs_sys_def tmp_write_def
        tmp_rename_def ex_snap_store_def)
  obtain s2 r where p: "snapshot_publish ex_snap_meta (saves ex_snap_codec [(None, []), (None, [])] s1) = (s2, r)"
    by (cases "snapshot_publish ex_snap_meta (saves ex_snap_codec [(None, []), (None, [])] s1)")
  have "codec_ok (meta_Marshal ex_snap_codec) (meta_Unmarshal ex_snap_codec)"
    by (simp add: codec_ok_def ex_snap_codec_def)
  from snapshot_survives_saves [OF this _ _ _ w p] show ?thesis
    using w p by (auto simp: ex_snap_store_def ex_snap_codec_def)
qed

end
