(* ===== verification/EK_Durable.thy ===== *)
theory EK_Durable
  imports EK_RaftStore
begin

text \<open>
  What the durable storage promises to Raft. The term and the vote survive: whatever segments
  garbage collection deletes, the last hard state on disk is the last one saved, because every
  segment but the first opens with the hard state that was current when it was started. This
  discharges \<open>hard_state_storage\<close> for \<open>raftstore\<close>.

  Two hypotheses name what is assumed of marshalling: \<open>codec_ok\<close> (a message that was marshalled
  unmarshals to itself) and \<open>fits\<close> (no message that the storage is given is larger than
  \<open>maxRecordSize\<close>; the server bounds the requests it accepts far below it).
\<close>

section \<open>Vocabulary\<close>

definition fits :: "('a \<Rightarrow> bytes option) \<Rightarrow> bool" where
  "fits marshal \<longleftrightarrow> (\<forall>x b. marshal x = Some b \<longrightarrow> length b \<le> maxRecordSize)"

definition pb_ok :: "pb_codec \<Rightarrow> bool" where
  "pb_ok pb \<longleftrightarrow> codec_ok (hs_Marshal pb) (hs_Unmarshal pb) \<and>
     codec_ok (entry_Marshal pb) (entry_Unmarshal pb) \<and>
     codec_ok (meta_Marshal pb) (meta_Unmarshal pb) \<and>
     fits (hs_Marshal pb) \<and> fits (entry_Marshal pb) \<and> fits (meta_Marshal pb)"

text \<open>The last hard state among some records, starting from the one given.\<close>

definition hs_step :: "pb_codec \<Rightarrow> HardState option \<Rightarrow> WalRecord \<Rightarrow> HardState option" where
  "hs_step pb h r =
     (if w_type r = recHardState
      then (case hs_Unmarshal pb (w_data r) of None \<Rightarrow> h | Some h' \<Rightarrow> Some h') else h)"

definition last_hs :: "pb_codec \<Rightarrow> HardState option \<Rightarrow> WalRecord list \<Rightarrow> HardState option" where
  "last_hs pb = foldl (hs_step pb)"

text \<open>Every segment opens with the hard state that the segments before it end with, if they hold
  one.\<close>

fun heads_ok :: "pb_codec \<Rightarrow> HardState option \<Rightarrow> (Segment \<times> WalRecord list) list \<Rightarrow> bool" where
  "heads_ok pb h [] \<longleftrightarrow> True"
| "heads_ok pb h ((sg, rs) # V) \<longleftrightarrow>
     (h = None \<or> (\<exists>r rs'. rs = r # rs' \<and> hs_step pb None r = h)) \<and> heads_ok pb (last_hs pb h rs) V"

abbreviation all_recs :: "(Segment \<times> WalRecord list) list \<Rightarrow> WalRecord list" where
  "all_recs V \<equiv> concat (map snd V)"

text \<open>The segment numbers that snapshots tell recovery to start from exist.\<close>

definition mins_ok :: "pb_codec \<Rightarrow> RaftStore \<Rightarrow> nat \<Rightarrow> bool" where
  "mins_ok pb s seq \<longleftrightarrow>
     (\<forall>m. rs_meta s = Some m \<longrightarrow> sm_minWalSegment m \<le> seq) \<and>
     (\<forall>k buf m dat. map_of (rs_snaps s) k = Some buf \<longrightarrow> readSnapshotFile pb buf = Inr (m, dat) \<longrightarrow>
        sm_minWalSegment m \<le> seq)"

definition rs_rep :: "pb_codec \<Rightarrow> RaftStore \<Rightarrow> (Segment \<times> WalRecord list) list \<Rightarrow> bool" where
  "rs_rep pb s V \<longleftrightarrow> wal_rep (rs_wal s) V \<and> heads_ok pb None V \<and>
     rs_hs s = last_hs pb None (all_recs V) \<and> mins_ok pb s (sg_seq (fst (last V)))"

text \<open>A store that has been opened and not loaded yet.\<close>

definition rs_found :: "pb_codec \<Rightarrow> RaftStore \<Rightarrow> (Segment \<times> WalRecord list) list \<Rightarrow> bytes \<Rightarrow> bool" where
  "rs_found pb s V tail \<longleftrightarrow> wal_found (rs_wal s) V tail \<and> heads_ok pb None V \<and>
     rs_hs s = None \<and> mins_ok pb s (sg_seq (fst (last V)))"

definition rs_ok :: "pb_codec \<Rightarrow> RaftStore \<Rightarrow> bool" where
  "rs_ok pb s \<longleftrightarrow> (\<exists>V. rs_rep pb s V)"

definition rs_fresh :: "pb_codec \<Rightarrow> RaftStore \<Rightarrow> bool" where
  "rs_fresh pb s \<longleftrightarrow> (\<exists>V tail. rs_found pb s V tail)"

text \<open>The last hard state in the files.\<close>

definition disk_hs :: "pb_codec \<Rightarrow> RaftStore \<Rightarrow> HardState option" where
  "disk_hs pb s = last_hs pb None (concat (map
     (\<lambda>sg. case map_of (files (rs_wal s)) sg of
        None \<Rightarrow> [] | Some f \<Rightarrow> fst (readSegment collect [] 0 (f_data f))) (segments (rs_wal s))))"

text \<open>A process that dies between two calls, or while it appends entries: the next one opens the
  files, whose last one may end in some of the records and a torn one, and may find temporary
  files.\<close>

definition rs_crash :: "pb_codec \<Rightarrow> RaftStore \<Rightarrow> RaftStore \<Rightarrow> bool" where
  "rs_crash pb s s' \<longleftrightarrow> (\<exists>ss recs k tmps.
     (\<forall>r \<in> set recs. rec_ok r \<and> w_type r = recEntry) \<and>
     rs_Open ss True (crash_append (rs_wal s) recs k) (rs_snaps s) tmps [] = Inr s')"

section \<open>The last hard state\<close>

lemma last_hs_simps [simp]:
  "last_hs pb h [] = h" "last_hs pb h (r # rs) = last_hs pb (hs_step pb h r) rs"
  "last_hs pb h (rs @ rs') = last_hs pb (last_hs pb h rs) rs'"
  by (simp_all add: last_hs_def)

lemma hs_step_head: "hs_step pb None r = Some x \<Longrightarrow> hs_step pb h r = Some x"
  by (auto simp: hs_step_def split: if_splits option.splits)

lemma heads_ok_append:
  "heads_ok pb h (V @ V') \<longleftrightarrow> heads_ok pb h V \<and> heads_ok pb (last_hs pb h (all_recs V)) V'"
  by (induction pb h V rule: heads_ok.induct) simp_all

text \<open>Dropping the segments before one of them loses no hard state.\<close>

lemma heads_ok_forget:
  assumes "heads_ok pb h V" and "V \<noteq> []"
  shows "heads_ok pb None V \<and> last_hs pb None (all_recs V) = last_hs pb h (all_recs V)"
proof (cases h)
  case None
  then show ?thesis using assms by simp
next
  case (Some x)
  obtain sg rs V' where V: "V = (sg, rs) # V'" using assms(2) by (cases V) auto
  obtain r rs' where r: "rs = r # rs'" "hs_step pb None r = h" using assms(1) V Some by auto
  then have "hs_step pb h r = h" using Some hs_step_head by metis
  then show ?thesis using assms(1) r V by simp
qed

lemma heads_ok_suffix:
  assumes "heads_ok pb None (V1 @ V2)" and "V2 \<noteq> []"
  shows "heads_ok pb None V2 \<and> last_hs pb None (all_recs V2) = last_hs pb None (all_recs (V1 @ V2))"
  using heads_ok_forget [of pb "last_hs pb None (all_recs V1)" V2] assms by (simp add: heads_ok_append)

lemma heads_ok_extend:
  assumes "heads_ok pb None (V @ [(sg, rs)])"
  shows "heads_ok pb None (V @ [(sg, rs @ rs')])"
  using assms by (auto simp: heads_ok_append)

text \<open>Segments are dropped from the front.\<close>

lemma sorted_filter_suffix:
  assumes "sorted_wrt (<) (map f xs)"
  shows "\<exists>ys. xs = ys @ filter (\<lambda>x. (n :: nat) \<le> f x) xs"
  using assms
proof (induction xs)
  case (Cons x xs)
  show ?case
  proof (cases "n \<le> f x")
    case True
    then have "filter (\<lambda>x. n \<le> f x) xs = xs" using Cons.prems by (auto simp: filter_id_conv)
    then show ?thesis using True by simp
  next
    case False
    obtain ys where "xs = ys @ filter (\<lambda>x. n \<le> f x) xs" using Cons by auto
    then have "x # xs = (x # ys) @ filter (\<lambda>x. n \<le> f x) (x # xs)" using False by simp
    then show ?thesis by blast
  qed
qed simp

lemma remove_view_suffix:
  assumes "sorted_wrt (<) (map (sg_seq \<circ> fst) V)" and "V \<noteq> []"
  shows "\<exists>V'. V = V' @ remove_view V seq \<and> remove_view V seq \<noteq> [] \<and> last (remove_view V seq) = last V"
proof -
  obtain V0 p where V: "V = V0 @ [p]" using assms(2) by (cases V rule: rev_cases) auto
  have "sorted_wrt (<) (map (sg_seq \<circ> fst) V0)" using assms(1) V by (simp add: sorted_wrt_append)
  from sorted_filter_suffix [OF this, of seq] obtain ys
    where ys: "V0 = ys @ filter (\<lambda>p. seq \<le> sg_seq (fst p)) V0" by (auto simp: comp_def)
  have r: "remove_view V seq = filter (\<lambda>p. seq \<le> sg_seq (fst p)) V0 @ [p]"
    by (simp add: remove_view_def V)
  show ?thesis
  proof (intro exI conjI)
    show "V = ys @ remove_view V seq" using ys r V by (metis append.assoc)
    show "remove_view V seq \<noteq> []" "last (remove_view V seq) = last V" using r V by simp_all
  qed
qed

lemma read_view_suffix:
  assumes "sorted_wrt (<) (map (sg_seq \<circ> fst) V)" and "V \<noteq> []" and "minSeq \<le> sg_seq (fst (last V))"
  shows "\<exists>V1 V2. V = V1 @ V2 \<and> V2 \<noteq> [] \<and> read_view V minSeq = all_recs V2"
proof -
  let ?V2 = "filter (\<lambda>p. minSeq \<le> sg_seq (fst p)) V"
  obtain V1 where "V = V1 @ ?V2" using sorted_filter_suffix [OF assms(1), of minSeq] by (auto simp: comp_def)
  moreover have "last V \<in> set ?V2" using assms(2,3) by simp
  then have "?V2 \<noteq> []" by (metis empty_iff list.set(1))
  moreover have "read_view V minSeq = all_recs ?V2" unfolding read_view_def ..
  ultimately show ?thesis by blast
qed

section \<open>What is on disk\<close>

lemma wal_rep_found: "wal_rep w V \<Longrightarrow> wal_found w V []"
proof -
  assume rep: "wal_rep w V"
  then obtain V' sg rs where V: "V = V' @ [(sg, rs)]" using wal_rep_snoc by blast
  have "found_file rs [] = durable rs" by (simp add: found_file_def durable_def)
  then show ?thesis using rep unfolding wal_found_def wal_rep_def V by (simp add: torn_tail_def)
qed

lemma disk_hs_found:
  assumes "wal_found (rs_wal s) V tail"
  shows "disk_hs pb s = last_hs pb None (all_recs V)"
proof -
  obtain V' sg rs where V: "V = V' @ [(sg, rs)]"
    using assms by (cases V rule: rev_cases) (auto simp: wal_found_def)
  let ?recs = "\<lambda>sg. case map_of (files (rs_wal s)) sg of
    None \<Rightarrow> [] | Some f \<Rightarrow> fst (readSegment collect [] 0 (f_data f))"
  have ok: "\<forall>p \<in> set V. \<forall>r \<in> set (snd p). rec_ok r" using assms by (simp add: wal_found_def)
  have "?recs (fst p) = snd p" if p: "p \<in> set V'" for p
  proof -
    have "map_of (files (rs_wal s)) (fst p) = Some (durable (snd p))"
      using assms p V by (simp add: wal_found_def)
    moreover have "readSegment collect [] 0 (encode_all (snd p)) = (snd p, length (encode_all (snd p)), None)"
      using readSegment_all [of "snd p" collect "[]" "snd p" 0 "[]"] ok p V by simp
    ultimately show ?thesis by (simp add: durable_def)
  qed
  moreover have "?recs sg = rs"
  proof -
    have "map_of (files (rs_wal s)) sg = Some (found_file rs tail)" "torn_tail tail"
      using assms V by (simp_all add: wal_found_def)
    moreover have "fst (readSegment collect [] 0 (encode_all rs @ tail)) = rs"
      using readSegment_all [of rs collect "[]" rs 0 tail] ok V
      by (simp add: torn_tail_read [OF calculation(2)])
    ultimately show ?thesis by (simp add: found_file_def)
  qed
  ultimately have "map ?recs (segments (rs_wal s)) = map snd V"
    using assms V by (simp add: wal_found_def)
  then show ?thesis by (simp add: disk_hs_def)
qed

lemma disk_hs_rep: "rs_rep pb s V \<Longrightarrow> disk_hs pb s = rs_hs s"
  using disk_hs_found [OF wal_rep_found] by (auto simp: rs_rep_def)

lemma wal_rep_sorted: "wal_rep w V \<Longrightarrow> sorted_wrt (<) (map (sg_seq \<circ> fst) V) \<and> V \<noteq> []"
  by (simp add: wal_rep_def)

lemma remove_rep_view:
  assumes "wal_rep w V"
  shows "\<exists>w'. RemoveBefore seq w = (w', Inr ()) \<and> wal_rep w' (remove_view V seq) \<and> segmentSize w' = segmentSize w"
proof -
  obtain V' sg rs where V: "V = V' @ [(sg, rs)]" using wal_rep_snoc [OF assms] by blast
  show ?thesis using remove_rep [OF assms [unfolded V], of seq] by (simp add: V)
qed

section \<open>Garbage collection, rotation, saving\<close>

lemma rm_snap_ok:
  "faults (rs_wal s) = [] \<Longrightarrow> rm_snap k s = s\<lparr>rs_snaps := AList.delete k (rs_snaps s)\<rparr>"
  by (simp add: rm_snap_def rs_sys_def)

lemma fold_rm_snap_ok:
  "faults (rs_wal s) = [] \<Longrightarrow>
   fold rm_snap ks s = s\<lparr>rs_snaps := filter (\<lambda>p. fst p \<notin> set ks) (rs_snaps s)\<rparr>"
proof (induction ks arbitrary: s)
  case (Cons k ks)
  then show ?case by (auto simp: rm_snap_ok AList.delete_eq case_prod_beta intro!: filter_cong
        arg_cong [where f = "\<lambda>x. s\<lparr>rs_snaps := x\<rparr>"])
qed (cases s, simp)

lemma mins_ok_less:
  assumes "mins_ok pb s seq" and "seq \<le> seq'" and "rs_meta s' = rs_meta s"
    and "\<And>k buf. map_of (rs_snaps s') k = Some buf \<Longrightarrow> map_of (rs_snaps s) k = Some buf"
  shows "mins_ok pb s' seq'"
  unfolding mins_ok_def
proof (intro conjI allI impI)
  show "sm_minWalSegment m \<le> seq'" if "rs_meta s' = Some m" for m
    using assms(1,3) that le_trans [OF _ assms(2)] by (simp add: mins_ok_def)
  show "sm_minWalSegment m \<le> seq'" if "map_of (rs_snaps s') k = Some buf" "readSnapshotFile pb buf = Inr (m, dat)"
    for k buf m dat
    using assms(1,2) assms(4) [OF that(1)] that(2) unfolding mins_ok_def by (meson le_trans)
qed

lemma mins_ok_update [simp]:
  "mins_ok pb (s\<lparr>rs_wal := w\<rparr>) = mins_ok pb s" "mins_ok pb (s\<lparr>rs_hs := h\<rparr>) = mins_ok pb s"
  "mins_ok pb (s\<lparr>rs_lastIndex := n\<rparr>) = mins_ok pb s" "mins_ok pb (note_saved hs es s) = mins_ok pb s"
  by (simp_all add: mins_ok_def fun_eq_iff note_saved_def)

text \<open>What garbage collection leaves of a list of segments.\<close>

definition gc_view :: "SnapshotMeta option \<Rightarrow> (Segment \<times> WalRecord list) list
    \<Rightarrow> (Segment \<times> WalRecord list) list" where
  "gc_view meta V =
     (case meta of None \<Rightarrow> V
      | Some m \<Rightarrow> remove_view V (gc_bound (sm_index m) (map fst V) (sm_minWalSegment m)))"

lemma gc_view_suffix:
  assumes "sorted_wrt (<) (map (sg_seq \<circ> fst) V)" and "V \<noteq> []"
  shows "\<exists>V1. V = V1 @ gc_view meta V \<and> gc_view meta V \<noteq> [] \<and> last (gc_view meta V) = last V"
  using assms remove_view_suffix [OF assms] by (cases meta) (simp_all add: gc_view_def)

lemma gc_wal:
  assumes wr: "wal_rep (rs_wal s) V"
  shows "\<exists>w P. gcLocked s = (s\<lparr>rs_wal := w, rs_snaps := filter (\<lambda>p. P (fst p)) (rs_snaps s)\<rparr>, Inr ()) \<and>
    wal_rep w (gc_view (rs_meta s) V) \<and> (\<forall>k. gc_safe (rs_meta s) k \<longrightarrow> P k) \<and>
    segmentSize w = segmentSize (rs_wal s)"
proof (cases "rs_meta s")
  case None
  then show ?thesis
    using wr by (intro exI [of _ "rs_wal s"] exI [of _ "\<lambda>_. True"]) (simp add: gcLocked_def gc_view_def)
next
  case (Some m)
  let ?seq = "gc_bound (sm_index m) (map fst V) (sm_minWalSegment m)"
  let ?drop = "\<lambda>k. k \<noteq> snapshotPath m \<and> fst k \<le> sm_index m"
  have seg: "segments (rs_wal s) = map fst V" using wr by (simp add: wal_rep_def)
  obtain w where w: "RemoveBefore ?seq (rs_wal s) = (w, Inr ())" "wal_rep w (remove_view V ?seq)"
      "segmentSize w = segmentSize (rs_wal s)"
    using remove_rep_view [OF wr] by blast
  have "faults (rs_wal (s\<lparr>rs_wal := w\<rparr>)) = []" using w(2) by (simp add: wal_rep_def)
  from fold_rm_snap_ok [OF this] have
    "gcLocked s = (s\<lparr>rs_wal := w, rs_snaps :=
       filter (\<lambda>p. fst p \<notin> set (filter ?drop (snapshotFiles (s\<lparr>rs_wal := w\<rparr>)))) (rs_snaps s)\<rparr>, Inr ())"
    using Some w(1) by (simp add: gcLocked_def seg on_wal_def io_bind_def gc_snaps_def)
  moreover have "k \<notin> set (filter ?drop (snapshotFiles (s\<lparr>rs_wal := w\<rparr>)))" if "gc_safe (rs_meta s) k" for k
    using that Some by (auto simp: gc_safe_def)
  ultimately show ?thesis
    using w(2,3) Some
    by (intro exI [of _ w] exI [of _ "\<lambda>k. k \<notin> set (filter ?drop (snapshotFiles (s\<lparr>rs_wal := w\<rparr>)))"])
       (simp add: gc_view_def)
qed

lemma gc_rep:
  assumes rep: "rs_rep pb s V"
  shows "\<exists>s'. gcLocked s = (s', Inr ()) \<and> rs_rep pb s' (gc_view (rs_meta s) V)"
proof -
  have wr: "wal_rep (rs_wal s) V" using rep by (simp add: rs_rep_def)
  obtain w P where g: "gcLocked s = (s\<lparr>rs_wal := w, rs_snaps := filter (\<lambda>p. P (fst p)) (rs_snaps s)\<rparr>, Inr ())"
      "wal_rep w (gc_view (rs_meta s) V)"
    using gc_wal [OF wr] by blast
  let ?s' = "s\<lparr>rs_wal := w, rs_snaps := filter (\<lambda>p. P (fst p)) (rs_snaps s)\<rparr>"
  obtain V1 where V: "V = V1 @ gc_view (rs_meta s) V" "gc_view (rs_meta s) V \<noteq> []"
      "last (gc_view (rs_meta s) V) = last V"
    using gc_view_suffix [of V "rs_meta s"] wal_rep_sorted [OF wr] by blast
  have h: "heads_ok pb None (gc_view (rs_meta s) V) \<and>
      last_hs pb None (all_recs (gc_view (rs_meta s) V)) = last_hs pb None (all_recs V)"
    using heads_ok_suffix [of pb V1 "gc_view (rs_meta s) V"] rep V by (simp add: rs_rep_def)
  have "mins_ok pb s (sg_seq (fst (last V)))" using rep by (simp add: rs_rep_def)
  then have "mins_ok pb ?s' (sg_seq (fst (last V)))"
    by (rule mins_ok_less) (auto simp: map_of_filter_keys split: if_splits)
  then show ?thesis using rep g h V(3) by (simp add: rs_rep_def)
qed

lemma hardStateRecord_ok:
  assumes "pb_ok pb" and "hardStateRecord pb h = Inr r"
  shows "rec_ok r" and "hs_step pb h0 r = Some h"
  using assms
  by (auto simp: hardStateRecord_def pb_ok_def fits_def rec_ok_def hs_step_def codec_okD split: option.splits)

lemma hs_records_ok:
  assumes "pb_ok pb" and "hs_records pb hs = Inr rs"
  shows "\<forall>r \<in> set rs. rec_ok r" and "last_hs pb h rs = (case hs of None \<Rightarrow> h | Some x \<Rightarrow> Some x)"
    and "hs \<noteq> None \<Longrightarrow> \<exists>r. rs = [r] \<and> hs_step pb None r = hs"
  using assms by (auto simp: hs_records_def hardStateRecord_ok elim!: bind_resE split: option.splits)

lemma entry_records_ok:
  assumes "pb_ok pb" and "entry_records pb es = Inr rs"
  shows "(\<forall>r \<in> set rs. rec_ok r) \<and> last_hs pb h rs = h"
  using assms(2)
proof (induction es arbitrary: rs)
  case (Cons e es)
  then obtain b rs' where b: "entry_Marshal pb e = Some b" "entry_records pb es = Inr rs'"
      "rs = \<lparr>w_type = recEntry, w_data = b\<rparr> # rs'"
    by (auto elim!: bind_resE split: option.splits)
  then show ?case
    using Cons.IH [OF b(2)] assms(1)
    by (auto simp: pb_ok_def fits_def rec_ok_def hs_step_def recEntry_def recHardState_def)
qed simp

lemma save_records_ok:
  assumes "pb_ok pb" and "save_records pb hs es = Inr rs"
  shows "\<forall>r \<in> set rs. rec_ok r" and "last_hs pb h rs = (case hs of None \<Rightarrow> h | Some x \<Rightarrow> Some x)"
proof -
  obtain a b where ab: "hs_records pb hs = Inr a" "entry_records pb es = Inr b" "rs = a @ b"
    using assms(2) by (auto simp: save_records_def elim!: bind_resE)
  show "\<forall>r \<in> set rs. rec_ok r" and "last_hs pb h rs = (case hs of None \<Rightarrow> h | Some x \<Rightarrow> Some x)"
    using hs_records_ok(1,2) [OF assms(1) ab(1)] entry_records_ok [OF assms(1) ab(2)] ab(3)
    by (auto simp: ball_Un)
qed

lemma rotate_ok:
  assumes "pb_ok pb" and rep: "rs_rep pb s V" and "rotateLocked pb s = (s', Inr u)"
  shows "\<exists>sg head. rs_rep pb s' (V @ [(sg, head)]) \<and> sg_tag sg = rs_lastIndex s + 1 \<and>
    sg_seq sg = sg_seq (fst (last V)) + 1 \<and> hs_records pb (rs_hs s) = Inr head"
proof -
  have wr: "wal_rep (rs_wal s) V" using rep by (simp add: rs_rep_def)
  obtain V' sg0 rs where V: "V = V' @ [(sg0, rs)]" using wal_rep_snoc [OF wr] by blast
  obtain head where head: "hs_records pb (rs_hs s) = Inr head"
    using assms(3) by (auto simp: rotateLocked_def split: sum.splits)
  note h = hs_records_ok [OF assms(1) head]
  let ?sg = "\<lparr>sg_seq = sg_seq sg0 + 1, sg_tag = rs_lastIndex s + 1\<rparr>"
  obtain w where w: "Rotate (rs_lastIndex s + 1) head (rs_wal s) = (w, Inr (sg_seq sg0 + 1))"
      "wal_rep w (V @ [(?sg, head)])"
    using rotate_rep [OF wr [unfolded V] h(1)] V by auto
  have s': "s' = s\<lparr>rs_wal := w\<rparr>"
    using assms(3) head w(1) by (simp add: rotateLocked_def io_bind_def on_wal_def)
  have l: "rs_hs s = last_hs pb None (all_recs V)" "heads_ok pb None V" using rep by (simp_all add: rs_rep_def)
  have "rs_hs s = None \<or> (\<exists>r. head = [r] \<and> hs_step pb None r = rs_hs s)" using h(3) by blast
  then have "heads_ok pb None (V @ [(?sg, head)])" "last_hs pb (rs_hs s) head = rs_hs s"
    using l h(2) [of "rs_hs s"] by (auto simp: heads_ok_append split: option.splits)
  moreover have "mins_ok pb s (sg_seq sg0)" using rep V by (simp add: rs_rep_def)
  then have "mins_ok pb s' (sg_seq sg0 + 1)" by (rule mins_ok_less) (simp_all add: s')
  ultimately show ?thesis
    using rep w(2) head V by (intro exI [of _ ?sg] exI [of _ head]) (simp add: rs_rep_def s')
qed

lemma rotate_if_full_ok:
  assumes "pb_ok pb" and "rs_rep pb s V" and "rotate_if_full pb s = (s', Inr u)"
  shows "\<exists>V'. rs_rep pb s' V'"
proof (cases "ShouldRotate (rs_wal s)")
  case True
  then obtain s1 where s1: "rotateLocked pb s = (s1, Inr ())" "gcLocked s1 = (s', Inr u)"
    using assms(3) by (auto simp: rotate_if_full_def elim!: io_bind_cases)
  obtain V1 where "rs_rep pb s1 V1" using rotate_ok [OF assms(1,2) s1(1)] by blast
  then show ?thesis using gc_rep [of pb s1 V1] s1(2) by auto
next
  case False
  then show ?thesis using assms by (auto simp: rotate_if_full_def)
qed

lemma Save_rep:
  assumes "pb_ok pb" and rep: "rs_rep pb s V" and "rs_Save pb hs es s = (s', Inr u)"
  shows "\<exists>V'. rs_rep pb s' V'" and "rs_hs s' = (case hs of None \<Rightarrow> rs_hs s | Some h \<Rightarrow> Some h)"
proof -
  have wr: "wal_rep (rs_wal s) V" using rep by (simp add: rs_rep_def)
  obtain V' sg rs where V: "V = V' @ [(sg, rs)]" using wal_rep_snoc [OF wr] by blast
  obtain recs where recs: "save_records pb hs es = Inr recs"
    using assms(3) by (auto simp: rs_Save_def split: sum.splits)
  note r = save_records_ok [OF assms(1) recs]
  obtain w where w: "Append recs (rs_wal s) = (w, Inr ())" "wal_rep w (V' @ [(sg, rs @ recs)])"
    using append_rep [OF wr [unfolded V] r(1)] by (auto simp: Append_def)
  let ?s = "note_saved hs es (s\<lparr>rs_wal := w\<rparr>)"
  have f: "rotate_if_full pb ?s = (s', Inr u)"
    using assms(3) recs w(1) by (simp add: rs_Save_def io_bind_def on_wal_def)
  have "rs_rep pb ?s (V' @ [(sg, rs @ recs)])"
    using rep w(2) r(2) heads_ok_extend [of pb V' sg rs recs] V
    by (cases hs) (simp_all add: rs_rep_def, simp_all add: note_saved_def)
  from rotate_if_full_ok [OF assms(1) this f] show "\<exists>V'. rs_rep pb s' V'" .
  show "rs_hs s' = (case hs of None \<Rightarrow> rs_hs s | Some h \<Rightarrow> Some h)"
    using rotate_if_full_frame(2) [OF f] by (cases hs) (simp_all add: note_saved_def)
qed

section \<open>Snapshots\<close>

lemma rs_rep_faults: "rs_rep pb s V \<Longrightarrow> faults (rs_wal s) = []"
  by (simp add: rs_rep_def wal_rep_def)

lemma rs_rep_lastIndex: "rs_rep pb (s\<lparr>rs_lastIndex := n\<rparr>) V \<longleftrightarrow> rs_rep pb s V"
  by (simp add: rs_rep_def)

lemma snapshot_begin_ok:
  assumes "pb_ok pb" and rep: "rs_rep pb s V" and "sm_minWalSegment meta = 0"
    and "snapshot_begin pb meta discard s = (s1, Inr (Some meta1))"
  shows "\<exists>V1. rs_rep pb s1 V1 \<and> sm_minWalSegment meta1 \<le> sg_seq (fst (last V1))"
    and "rs_hs s1 = rs_hs s"
proof -
  have min: "sm_minWalSegment m \<le> sg_seq (fst (last V))" if "rs_meta s = Some m" for m
    using rep that by (simp add: rs_rep_def mins_ok_def)
  let ?s = "s\<lparr>rs_lastIndex := sm_index meta\<rparr>"
  have "(\<exists>V1. rs_rep pb s1 V1 \<and> sm_minWalSegment meta1 \<le> sg_seq (fst (last V1))) \<and> rs_hs s1 = rs_hs s"
  proof (cases discard)
    case False
    then have "s1 = s" "sm_minWalSegment meta1 \<le> sg_seq (fst (last V))"
      using assms(3,4) min by (auto simp: snapshot_begin_def Let_def split: if_splits option.splits)
    then show ?thesis using rep by auto
  next
    case True
    then have s1: "rotateLocked pb ?s = (s1, Inr ())"
        and m: "sm_minWalSegment meta1 = sg_seq (last (segments (rs_wal s1)))"
      using assms(4) by (auto simp: snapshot_begin_def Let_def elim!: io_bind_cases split: if_splits)
    obtain V1 where V1: "rs_rep pb s1 V1"
      using rotate_ok [OF assms(1) _ s1] rep rs_rep_lastIndex by blast
    then have "last (segments (rs_wal s1)) = fst (last V1)" by (simp add: rs_rep_def wal_rep_def last_map)
    then show ?thesis using V1 m rotateLocked_frame(2) [OF s1] by auto
  qed
  then show "\<exists>V1. rs_rep pb s1 V1 \<and> sm_minWalSegment meta1 \<le> sg_seq (fst (last V1))"
    and "rs_hs s1 = rs_hs s" by simp_all
qed

lemma snapshot_begin_None: "snapshot_begin pb meta discard s = (s1, Inr None) \<Longrightarrow> s1 = s"
  by (auto simp: snapshot_begin_def Let_def elim!: io_bind_cases split: if_splits)

lemma write_no_faults:
  assumes "faults (rs_wal s) = []" and "writeSnapshotFile pb meta dat s = (s', r)"
  shows "rs_wal s' = rs_wal s" and "r = Inl e \<Longrightarrow> s' = s"
  using assms
  by (auto simp: writeSnapshotFile_def Let_def tmp_write_def tmp_rename_def rs_sys_def io_bind_def
      split: option.splits)

lemma write_rep:
  assumes "pb_ok pb" and rep: "rs_rep pb s V" and "sm_minWalSegment meta \<le> sg_seq (fst (last V))"
    and w: "writeSnapshotFile pb meta dat s = (s', Inr u)"
  shows "rs_rep pb s' V" and "rs_hs s' = rs_hs s"
proof -
  obtain mb where mb: "meta_Marshal pb meta = Some mb"
      "rs_snaps s' = AList.update (snapshotPath meta) (snapshot_bytes mb dat) (rs_snaps s)"
    using writeSnapshotFile_ok(1) [OF w] by blast
  have "length mb \<le> maxRecordSize" "meta_Unmarshal pb mb = Some meta"
    using assms(1) mb(1) by (auto simp: pb_ok_def fits_def codec_okD)
  then have "m = meta" if "readSnapshotFile pb (snapshot_bytes mb dat) = Inr (m, d)" for m d
    using that readSnapshotFile_bytes [of mb pb dat] by (auto simp: maxRecordSize_def split: if_splits)
  then have "mins_ok pb s' (sg_seq (fst (last V)))"
    using rep assms(3) unfolding rs_rep_def mins_ok_def writeSnapshotFile_ok(2) [OF w] mb(2)
    by (auto split: if_splits)
  then show "rs_rep pb s' V"
    using rep writeSnapshotFile_ok(3) [OF w] write_no_faults(1) [OF rs_rep_faults [OF rep] w]
    by (simp add: rs_rep_def)
qed (rule writeSnapshotFile_ok(3) [OF w])

lemma publish_rep:
  assumes rep: "rs_rep pb s V" and "sm_minWalSegment meta \<le> sg_seq (fst (last V))"
  shows "\<exists>s' V'. snapshot_publish meta s = (s', Inr ()) \<and> rs_rep pb s' V' \<and> rs_hs s' = rs_hs s"
proof -
  let ?s = "if (case rs_meta s of None \<Rightarrow> True | Some m \<Rightarrow> sm_index meta > sm_index m)
    then s\<lparr>rs_meta := Some meta\<rparr> else s"
  have "rs_rep pb ?s V" using assms by (simp add: rs_rep_def mins_ok_def)
  then obtain s' V' where g: "gcLocked ?s = (s', Inr ())" "rs_rep pb s' V'" using gc_rep by blast
  then show ?thesis using gcLocked_frame(2) [OF g(1)] by (auto simp: snapshot_publish_def)
qed

lemma SaveSnapshot_rep:
  assumes "pb_ok pb" and rep: "rs_rep pb s V" and "sm_minWalSegment meta = 0"
    and "rs_SaveSnapshot pb meta dat discard s = (s', r)" and "(\<exists>e. r = Inl e) \<longrightarrow> \<not> discard"
  shows "(\<exists>V'. rs_rep pb s' V') \<and> rs_hs s' = rs_hs s"
  using assms(4) [unfolded rs_SaveSnapshot_def]
proof (cases rule: io_bind_cases)
  case (failed e)
  then show ?thesis using assms(5) by (auto simp: snapshot_begin_def Let_def split: if_splits)
next
  case (went_on s1 m)
  show ?thesis
  proof (cases m)
    case None
    then show ?thesis using went_on snapshot_begin_None [of pb meta discard s s1] rep by auto
  next
    case (Some meta1)
    obtain V1 where V1: "rs_rep pb s1 V1" "sm_minWalSegment meta1 \<le> sg_seq (fst (last V1))" "rs_hs s1 = rs_hs s"
      using snapshot_begin_ok [OF assms(1) rep assms(3)] went_on(1) Some by blast
    have "io_bind (writeSnapshotFile pb meta1 dat) (\<lambda>_. snapshot_publish meta1) s1 = (s', r)"
      using went_on(2) Some by simp
    then show ?thesis
    proof (cases rule: io_bind_cases)
      case (failed e)
      then have "s' = s1" using write_no_faults(2) [OF rs_rep_faults [OF V1(1)]] by blast
      then show ?thesis using V1 by auto
    next
      case (went_on s2 u)
      note w = write_rep [OF assms(1) V1(1,2) went_on(1)]
      then show ?thesis using publish_rep [OF w(1) V1(2)] went_on(2) V1(3) by auto
    qed
  qed
qed

section \<open>Loading\<close>

text \<open>A callback that fails makes \<open>ReadAll\<close> fail.\<close>

lemma readSegment_fail:
  assumes "\<forall>r \<in> set rs. rec_ok r" and "feed fn st rs = Inl e"
  shows "\<exists>st' off'. readSegment fn st off (encode_all rs @ bs) = (st', off', Some e)"
  using assms
proof (induction rs arbitrary: st off)
  case (Cons r rs)
  show ?case
  proof (cases "fn r st")
    case (Inl e')
    then show ?thesis using Cons.prems by (simp add: readSegment_record)
  next
    case (Inr st1)
    then show ?thesis using Cons.prems Cons.IH [of st1] by (simp add: readSegment_record)
  qed
qed simp

lemma read_segs_fail:
  assumes "\<forall>p \<in> set V. (\<forall>r \<in> set (snd p). rec_ok r) \<and>
      (\<exists>f. map_of (files w) (fst p) = Some f \<and> f_data f = encode_all (snd p))"
    and "feed fn st (read_view V minSeq) = Inl e" and "e \<noteq> ErrTorn"
  shows "\<exists>w' st'. read_segs minSeq fn st (map fst V @ sgs) w = (w', st', Some e)"
  using assms(1,2)
proof (induction V arbitrary: st)
  case (Cons p V)
  show ?case
  proof (cases "sg_seq (fst p) < minSeq")
    case True
    then show ?thesis using Cons by (simp add: read_view_def)
  next
    case False
    then have rv: "read_view (p # V) minSeq = snd p @ read_view V minSeq" by (simp add: read_view_def)
    obtain f where f: "map_of (files w) (fst p) = Some f" "f_data f = encode_all (snd p)"
      using Cons.prems(1) by auto
    show ?thesis
    proof (cases "feed fn st (snd p)")
      case (Inl e')
      then obtain st' off' where "readSegment fn st 0 (f_data f) = (st', off', Some e)"
        using readSegment_fail [of "snd p" fn st e 0 "[]"] Cons.prems f(2) by (auto simp: rv feed_append)
      then show ?thesis using False f(1) assms(3) by simp
    next
      case (Inr st1)
      have "readSegment fn st 0 (f_data f) = (st1, length (f_data f), None)"
        using readSegment_all [OF _ Inr, of 0 "[]"] Cons.prems(1) f(2) by simp
      then show ?thesis using Cons.IH [of st1] Cons.prems Inr False f(1) by (simp add: rv feed_append)
    qed
  qed
qed (simp add: read_view_def)

lemma readall_fail:
  assumes found: "wal_found w (V @ [(sg, rs)]) tail" and "minSeq \<le> sg_seq sg"
    and "feed fn st (read_view (V @ [(sg, rs)]) minSeq) = Inl e" and "e \<noteq> ErrTorn"
  shows "\<exists>w' st'. ReadAll minSeq fn st w = (w', st', Some e)"
proof -
  have V: "\<forall>p \<in> set V. (\<forall>r \<in> set (snd p). rec_ok r) \<and>
      (\<exists>f. map_of (files w) (fst p) = Some f \<and> f_data f = encode_all (snd p))"
    and l: "map_of (files w) sg = Some (found_file rs tail)" "\<forall>r \<in> set rs. rec_ok r"
      "segments w = map fst V @ [sg]"
    using found by (auto simp: wal_found_def durable_def)
  have rv: "read_view (V @ [(sg, rs)]) minSeq = read_view V minSeq @ rs"
    using assms(2) by (simp add: read_view_def)
  show ?thesis
  proof (cases "feed fn st (read_view V minSeq)")
    case (Inl e')
    then show ?thesis
      using read_segs_fail [OF V _ assms(4), of fn st minSeq "[sg]"] assms(3) l(3)
      by (simp add: rv feed_append ReadAll_def)
  next
    case (Inr st1)
    then have "feed fn st1 rs = Inl e" using assms(3) by (simp add: rv feed_append)
    then obtain st' off' where "readSegment fn st1 0 (encode_all rs @ tail) = (st', off', Some e)"
      using readSegment_fail [OF l(2), of fn st1 e 0 tail] by blast
    then show ?thesis
      using read_segs_prefix [OF V Inr, of "[sg]"] l assms(2,4)
      by (simp add: ReadAll_def found_file_def)
  qed
qed

lemma load_record_hs:
  "load_record pb i r (h, es) = Inr (h', es') \<Longrightarrow> h' = hs_step pb h r"
  "load_record pb i r st = Inl e \<Longrightarrow> e \<noteq> ErrTorn"
  by (auto simp: load_record_def hs_step_def Let_def split: if_splits option.splits)

lemma feed_load_hs:
  "feed (load_record pb i) (h, es) rs = Inr (h', es') \<Longrightarrow> h' = last_hs pb h rs"
proof (induction rs arbitrary: h es)
  case (Cons r rs)
  then obtain h1 es1 where 1: "load_record pb i r (h, es) = Inr (h1, es1)"
      "feed (load_record pb i) (h1, es1) rs = Inr (h', es')"
    by (auto elim!: bind_resE)
  then show ?case using Cons.IH load_record_hs(1) by fastforce
qed simp

lemma feed_load_err: "feed (load_record pb i) st rs = Inl e \<Longrightarrow> e \<noteq> ErrTorn"
  by (induction rs arbitrary: st) (auto simp: bind_res_def dest: load_record_hs(2) split: sum.splits)

text \<open>What \<open>ReadAll\<close> gives \<open>Load\<close>, in full: success exactly when the replay succeeds.\<close>

lemma readall_load:
  assumes found: "wal_found w V tail" and "minSeq \<le> sg_seq (fst (last V))"
    and "ReadAll minSeq (load_record pb i) st w = (w', st', None)"
  shows "wal_rep w' V" and "feed (load_record pb i) st (read_view V minSeq) = Inr st'"
proof -
  obtain V' sg rs where V: "V = V' @ [(sg, rs)]"
    using found by (cases V rule: rev_cases) (auto simp: wal_found_def)
  have min: "minSeq \<le> sg_seq sg" using assms(2) V by simp
  obtain st1 where st1: "feed (load_record pb i) st (read_view V minSeq) = Inr st1"
    using readall_fail [OF found [unfolded V] min, of "load_record pb i" st] feed_load_err assms(3)
    by (cases "feed (load_record pb i) st (read_view V minSeq)") (auto simp: V)
  then show "wal_rep w' V" and "feed (load_record pb i) st (read_view V minSeq) = Inr st'"
    using readall_found [OF found [unfolded V] min st1 [unfolded V]] assms(3) by (auto simp: V)
qed

lemma fold_rm_tmp_ok:
  "faults (rs_wal s) = [] \<Longrightarrow> \<exists>t. fold rm_tmp ks s = s\<lparr>rs_tmps := t\<rparr>"
proof (induction ks arbitrary: s)
  case Nil
  then show ?case by (intro exI [of _ "rs_tmps s"]) simp
next
  case (Cons k ks)
  let ?s = "s\<lparr>rs_tmps := AList.delete k (rs_tmps s)\<rparr>"
  have "rm_tmp k s = ?s" using Cons.prems by (simp add: rm_tmp_def rs_sys_def)
  then show ?case using Cons.IH [of ?s] Cons.prems by auto
qed

lemma loadNewest_ok:
  assumes "faults (rs_wal s) = []" and "loadNewestSnapshot pb s = (s1, Inr (meta, dat))"
  shows "\<exists>t. s1 = s\<lparr>rs_tmps := t\<rparr>"
    and "meta = Some m \<Longrightarrow> \<exists>k buf. map_of (rs_snaps s) k = Some buf \<and> readSnapshotFile pb buf = Inr (m, dat)"
proof -
  obtain t where t: "fold rm_tmp (map fst (rs_tmps s)) s = s\<lparr>rs_tmps := t\<rparr>"
    using fold_rm_tmp_ok [OF assms(1)] by blast
  show "\<exists>t. s1 = s\<lparr>rs_tmps := t\<rparr>"
    using assms(2) t [symmetric]
    by (auto simp: loadNewestSnapshot_def Let_def split: if_splits sum.splits intro: exI [of _ t])
  show "\<exists>k buf. map_of (rs_snaps s) k = Some buf \<and> readSnapshotFile pb buf = Inr (m, dat)"
    if "meta = Some m"
    using assms(2) t that
    by (auto simp: loadNewestSnapshot_def Let_def read_path_def simp del: split_paired_Ex
        split: if_splits sum.splits option.splits intro!: exI)
qed

lemma Load_rep:
  assumes found: "rs_found pb s V tail" and "rs_Load pb s = (s', Inr ld)"
  shows "(\<exists>V'. rs_rep pb s' V') \<and> rs_hs s' = last_hs pb None (all_recs V) \<and> ld_hardState ld = rs_hs s'"
proof -
  have wf: "wal_found (rs_wal s) V tail" and hd: "heads_ok pb None V" and nohs: "rs_hs s = None"
      and mins: "mins_ok pb s (sg_seq (fst (last V)))"
    using found by (simp_all add: rs_found_def)
  have flt: "faults (rs_wal s) = []" using wf by (simp add: wal_found_def)
  obtain s1 meta dat where l: "loadNewestSnapshot pb s = (s1, Inr (meta, dat))"
    using assms(2) by (auto simp: rs_Load_def elim!: io_bind_cases)
  obtain t where s1: "s1 = s\<lparr>rs_tmps := t\<rparr>" using loadNewest_ok(1) [OF flt l] by blast
  define i where "i = (case meta of None \<Rightarrow> 0 | Some m \<Rightarrow> sm_index m)"
  define minSeq where "minSeq = (case meta of None \<Rightarrow> 0 | Some m \<Rightarrow> sm_minWalSegment m)"
  have im: "(case meta of None \<Rightarrow> (0, 0) | Some m \<Rightarrow> (sm_index m, sm_minWalSegment m)) = (i, minSeq)"
    by (simp add: i_def minSeq_def split: option.split)
  have min: "minSeq \<le> sg_seq (fst (last V))" and mins': "\<And>m. meta = Some m \<Longrightarrow> sm_minWalSegment m \<le> sg_seq (fst (last V))"
    using loadNewest_ok(2) [OF flt l] mins by (auto simp: minSeq_def mins_ok_def split: option.split)
  obtain w h es where r: "ReadAll minSeq (load_record pb i) (None, []) (rs_wal s) = (w, (h, es), None)"
      and g: "gcLocked (s1\<lparr>rs_meta := meta, rs_wal := w, rs_hs := h, rs_lastIndex := i + length es\<rparr>) = (s', Inr ())"
      and ld: "ld_hardState ld = h"
    using assms(2) unfolding rs_Load_def
    by (auto simp: l im Let_def s1 nohs elim!: io_bind_cases split: prod.splits option.splits)
  note rr = readall_load [OF wf min r]
  have h: "h = last_hs pb None (all_recs V)"
  proof -
    obtain V1 V2 where V: "V = V1 @ V2" "V2 \<noteq> []" "read_view V minSeq = all_recs V2"
      using read_view_suffix [OF _ _ min] wal_rep_sorted [OF rr(1)] by blast
    then show ?thesis using feed_load_hs [OF rr(2)] heads_ok_suffix [of pb V1 V2] hd by simp
  qed
  let ?s = "s1\<lparr>rs_meta := meta, rs_wal := w, rs_hs := h, rs_lastIndex := i + length es\<rparr>"
  have "mins_ok pb ?s (sg_seq (fst (last V)))" using mins mins' by (simp add: mins_ok_def s1)
  then have "rs_rep pb ?s V" using rr(1) hd h by (simp add: rs_rep_def)
  then obtain V' where "rs_rep pb s' V'" using gc_rep g by (metis prod.inject)
  then show ?thesis using gcLocked_frame(2) [OF g] h ld by auto
qed

section \<open>The contract\<close>

lemma crash_found:
  assumes "rs_rep pb s V" and "rs_crash pb s s'"
  shows "\<exists>V' tail. rs_found pb s' V' tail \<and> last_hs pb None (all_recs V') = rs_hs s"
proof -
  obtain ss recs k tmps where c: "\<forall>r \<in> set recs. rec_ok r \<and> w_type r = recEntry"
      "rs_Open ss True (crash_append (rs_wal s) recs k) (rs_snaps s) tmps [] = Inr s'"
    using assms(2) by (auto simp: rs_crash_def)
  have wr: "wal_rep (rs_wal s) V" using assms(1) by (simp add: rs_rep_def)
  obtain V0 sg rs where V: "V = V0 @ [(sg, rs)]" using wal_rep_snoc [OF wr] by blast
  let ?V = "V0 @ [(sg, rs @ whole k recs)]"
  obtain w tail where w: "wal_Open ss True (crash_append (rs_wal s) recs k) [] = Inr w" "wal_found w ?V tail"
    using crash_append_found [OF wr [unfolded V]] c(1) by blast
  have s': "s' = \<lparr>rs_wal = w, rs_hs = None, rs_meta = None, rs_lastIndex = 0, rs_snaps = rs_snaps s, rs_tmps = tmps\<rparr>"
    using c(2) w(1) by (simp add: rs_Open_def)
  have "last_hs pb h rs' = h" if "\<forall>r \<in> set rs'. w_type r = recEntry" for h rs'
    using that by (induction rs') (auto simp: hs_step_def recEntry_def recHardState_def)
  moreover have "\<forall>r \<in> set (whole k recs). w_type r = recEntry"
    using whole_prefix [of recs k] c(1) by (metis Un_iff set_append)
  ultimately have "last_hs pb None (all_recs ?V) = rs_hs s" using assms(1) V by (simp add: rs_rep_def)
  moreover have "rs_found pb s' ?V tail"
    using assms(1) w(2) V heads_ok_extend [of pb V0 sg rs] by (simp add: rs_found_def rs_rep_def s' mins_ok_def)
  ultimately show ?thesis by blast
qed

lemma raftstore_keeps_hard_state:
  assumes pb: "pb_ok pb"
  shows "hard_state_storage (rs_ops pb) (rs_fresh pb) (rs_ok pb) (rs_crash pb) (disk_hs pb)"
proof unfold_locales
  fix s s' ld assume "rs_fresh pb s" and "st_Load (rs_ops pb) s = Inr (s', ld)"
  then obtain V tail where V: "rs_found pb s V tail" and l: "rs_Load pb s = (s', Inr ld)"
    by (auto simp: rs_fresh_def rs_ops_def split: prod.splits sum.splits)
  then show "rs_ok pb s' \<and> disk_hs pb s' = disk_hs pb s \<and> ld_hardState ld = disk_hs pb s"
    using Load_rep [OF V l] disk_hs_found [of s V tail pb] disk_hs_rep [of pb s']
    by (auto simp: rs_ok_def rs_found_def)
next
  fix s s' hs es assume "rs_ok pb s" and "st_Save (rs_ops pb) s hs es = Inr s'"
  then obtain V where V: "rs_rep pb s V" and sv: "rs_Save pb hs es s = (s', Inr ())"
    by (auto simp: rs_ok_def rs_ops_def split: prod.splits sum.splits)
  then show "rs_ok pb s' \<and> disk_hs pb s' = (case hs of None \<Rightarrow> disk_hs pb s | Some h \<Rightarrow> Some h)"
    using Save_rep [OF pb V sv] disk_hs_rep [of pb s'] disk_hs_rep [OF V]
    by (cases hs) (auto simp: rs_ok_def)
next
  fix s s' meta dat discard
  assume "rs_ok pb s" and min: "sm_minWalSegment meta = 0"
    and "st_SaveSnapshot (rs_ops pb) s meta dat discard = (s', None)"
  then obtain V where V: "rs_rep pb s V" and sv: "rs_SaveSnapshot pb meta dat discard s = (s', Inr ())"
    by (auto simp: rs_ok_def rs_ops_def split: prod.splits sum.splits)
  then show "rs_ok pb s' \<and> disk_hs pb s' = disk_hs pb s"
    using SaveSnapshot_rep [OF pb V min sv] disk_hs_rep [of pb s'] disk_hs_rep [OF V] by (auto simp: rs_ok_def)
next
  fix s s' meta dat e
  assume "rs_ok pb s" and min: "sm_minWalSegment meta = 0"
    and "st_SaveSnapshot (rs_ops pb) s meta dat False = (s', Some e)"
  then obtain V where V: "rs_rep pb s V" and sv: "rs_SaveSnapshot pb meta dat False s = (s', Inl e)"
    by (auto simp: rs_ok_def rs_ops_def split: prod.splits sum.splits)
  then show "rs_ok pb s' \<and> disk_hs pb s' = disk_hs pb s"
    using SaveSnapshot_rep [OF pb V min sv] disk_hs_rep [of pb s'] disk_hs_rep [OF V] by (auto simp: rs_ok_def)
next
  fix s s' assume "rs_ok pb s" and c: "rs_crash pb s s'"
  then obtain V where V: "rs_rep pb s V" by (auto simp: rs_ok_def)
  then show "rs_fresh pb s' \<and> disk_hs pb s' = disk_hs pb s"
    using crash_found [OF V c] disk_hs_found disk_hs_rep [OF V] by (fastforce simp: rs_fresh_def rs_found_def)
qed

end
