(* ===== verification/EK_ExampleCodec.thy ===== *)
theory EK_ExampleCodec
  imports EK_Durable
begin

text \<open>
  A concrete marshalling for the messages that the storage writes, and stores built with it:
  fixed-width little-endian numbers, strings and data as bytes. It meets the hypotheses that the
  properties of the storage make about marshalling, so those properties have instances.
\<close>

definition ex_codec :: pb_codec where
  "ex_codec = \<lparr>
     hs_Marshal = (\<lambda>h. if hs_term h < 2 ^ 64 \<and> length (hs_votedFor h) \<le> 1000
       then Some (le_bytes 8 (hs_term h) @ map (\<lambda>c. of_nat (of_char c)) (hs_votedFor h)) else None),
     hs_Unmarshal = (\<lambda>b. Some \<lparr>hs_term = le_val (take 8 b), hs_votedFor = map (\<lambda>w. char_of (unat w)) (drop 8 b)\<rparr>),
     entry_Marshal = (\<lambda>e. if e_index e < 2 ^ 64 \<and> e_term e < 2 ^ 64 \<and> length (e_data e) \<le> 1000000
       then Some (le_bytes 8 (e_index e) @ le_bytes 8 (e_term e) @
         (case e_type e of ENTRY_NORMAL \<Rightarrow> 0 | ENTRY_NOOP \<Rightarrow> 1) # e_data e) else None),
     entry_Unmarshal = (\<lambda>b. Some \<lparr>e_index = le_val (take 8 b), e_term = le_val (take 8 (drop 8 b)),
       e_type = (if hd (drop 16 b) = 0 then ENTRY_NORMAL else ENTRY_NOOP), e_data = drop 17 b\<rparr>),
     meta_Marshal = (\<lambda>m. if sm_index m < 2 ^ 64 \<and> sm_term m < 2 ^ 64 \<and> sm_minWalSegment m < 2 ^ 64
       then Some (le_bytes 8 (sm_index m) @ le_bytes 8 (sm_term m) @ le_bytes 8 (sm_minWalSegment m)) else None),
     meta_Unmarshal = (\<lambda>b. Some \<lparr>sm_index = le_val (take 8 b), sm_term = le_val (take 8 (drop 8 b)),
       sm_minWalSegment = le_val (drop 16 b)\<rparr>)\<rparr>"

lemma byte_char [simp]: "char_of (unat (of_nat (of_char c) :: u8)) = c"
proof -
  have "(of_char c :: nat) < 256" by simp
  then have "unat (of_nat (of_char c) :: u8) = of_char c" by (simp add: unat_of_nat)
  then show ?thesis by simp
qed

lemma ex_codec_ok: "pb_ok ex_codec"
proof -
  have "codec_ok (hs_Marshal ex_codec) (hs_Unmarshal ex_codec)"
    by (auto simp: codec_ok_def ex_codec_def comp_def map_idI)
  moreover have "codec_ok (entry_Marshal ex_codec) (entry_Unmarshal ex_codec)"
    by (auto simp: codec_ok_def ex_codec_def split: EntryType.splits if_splits)
  moreover have "codec_ok (meta_Marshal ex_codec) (meta_Unmarshal ex_codec)"
    by (auto simp: codec_ok_def ex_codec_def)
  moreover have "fits (hs_Marshal ex_codec)" "fits (entry_Marshal ex_codec)" "fits (meta_Marshal ex_codec)"
    by (auto simp: fits_def ex_codec_def maxRecordSize_def)
  ultimately show ?thesis by (simp add: pb_ok_def)
qed

section \<open>Stores with one segment\<close>

definition ex_seg :: Segment where
  "ex_seg = \<lparr>sg_seq = 1, sg_tag = 0\<rparr>"

definition ex_disk :: "nat \<Rightarrow> WalRecord list \<Rightarrow> RaftStore" where
  "ex_disk n rs = \<lparr>rs_wal = \<lparr>segmentSize = 100000, syncOpt = True, segments = [ex_seg],
       active = Some (ex_seg, True), filePos = length (encode_all rs), wsize = length (encode_all rs),
       files = [(ex_seg, durable rs)], faults = []\<rparr>,
     rs_hs = last_hs ex_codec None rs, rs_meta = None, rs_lastIndex = n, rs_snaps = [], rs_tmps = []\<rparr>"

definition ex_hs_rec :: "nat \<Rightarrow> node_id \<Rightarrow> WalRecord" where
  "ex_hs_rec t v = \<lparr>w_type = recHardState, w_data = le_bytes 8 t @ map (\<lambda>c. of_nat (of_char c)) v\<rparr>"

definition ex_entry_rec :: "nat \<Rightarrow> nat \<Rightarrow> WalRecord" where
  "ex_entry_rec i t = \<lparr>w_type = recEntry, w_data = le_bytes 8 i @ le_bytes 8 t @ [0]\<rparr>"

lemma ex_disk_rep: "\<forall>r \<in> set rs. rec_ok r \<Longrightarrow> rs_rep ex_codec (ex_disk n rs) [(ex_seg, rs)]"
  by (simp add: rs_rep_def wal_rep_def ex_disk_def mins_ok_def)

lemma ex_recs_ok [simp]: "rec_ok (ex_entry_rec i t)" "length v \<le> 1000 \<Longrightarrow> rec_ok (ex_hs_rec t v)"
  by (simp_all add: rec_ok_def ex_entry_rec_def ex_hs_rec_def maxRecordSize_def)

lemma ex_hs_step [simp]:
  "hs_step ex_codec h (ex_entry_rec i t) = h"
  "t < 2 ^ 64 \<Longrightarrow> hs_step ex_codec h (ex_hs_rec t v) = Some \<lparr>hs_term = t, hs_votedFor = v\<rparr>"
  by (simp_all add: hs_step_def ex_entry_rec_def ex_hs_rec_def recEntry_def recHardState_def ex_codec_def
      comp_def map_idI)

end
