(* ===== verification/EK_Replay.thy ===== *)
theory EK_Replay
  imports EK_ExampleCodec
begin

text \<open>
  The Raft log that the durable storage gives back after a restart. \<open>Load\<close> replays the entry
  records over the newest snapshot, an existing index replacing the tail. The lemmas show that
  replaying implements the log contract for \<open>Save\<close>, that garbage collection does not change
  what is replayed, and that a snapshot cuts the log at its index provided the log reaches
  beyond it; without that proviso entries that had been overwritten come back.
\<close>

section \<open>Replaying entries\<close>

definition replay_entry :: "nat \<Rightarrow> Entry list \<Rightarrow> Entry \<Rightarrow> Entry list option" where
  "replay_entry i es e =
     (if e_index e \<le> i then Some es
      else let pos = e_index e - i - 1 in
        if pos > length es then None else Some (take pos es @ [e]))"

fun replay :: "nat \<Rightarrow> Entry list \<Rightarrow> Entry list \<Rightarrow> Entry list option" where
  "replay i es [] = Some es"
| "replay i es (e # xs) = (case replay_entry i es e of None \<Rightarrow> None | Some es' \<Rightarrow> replay i es' xs)"

lemma replay_append:
  "replay i es (xs @ ys) = (case replay i es xs of None \<Rightarrow> None | Some es' \<Rightarrow> replay i es' ys)"
  by (induction xs arbitrary: es) (auto split: option.splits)

text \<open>Replaying over a later snapshot: as soon as the log reaches beyond the later snapshot's
  index, both runs agree on what lies beyond it, whatever the later run started with.\<close>

lemma replay_entry_later:
  assumes "replay_entry i A e = Some A1" and "i \<le> i'" and "length A > i' - i \<longrightarrow> B = drop (i' - i) A"
  shows "\<exists>B1. replay_entry i' B e = Some B1 \<and> (length A1 > i' - i \<longrightarrow> B1 = drop (i' - i) A1)"
proof (cases "e_index e \<le> i'")
  case True
  then have "replay_entry i' B e = Some B" by (simp add: replay_entry_def)
  moreover have "length A1 > i' - i \<longrightarrow> B = drop (i' - i) A1"
    using assms True by (auto simp: replay_entry_def Let_def split: if_splits)
  ultimately show ?thesis by blast
next
  case False
  let ?pos = "e_index e - i - 1" and ?d = "i' - i"
  have pos: "?pos \<le> length A" "A1 = take ?pos A @ [e]" "?d \<le> ?pos"
    using assms(1,2) False by (auto simp: replay_entry_def Let_def split: if_splits)
  have eq: "e_index e - i' - 1 = ?pos - ?d" using False assms(2) by simp
  have "take (?pos - ?d) B = drop ?d (take ?pos A)" "?pos - ?d \<le> length B"
    using pos assms(3) by (cases "length A > ?d"; simp add: drop_take)+
  then have "replay_entry i' B e = Some (drop ?d A1)"
    using False pos assms(2) by (simp add: replay_entry_def Let_def eq)
  then show ?thesis by auto
qed

lemma replay_later:
  assumes "replay i A xs = Some A'" and "i \<le> i'" and "length A > i' - i \<longrightarrow> B = drop (i' - i) A"
  shows "\<exists>B'. replay i' B xs = Some B' \<and> (length A' > i' - i \<longrightarrow> B' = drop (i' - i) A')"
  using assms
proof (induction xs arbitrary: A B)
  case (Cons e xs)
  obtain A1 where A1: "replay_entry i A e = Some A1" "replay i A1 xs = Some A'"
    using Cons.prems(1) by (auto split: option.splits)
  obtain B1 where "replay_entry i' B e = Some B1" "length A1 > i' - i \<longrightarrow> B1 = drop (i' - i) A1"
    using replay_entry_later [OF A1(1) Cons.prems(2,3)] by blast
  then show ?case using Cons.IH [OF A1(2) Cons.prems(2)] by auto
qed simp

lemma replay_save:
  assumes "contiguous n es" and "n \<le> i + 1 + length old"
  shows "replay i old es = Some (view_append (i + 1) old es)"
  using assms
proof (induction es arbitrary: n old)
  case (Cons e es)
  let ?old = "if e_index e < i + 1 then old else take (e_index e - (i + 1)) old @ [e]"
  have "replay_entry i old e = Some ?old" using Cons.prems by (auto simp: replay_entry_def Let_def)
  moreover have "replay i ?old es = Some (view_append (i + 1) ?old es)"
    using Cons.prems by (intro Cons.IH [of "Suc n"]) auto
  ultimately show ?case by simp
qed simp

section \<open>Segments and their tags\<close>

text \<open>A segment by its tag and its entries.\<close>

type_synonym tagged = "nat \<times> Entry list"

abbreviation ents :: "tagged list \<Rightarrow> Entry list" where
  "ents S \<equiv> concat (map snd S)"

text \<open>What the tags say about the log over a snapshot at \<open>i\<close>. A tag beyond the snapshot is the
  index after the last one at the time the segment was started. A segment with a tag within the
  snapshot can start the replay: from the next such tag on, and at the end, nothing depends on
  what came before.\<close>

definition tags_ok :: "nat \<Rightarrow> tagged list \<Rightarrow> bool" where
  "tags_ok i S \<longleftrightarrow>
     (\<forall>S1 t xs S2. S = S1 @ (t, xs) # S2 \<longrightarrow> S1 \<noteq> [] \<longrightarrow> t > i + 1 \<longrightarrow>
        (\<exists>A. replay i [] (ents S1) = Some A \<and> i + length A + 1 = t)) \<and>
     (\<forall>S1 t xs W X. S = S1 @ (t, xs) # W @ X \<longrightarrow> S1 \<noteq> [] \<longrightarrow> t \<le> i + 1 \<longrightarrow>
        (X = [] \<or> fst (hd X) > i + 1) \<longrightarrow>
        replay i [] (xs @ ents W) = replay i [] (ents S1 @ xs @ ents W))"

lemma tags_ok_last:
  assumes "tags_ok i S" and "S = S1 @ (t, xs) # S2" and "S1 \<noteq> []" and "t > i + 1"
  shows "\<exists>A. replay i [] (ents S1) = Some A \<and> i + length A + 1 = t"
  using assms unfolding tags_ok_def by blast

lemma tags_ok_start:
  assumes "tags_ok i S" and "S = S1 @ (t, xs) # W @ X" and "S1 \<noteq> []" and "t \<le> i + 1"
    and "X = [] \<or> fst (hd X) > i + 1"
  shows "replay i [] (xs @ ents W) = replay i [] (ents S1 @ xs @ ents W)"
  using assms unfolding tags_ok_def by blast

lemma tags_ok_single [simp]: "tags_ok i [x]"
  by (auto simp: tags_ok_def append_eq_Cons_conv Cons_eq_append_conv)

text \<open>Appending to the last segment.\<close>

lemma tags_ok_extend:
  assumes "tags_ok i (S @ [(t, xs)])"
  shows "tags_ok i (S @ [(t, xs @ ys)])"
  unfolding tags_ok_def
proof (intro conjI allI impI)
  fix S1 t' xs' S2 assume a: "S @ [(t, xs @ ys)] = S1 @ (t', xs') # S2" "S1 \<noteq> []" "t' > i + 1"
  then have "S @ [(t, xs)] = S1 @ (t', if S2 = [] then xs else xs') # (if S2 = [] then [] else butlast S2 @ [(t, xs)])"
    by (cases S2 rule: rev_cases) (auto simp flip: append_assoc append_Cons)
  from tags_ok_last [OF assms this a(2,3)]
  show "\<exists>A. replay i [] (ents S1) = Some A \<and> i + length A + 1 = t'" .
next
  fix S1 t' xs' W X
  assume a: "S @ [(t, xs @ ys)] = S1 @ (t', xs') # W @ X" "S1 \<noteq> []" "t' \<le> i + 1" "X = [] \<or> fst (hd X) > i + 1"
  note start = tags_ok_start [OF assms _ a(2,3)]
  show "replay i [] (xs' @ ents W) = replay i [] (ents S1 @ xs' @ ents W)"
  proof (cases X rule: rev_cases)
    case (snoc X' x)
    then have "S @ [(t, xs)] = S1 @ (t', xs') # W @ X' @ [(t, xs)]" using a(1) by (simp flip: append_assoc append_Cons)
    then show ?thesis using start [of xs' W "X' @ [(t, xs)]"] a(4) snoc a(1) by (cases X') (auto simp flip: append_assoc append_Cons)
  next
    case Nil
    show ?thesis
    proof (cases W rule: rev_cases)
      case (snoc W' w)
      then have "S @ [(t, xs)] = S1 @ (t', xs') # (W' @ [(t, xs)]) @ []" and w: "w = (t, xs @ ys)"
        using a(1) Nil by (simp_all flip: append_assoc append_Cons)
      from start [OF this(1)] have "replay i [] (xs' @ ents W' @ xs) = replay i [] (ents S1 @ xs' @ ents W' @ xs)" by simp
      then have "replay i [] ((xs' @ ents W' @ xs) @ ys) = replay i [] ((ents S1 @ xs' @ ents W' @ xs) @ ys)"
        by (simp only: replay_append [where ys = ys])
      then show ?thesis using snoc w by simp
    next
      case Nil
      then have "S @ [(t, xs)] = S1 @ (t', xs) # [] @ []" and w: "xs' = xs @ ys"
        using a(1) \<open>X = []\<close> by simp_all
      from start [OF this(1)] have "replay i [] xs = replay i [] (ents S1 @ xs)" by simp
      then have "replay i [] (xs @ ys) = replay i [] ((ents S1 @ xs) @ ys)"
        by (simp only: replay_append [where ys = ys])
      then show ?thesis using Nil w by simp
    qed
  qed
qed

text \<open>A new segment, with the tag that the code gives it and no entries yet.\<close>

lemma tags_ok_new:
  assumes "tags_ok i S" and es: "replay i [] (ents S) = Some es" and t: "t = i + length es + 1"
  shows "tags_ok i (S @ [(t, [])])"
  unfolding tags_ok_def
proof (intro conjI allI impI)
  fix S1 t' xs' S2 assume a: "S @ [(t, [])] = S1 @ (t', xs') # S2" "S1 \<noteq> []" "t' > i + 1"
  show "\<exists>A. replay i [] (ents S1) = Some A \<and> i + length A + 1 = t'"
  proof (cases S2 rule: rev_cases)
    case Nil
    then show ?thesis using a es t by simp
  next
    case (snoc S2' x)
    then have "S = S1 @ (t', xs') # S2'" using a(1) by (simp flip: append_assoc append_Cons)
    from tags_ok_last [OF assms(1) this a(2,3)] show ?thesis .
  qed
next
  fix S1 t' xs' W X
  assume a: "S @ [(t, [])] = S1 @ (t', xs') # W @ X" "S1 \<noteq> []" "t' \<le> i + 1" "X = [] \<or> fst (hd X) > i + 1"
  note start = tags_ok_start [OF assms(1) _ a(2,3)]
  show "replay i [] (xs' @ ents W) = replay i [] (ents S1 @ xs' @ ents W)"
  proof (cases X rule: rev_cases)
    case (snoc X' x)
    then have S: "S = S1 @ (t', xs') # W @ X'" using a(1) by (simp flip: append_assoc append_Cons)
    have "X' = [] \<or> fst (hd X') > i + 1" using a(4) snoc by (cases X') auto
    from start [OF S this] show ?thesis .
  next
    case Nil
    show ?thesis
    proof (cases W rule: rev_cases)
      case (snoc W' w)
      then have "S = S1 @ (t', xs') # W' @ []" "w = (t, [])" using a(1) Nil by (simp_all flip: append_assoc append_Cons)
      then show ?thesis using start [of xs' W' "[]"] snoc by simp
    next
      case Nil
      then have "S = S1" "t' = t" "xs' = []" using a(1) \<open>X = []\<close> by simp_all
      then show ?thesis using es t a(3) Nil by simp
    qed
  qed
qed

text \<open>Dropping the segments before one with a tag within the snapshot changes nothing.\<close>

lemma tags_ok_drop:
  assumes "tags_ok i (S1 @ (t, xs) # S2)" and "t \<le> i + 1"
  shows "replay i [] (ents ((t, xs) # S2)) = replay i [] (ents (S1 @ (t, xs) # S2))"
    and "tags_ok i ((t, xs) # S2)"
proof -
  have start: "replay i [] (xs @ ents W) = replay i [] (ents S1 @ xs @ ents W)"
    if "S2 = W @ X" "X = [] \<or> fst (hd X) > i + 1" for W X
    using that assms tags_ok_start [of i _ S1 t xs W X] by (cases "S1 = []") auto
  then show "replay i [] (ents ((t, xs) # S2)) = replay i [] (ents (S1 @ (t, xs) # S2))"
    using start [of S2 "[]"] by simp
  show "tags_ok i ((t, xs) # S2)"
    unfolding tags_ok_def
  proof (intro conjI allI impI)
    fix Sa t' xs' Sb assume a: "(t, xs) # S2 = Sa @ (t', xs') # Sb" "Sa \<noteq> []" "t' > i + 1"
    then obtain Sa' where Sa: "Sa = (t, xs) # Sa'" "S2 = Sa' @ (t', xs') # Sb" by (auto simp: Cons_eq_append_conv)
    have "\<exists>A. replay i [] (ents (S1 @ Sa)) = Some A \<and> i + length A + 1 = t'"
      using tags_ok_last [OF assms(1), of "S1 @ Sa" t' xs' Sb] a by simp
    moreover have "replay i [] (ents Sa) = replay i [] (ents (S1 @ Sa))"
      using start [OF Sa(2)] a(3) Sa(1) by simp
    ultimately show "\<exists>A. replay i [] (ents Sa) = Some A \<and> i + length A + 1 = t'" by simp
  next
    fix Sa t' xs' W X
    assume a: "(t, xs) # S2 = Sa @ (t', xs') # W @ X" "Sa \<noteq> []" "t' \<le> i + 1" "X = [] \<or> fst (hd X) > i + 1"
    then obtain Sa' where Sa: "Sa = (t, xs) # Sa'" "S2 = (Sa' @ (t', xs') # W) @ X" by (auto simp: Cons_eq_append_conv)
    have "replay i [] (xs' @ ents W) = replay i [] (ents (S1 @ Sa) @ xs' @ ents W)"
      using tags_ok_start [OF assms(1), of "S1 @ Sa" t' xs' W X] a by simp
    moreover have "replay i [] (ents Sa @ xs' @ ents W) = replay i [] (ents (S1 @ Sa) @ xs' @ ents W)"
      using start [OF Sa(2) a(4)] Sa(1) by simp
    ultimately show "replay i [] (xs' @ ents W) = replay i [] (ents Sa @ xs' @ ents W)" by simp
  qed
qed

text \<open>A later snapshot inside the log.\<close>

lemma tags_ok_later:
  assumes ok: "tags_ok i S" and es: "replay i [] (ents S) = Some es" and i': "i \<le> i'" "i' - i < length es"
  shows "replay i' [] (ents S) = Some (drop (i' - i) es)" and "tags_ok i' S"
proof -
  have later: "replay i' [] xs = Some (drop (i' - i) A)"
    if "replay i [] xs = Some A" "i' - i < length A" for xs A
    using replay_later [OF that(1) i'(1), of "[]"] that(2) by auto
  then show "replay i' [] (ents S) = Some (drop (i' - i) es)" using es i'(2) by simp
  show "tags_ok i' S"
    unfolding tags_ok_def
  proof (intro conjI allI impI)
    fix S1 t xs S2 assume a: "S = S1 @ (t, xs) # S2" "S1 \<noteq> []" "t > i' + 1"
    then obtain A where A: "replay i [] (ents S1) = Some A" "i + length A + 1 = t"
      using tags_ok_last [OF ok a(1,2)] i'(1) by auto
    then show "\<exists>A. replay i' [] (ents S1) = Some A \<and> i' + length A + 1 = t"
      using later [OF A(1)] a(3) i'(1) by auto
  next
    fix S1 t xs W X
    assume a: "S = S1 @ (t, xs) # W @ X" "S1 \<noteq> []" "t \<le> i' + 1" "X = [] \<or> fst (hd X) > i' + 1"
    have "\<exists>A. replay i [] (ents S1 @ xs @ ents W) = Some A \<and> i' - i < length A"
    proof (cases X)
      case Nil
      then show ?thesis using es i'(2) a(1) by auto
    next
      case (Cons x X')
      then show ?thesis
        using tags_ok_last [OF ok, of "S1 @ (t, xs) # W" "fst x" "snd x" X'] a i'(1) by auto
    qed
    then obtain A where A: "replay i [] (ents S1 @ xs @ ents W) = Some A" "i' - i < length A" by blast
    have "replay i' [] (xs @ ents W) = Some (drop (i' - i) A)"
    proof (cases "t \<le> i + 1")
      case True
      have "X = [] \<or> fst (hd X) > i + 1" using a(4) i'(1) by auto
      then show ?thesis using tags_ok_start [OF ok a(1,2) True] A later by simp
    next
      case False
      then obtain A1 where A1: "replay i [] (ents S1) = Some A1" "i + length A1 + 1 = t"
        using tags_ok_last [OF ok a(1,2)] by auto
      then have "replay i A1 (xs @ ents W) = Some A" using A(1) by (simp add: replay_append)
      moreover have "\<not> i' - i < length A1" using A1(2) a(3) by simp
      ultimately show ?thesis using replay_later [of i A1 "xs @ ents W" A i' "[]"] i'(1) A(2) by auto
    qed
    then show "replay i' [] (xs @ ents W) = replay i' [] (ents S1 @ xs @ ents W)"
      using later [OF A] by simp
  qed
qed

section \<open>Records and segments\<close>

definition rec_wf :: "pb_codec \<Rightarrow> WalRecord \<Rightarrow> bool" where
  "rec_wf pb r \<longleftrightarrow> (w_type r = recHardState \<and> hs_Unmarshal pb (w_data r) \<noteq> None) \<or>
     (w_type r = recEntry \<and> entry_Unmarshal pb (w_data r) \<noteq> None)"

definition entry_of :: "pb_codec \<Rightarrow> WalRecord \<Rightarrow> Entry list" where
  "entry_of pb r = (if w_type r = recEntry then
     (case entry_Unmarshal pb (w_data r) of None \<Rightarrow> [] | Some e \<Rightarrow> [e]) else [])"

definition entries_of :: "pb_codec \<Rightarrow> WalRecord list \<Rightarrow> Entry list" where
  "entries_of pb rs = concat (map (entry_of pb) rs)"

lemma entries_of_simps [simp]:
  "entries_of pb [] = []" "entries_of pb (r # rs) = entry_of pb r @ entries_of pb rs"
  "entries_of pb (rs @ rs') = entries_of pb rs @ entries_of pb rs'"
  by (simp_all add: entries_of_def)

lemma feed_replay:
  assumes "\<forall>r \<in> set rs. rec_wf pb r"
  shows "feed (load_record pb i) (h, es) rs =
    (case replay i es (entries_of pb rs) of
       None \<Rightarrow> Inl ErrGap | Some es' \<Rightarrow> Inr (last_hs pb h rs, es'))"
  using assms
proof (induction rs arbitrary: h es)
  case (Cons r rs)
  then have "rec_wf pb r" by simp
  then consider (h) x where "w_type r = recHardState" "hs_Unmarshal pb (w_data r) = Some x"
    | (e) e where "w_type r = recEntry" "entry_Unmarshal pb (w_data r) = Some e"
    by (auto simp: rec_wf_def)
  then show ?case
  proof cases
    case h
    then have "load_record pb i r (h, es) = Inr (Some x, es)" "entry_of pb r = []" "hs_step pb h r = Some x"
      by (simp_all add: load_record_def entry_of_def hs_step_def recEntry_def recHardState_def)
    then show ?thesis using Cons by (simp split: option.split)
  next
    case e
    then have "load_record pb i r (h, es) = (case replay_entry i es e of
        None \<Rightarrow> Inl ErrGap | Some es' \<Rightarrow> Inr (h, es'))" "entry_of pb r = [e]" "hs_step pb h r = h"
      by (simp_all add: load_record_def entry_of_def hs_step_def recEntry_def recHardState_def
          replay_entry_def Let_def)
    then show ?thesis using Cons by (cases "replay_entry i es e") (simp_all split: option.split)
  qed
qed simp

definition tagged_view :: "pb_codec \<Rightarrow> (Segment \<times> WalRecord list) list \<Rightarrow> tagged list" where
  "tagged_view pb V = map (\<lambda>p. (sg_tag (fst p), entries_of pb (snd p))) V"

lemma tagged_view_simps [simp]:
  "tagged_view pb [] = []"
  "tagged_view pb (p # V) = (sg_tag (fst p), entries_of pb (snd p)) # tagged_view pb V"
  "tagged_view pb (V @ V') = tagged_view pb V @ tagged_view pb V'"
  by (simp_all add: tagged_view_def)

lemma ents_tagged: "ents (tagged_view pb V) = entries_of pb (all_recs V)"
  by (induction V) simp_all

text \<open>The segments that recovery reads.\<close>

definition read_part :: "nat \<Rightarrow> (Segment \<times> WalRecord list) list \<Rightarrow> (Segment \<times> WalRecord list) list" where
  "read_part minSeq V = filter (\<lambda>p. minSeq \<le> sg_seq (fst p)) V"

lemma read_view_part: "read_view V minSeq = all_recs (read_part minSeq V)"
  by (simp add: read_view_def read_part_def)

lemma gc_bound_spec:
  "gc_bound i sgs rb = rb \<or>
   (\<exists>sg \<in> set sgs. gc_bound i sgs rb = sg_seq sg \<and> sg_tag sg \<le> i + 1 \<and> rb \<le> sg_seq sg)"
proof (induction i sgs rb rule: gc_bound.induct)
  case (1 i sg sg' sgs rb)
  then show ?case by (cases "sg_tag sg' > i + 1") (auto simp: max_def split: if_splits)
qed simp_all

lemma sorted_filter_from:
  assumes "sorted_wrt (<) (map f xs)" and "x \<in> set xs"
  shows "\<exists>ys zs. xs = ys @ x # zs \<and> filter (\<lambda>y. (f x :: nat) \<le> f y) xs = x # zs"
proof -
  obtain ys zs where xs: "xs = ys @ x # zs" using assms(2) by (meson split_list)
  then have "\<forall>y \<in> set ys. f y < f x" "\<forall>y \<in> set zs. f x < f y"
    using assms(1) by (auto simp: sorted_wrt_append)
  then have "filter (\<lambda>y. f x \<le> f y) ys = []" "filter (\<lambda>y. f x \<le> f y) zs = zs"
    by (auto simp: filter_empty_conv filter_id_conv)
  then show ?thesis using xs by auto
qed

text \<open>Garbage collection keeps the segments that recovery reads, or drops those of them before
  one whose tag lies within the snapshot.\<close>

lemma gc_read_part:
  assumes "sorted_wrt (<) (map (sg_seq \<circ> fst) V)" and "V \<noteq> []" and "sm_minWalSegment m \<le> sg_seq (fst (last V))"
  defines "U \<equiv> read_part (sm_minWalSegment m) V" and "U' \<equiv> read_part (sm_minWalSegment m) (gc_view (Some m) V)"
  shows "U' = U \<or> (\<exists>U1 p U2. U = U1 @ p # U2 \<and> U' = p # U2 \<and> sg_tag (fst p) \<le> sm_index m + 1)"
proof -
  let ?min = "sm_minWalSegment m" and ?b = "gc_bound (sm_index m) (map fst V) (sm_minWalSegment m)"
  obtain V0 l where V: "V = V0 @ [l]" using assms(2) by (cases V rule: rev_cases) auto
  have min: "?min \<le> ?b" and b: "?b \<le> sg_seq (fst l)"
    and or: "?b = ?min \<or> (\<exists>p \<in> set V. ?b = sg_seq (fst p) \<and> sg_tag (fst p) \<le> sm_index m + 1)"
    using gc_bound_spec [of "sm_index m" "map fst V" ?min] assms(1,3) V by (auto simp: sorted_wrt_append)
  then have gv: "gc_view (Some m) V = filter (\<lambda>p. ?b \<le> sg_seq (fst p)) V"
    by (simp add: gc_view_def remove_view_def V)
  then have U': "U' = filter (\<lambda>p. ?b \<le> sg_seq (fst p)) V"
    using min by (auto simp: U'_def read_part_def intro!: filter_cong)
  from or show ?thesis
  proof
    assume "?b = ?min"
    then show ?thesis using U' by (simp add: U_def read_part_def)
  next
    assume "\<exists>p \<in> set V. ?b = sg_seq (fst p) \<and> sg_tag (fst p) \<le> sm_index m + 1"
    then obtain p where p: "p \<in> set V" "?b = sg_seq (fst p)" "sg_tag (fst p) \<le> sm_index m + 1" by blast
    have "U' = filter (\<lambda>q. ?b \<le> sg_seq (fst q)) U"
      using min U' by (auto simp: U_def read_part_def intro!: filter_cong)
    moreover have "p \<in> set U" using p min by (simp add: U_def read_part_def)
    moreover have "sorted_wrt (<) (map (sg_seq \<circ> fst) U)"
      using assms(1) unfolding U_def read_part_def sorted_wrt_map by (rule sorted_wrt_filter)
    ultimately obtain ys zs where "U = ys @ p # zs" "U' = p # zs"
      using sorted_filter_from [of "sg_seq \<circ> fst" U p] unfolding p(2) comp_apply by blast
    then show ?thesis using p(3) by blast
  qed
qed

section \<open>The log of a store\<close>

definition snap_index :: "SnapshotMeta option \<Rightarrow> nat" where
  "snap_index meta = (case meta of None \<Rightarrow> 0 | Some m \<Rightarrow> sm_index m)"

definition snap_min :: "SnapshotMeta option \<Rightarrow> nat" where
  "snap_min meta = (case meta of None \<Rightarrow> 0 | Some m \<Rightarrow> sm_minWalSegment m)"

text \<open>The snapshot in memory is the newest one on disk.\<close>

definition snap_current :: "pb_codec \<Rightarrow> RaftStore \<Rightarrow> SnapshotMeta option \<Rightarrow> bytes \<Rightarrow> bool" where
  "snap_current pb s meta dat \<longleftrightarrow>
     (case meta of
        None \<Rightarrow> rs_snaps s = [] \<and> dat = []
      | Some m \<Rightarrow> read_path pb s (snapshotPath m) = Inr (m, dat) \<and>
          (\<forall>k \<in> fst ` set (rs_snaps s). k \<le> snapshotPath m))"

abbreviation log_part :: "pb_codec \<Rightarrow> SnapshotMeta option \<Rightarrow> (Segment \<times> WalRecord list) list \<Rightarrow> tagged list" where
  "log_part pb meta V \<equiv> tagged_view pb (read_part (snap_min meta) V)"

definition segs_wf :: "pb_codec \<Rightarrow> (Segment \<times> WalRecord list) list \<Rightarrow> bool" where
  "segs_wf pb V \<longleftrightarrow> (\<forall>p \<in> set V. \<forall>r \<in> set (snd p). rec_wf pb r)"

text \<open>\<open>log_ok pb V ld\<close>: replaying the segments \<open>V\<close> over the snapshot of \<open>ld\<close> gives the entries
  of \<open>ld\<close>.\<close>

definition log_ok :: "pb_codec \<Rightarrow> (Segment \<times> WalRecord list) list \<Rightarrow> Loaded \<Rightarrow> bool" where
  "log_ok pb V ld \<longleftrightarrow> segs_wf pb V \<and> snap_min (ld_snapshotMeta ld) \<le> sg_seq (fst (last V)) \<and>
     replay (snap_index (ld_snapshotMeta ld)) [] (ents (log_part pb (ld_snapshotMeta ld) V)) = Some (ld_entries ld) \<and>
     tags_ok (snap_index (ld_snapshotMeta ld)) (log_part pb (ld_snapshotMeta ld) V) \<and> view_ok ld"

text \<open>\<open>rs_log pb s V ld\<close>: a loaded store whose contents are \<open>ld\<close>.\<close>

definition rs_log :: "pb_codec \<Rightarrow> RaftStore \<Rightarrow> (Segment \<times> WalRecord list) list \<Rightarrow> Loaded \<Rightarrow> bool" where
  "rs_log pb s V ld \<longleftrightarrow> rs_rep pb s V \<and> log_ok pb V ld \<and> rs_meta s = ld_snapshotMeta ld \<and>
     snap_current pb s (ld_snapshotMeta ld) (ld_snapshotData ld) \<and> ld_hardState ld = rs_hs s \<and>
     rs_lastIndex s = snap_index (ld_snapshotMeta ld) + length (ld_entries ld)"

lemma view_first_snap: "view_first ld = snap_index (ld_snapshotMeta ld) + 1"
  by (simp add: view_first_def snap_index_def split: option.split)

lemma snap_current_cong: "rs_snaps s' = rs_snaps s \<Longrightarrow> snap_current pb s' = snap_current pb s"
  by (intro ext) (simp add: snap_current_def read_path_def split: option.split)

lemma rs_log_rep: "rs_log pb s V ld \<Longrightarrow> wal_rep (rs_wal s) V"
  by (simp add: rs_log_def rs_rep_def)

lemma log_ok_gc:
  assumes "log_ok pb V ld" and "sorted_wrt (<) (map (sg_seq \<circ> fst) V)" and "V \<noteq> []"
  shows "log_ok pb (gc_view (ld_snapshotMeta ld) V) ld"
proof (cases "ld_snapshotMeta ld")
  case None
  then show ?thesis using assms by (simp add: gc_view_def)
next
  case (Some m)
  let ?V = "gc_view (Some m) V" and ?i = "sm_index m"
  obtain V1 where V: "V = V1 @ ?V" "last ?V = last V" using gc_view_suffix [OF assms(2,3), of "Some m"] by blast
  have "set ?V \<subseteq> set V" using V(1) by (metis set_append Un_upper2)
  then have wf: "segs_wf pb ?V" using assms(1) unfolding log_ok_def segs_wf_def by blast
  let ?U = "read_part (sm_minWalSegment m) V" and ?U' = "read_part (sm_minWalSegment m) ?V"
  have min: "sm_minWalSegment m \<le> sg_seq (fst (last V))" using assms(1) Some by (simp add: log_ok_def snap_min_def)
  have U: "replay ?i [] (ents (tagged_view pb ?U)) = Some (ld_entries ld)" "tags_ok ?i (tagged_view pb ?U)"
    using assms(1) Some by (simp_all add: log_ok_def snap_index_def snap_min_def)
  have "replay ?i [] (ents (tagged_view pb ?U')) = Some (ld_entries ld) \<and> tags_ok ?i (tagged_view pb ?U')"
    using gc_read_part [OF assms(2,3) min]
  proof
    assume "?U' = ?U"
    then show ?thesis using U by simp
  next
    assume "\<exists>U1 p U2. ?U = U1 @ p # U2 \<and> ?U' = p # U2 \<and> sg_tag (fst p) \<le> sm_index m + 1"
    then obtain U1 p U2 where p: "?U = U1 @ p # U2" "?U' = p # U2" "sg_tag (fst p) \<le> ?i + 1" by blast
    then show ?thesis
      using U tags_ok_drop [of ?i "tagged_view pb U1" "sg_tag (fst p)" "entries_of pb (snd p)" "tagged_view pb U2"]
      by simp
  qed
  then show ?thesis
    using assms(1) wf V(2) Some by (simp add: log_ok_def snap_index_def snap_min_def)
qed

lemma gc_full:
  assumes wr: "wal_rep (rs_wal s) V" and cur: "snap_current pb s (rs_meta s) dat"
  shows "\<exists>s'. gcLocked s = (s', Inr ()) \<and> wal_rep (rs_wal s') (gc_view (rs_meta s) V) \<and>
    snap_current pb s' (rs_meta s) dat"
proof -
  obtain w P where g: "gcLocked s = (s\<lparr>rs_wal := w, rs_snaps := filter (\<lambda>p. P (fst p)) (rs_snaps s)\<rparr>, Inr ())"
      "wal_rep w (gc_view (rs_meta s) V)" "\<forall>k. gc_safe (rs_meta s) k \<longrightarrow> P k"
    using gc_wal [OF wr] by blast
  have "snap_current pb (s\<lparr>rs_wal := w, rs_snaps := filter (\<lambda>p. P (fst p)) (rs_snaps s)\<rparr>) (rs_meta s) dat"
  proof (cases "rs_meta s")
    case (Some m)
    then have "gc_safe (rs_meta s) (snapshotPath m)" by (simp add: gc_safe_def)
    then have "P (snapshotPath m)" using g(3) by blast
    then show ?thesis using cur Some by (auto simp: snap_current_def read_path_def map_of_filter_keys)
  qed (use cur in \<open>simp add: snap_current_def\<close>)
  then show ?thesis using g(1,2) by simp
qed

lemma gc_log:
  assumes log: "rs_log pb s V ld"
  shows "\<exists>s' V'. gcLocked s = (s', Inr ()) \<and> rs_log pb s' V' ld"
proof -
  note wr = rs_log_rep [OF log]
  have rep: "rs_rep pb s V" and meta: "rs_meta s = ld_snapshotMeta ld" using log by (simp_all add: rs_log_def)
  obtain s' where g: "gcLocked s = (s', Inr ())" "snap_current pb s' (rs_meta s) (ld_snapshotData ld)"
    using gc_full [OF wr, of pb "ld_snapshotData ld"] log meta by (auto simp: rs_log_def)
  have "log_ok pb (gc_view (rs_meta s) V) ld"
    using log_ok_gc [of pb V ld] log wal_rep_sorted [OF wr] by (simp add: rs_log_def meta)
  then show ?thesis
    using log g gc_rep [OF rep] gcLocked_frame [OF g(1)] meta by (auto simp: rs_log_def)
qed

section \<open>Saving\<close>

lemma view_append_last:
  assumes "contiguous n es" and "es \<noteq> []" and "n \<le> first + length old" and "first \<le> e_index (last es)"
  shows "first + length (view_append first old es) = e_index (last es) + 1"
proof -
  have last: "e_index (last es) = n + length es - 1" using assms(1,2)
    by (induction es arbitrary: n) (auto split: if_splits)
  show ?thesis
  proof (cases "first \<le> n")
    case True
    then show ?thesis
      using view_append_contiguous [OF assms(1,2) True assms(3)] assms(2,3) last by (cases es) auto
  next
    case False
    let ?es = "drop (first - n) es"
    have "contiguous first ?es" using contiguous_drop [OF assms(1), of "first - n"] False by simp
    moreover have "?es \<noteq> []" "first - n < length es" using last assms(2,4) False by (cases es; auto)+
    ultimately show ?thesis
      using view_append_skip [OF assms(1), of first old] view_append_contiguous [of first ?es first old] False last
      by auto
  qed
qed

lemma entry_records_entries:
  assumes "pb_ok pb" and "entry_records pb es = Inr rs"
  shows "\<forall>r \<in> set rs. rec_wf pb r" and "entries_of pb rs = es" and "map (entry_of pb) rs = map (\<lambda>e. [e]) es"
proof -
  have "(\<forall>r \<in> set rs. rec_wf pb r) \<and> entries_of pb rs = es \<and> map (entry_of pb) rs = map (\<lambda>e. [e]) es"
    using assms(2)
  proof (induction es arbitrary: rs)
    case (Cons e es)
    then obtain b rs' where b: "entry_Marshal pb e = Some b" "entry_records pb es = Inr rs'"
        "rs = \<lparr>w_type = recEntry, w_data = b\<rparr> # rs'"
      by (auto elim!: bind_resE split: option.splits)
    have "entry_Unmarshal pb b = Some e" using assms(1) b(1) by (auto simp: pb_ok_def codec_okD)
    then show ?case using Cons.IH [OF b(2)] b(3) by (simp add: rec_wf_def entry_of_def)
  qed simp
  then show "\<forall>r \<in> set rs. rec_wf pb r" and "entries_of pb rs = es"
    and "map (entry_of pb) rs = map (\<lambda>e. [e]) es" by simp_all
qed

lemma hs_records_entries:
  assumes "pb_ok pb" and "hs_records pb hs = Inr rs"
  shows "\<forall>r \<in> set rs. rec_wf pb r" and "entries_of pb rs = []"
proof -
  have "rec_wf pb r \<and> entry_of pb r = []" if "hardStateRecord pb h = Inr r" for h r
    using assms(1) that
    by (auto simp: hardStateRecord_def rec_wf_def entry_of_def pb_ok_def codec_okD recEntry_def recHardState_def
        split: option.splits)
  then show "\<forall>r \<in> set rs. rec_wf pb r" and "entries_of pb rs = []"
    using assms(2) by (auto simp: hs_records_def elim!: bind_resE split: option.splits)
qed

lemma read_part_snoc:
  "minSeq \<le> sg_seq sg \<Longrightarrow> read_part minSeq (V @ [(sg, rs)]) = read_part minSeq V @ [(sg, rs)]"
  by (simp add: read_part_def)

lemma view_save_fields [simp]:
  "ld_snapshotMeta (view_save ld hs es) = ld_snapshotMeta ld"
  "ld_snapshotData (view_save ld hs es) = ld_snapshotData ld"
  by (simp_all add: view_save_def)

text \<open>Records appended to the last segment are a \<open>Save\<close> of their entries.\<close>

lemma log_ok_append:
  assumes log: "log_ok pb (V @ [(sg, rs)]) ld" and recs: "\<forall>r \<in> set recs. rec_wf pb r"
    and pre: "save_pre ld (entries_of pb recs)"
  shows "log_ok pb (V @ [(sg, rs @ recs)]) (view_save ld hs (entries_of pb recs))"
proof -
  let ?i = "snap_index (ld_snapshotMeta ld)" and ?min = "snap_min (ld_snapshotMeta ld)"
  let ?S = "tagged_view pb (read_part ?min V)"
  have min: "?min \<le> sg_seq sg" using log by (simp add: log_ok_def)
  have l: "replay ?i [] (ents ?S @ entries_of pb rs) = Some (ld_entries ld)"
      "tags_ok ?i (?S @ [(sg_tag sg, entries_of pb rs)])" "view_ok ld"
    using log by (simp_all add: log_ok_def read_part_snoc [OF min])
  obtain n where n: "contiguous n (entries_of pb recs)" "n \<le> ?i + 1 + length (ld_entries ld)"
    using pre unfolding save_pre_def view_first_snap by blast
  have "replay ?i [] ((ents ?S @ entries_of pb rs) @ entries_of pb recs) =
      Some (view_append (?i + 1) (ld_entries ld) (entries_of pb recs))"
    unfolding replay_append [of ?i "[]" "ents ?S @ entries_of pb rs"] using l(1) replay_save [OF n] by simp
  moreover have "tags_ok ?i (?S @ [(sg_tag sg, entries_of pb rs @ entries_of pb recs)])"
    by (rule tags_ok_extend [OF l(2)])
  moreover have "view_ok (view_save ld hs (entries_of pb recs))" by (rule view_save_wf [OF l(3) pre])
  ultimately show ?thesis
    using log recs min unfolding log_ok_def
    by (simp add: read_part_snoc segs_wf_def view_first_snap ball_Un) (simp add: view_save_def view_first_snap)
qed

lemma rotate_total:
  assumes "wal_rep (rs_wal s) V" and "hs_records pb (rs_hs s) = Inr head" and "\<forall>r \<in> set head. rec_ok r"
  shows "\<exists>s'. rotateLocked pb s = (s', Inr ())"
proof -
  obtain V' sg rs where V: "V = V' @ [(sg, rs)]" using wal_rep_snoc [OF assms(1)] by blast
  show ?thesis
    using rotate_rep [OF assms(1) [unfolded V] assms(3), of "rs_lastIndex s + 1"] assms(2)
    by (auto simp: rotateLocked_def io_bind_def on_wal_def)
qed

lemma rotate_log:
  assumes pb: "pb_ok pb" and log: "rs_log pb s V ld" and head: "hs_records pb (rs_hs s) = Inr head"
  shows "\<exists>s' V'. rotateLocked pb s = (s', Inr ()) \<and> rs_log pb s' V' ld"
proof -
  note wr = rs_log_rep [OF log]
  have rep: "rs_rep pb s V" and lo: "log_ok pb V ld" using log by (simp_all add: rs_log_def)
  obtain s' where s': "rotateLocked pb s = (s', Inr ())"
    using rotate_total [OF wr head hs_records_ok(1) [OF pb head]] by blast
  obtain sg where sg: "rs_rep pb s' (V @ [(sg, head)])" "sg_tag sg = rs_lastIndex s + 1"
      "sg_seq sg = sg_seq (fst (last V)) + 1"
    using rotate_ok [OF pb rep s'] head by auto
  let ?i = "snap_index (ld_snapshotMeta ld)" and ?min = "snap_min (ld_snapshotMeta ld)"
  have min: "?min \<le> sg_seq sg" using lo sg(3) by (simp add: log_ok_def)
  have "tags_ok ?i (log_part pb (ld_snapshotMeta ld) V @ [(sg_tag sg, [])])"
    using lo log sg(2) by (intro tags_ok_new [where es = "ld_entries ld"]) (simp_all add: log_ok_def rs_log_def)
  then have "log_ok pb (V @ [(sg, head)]) ld"
    using lo min hs_records_entries [OF pb head] unfolding log_ok_def
    by (simp add: read_part_snoc segs_wf_def ball_Un)
  then have "rs_log pb s' (V @ [(sg, head)]) ld"
    using log sg(1) rotateLocked_frame [OF s'] snap_current_cong [of s' s pb] by (simp add: rs_log_def)
  then show ?thesis using s' by blast
qed

lemma save_records_entries:
  assumes "pb_ok pb" and "save_records pb hs es = Inr recs"
  shows "\<forall>r \<in> set recs. rec_wf pb r" and "entries_of pb recs = es"
proof -
  obtain a b where ab: "hs_records pb hs = Inr a" "entry_records pb es = Inr b" "recs = a @ b"
    using assms(2) by (auto simp: save_records_def elim!: bind_resE)
  show "\<forall>r \<in> set recs. rec_wf pb r" and "entries_of pb recs = es"
    using hs_records_entries [OF assms(1) ab(1)] entry_records_entries [OF assms(1) ab(2)] ab(3)
    by (auto simp: ball_Un)
qed

text \<open>What the storage can encode, and a batch that reaches beyond the snapshot.\<close>

definition rs_storable :: "pb_codec \<Rightarrow> RaftStore \<Rightarrow> HardState option \<Rightarrow> Entry list \<Rightarrow> bool" where
  "rs_storable pb s hs es \<longleftrightarrow> (\<exists>recs. save_records pb hs es = Inr recs) \<and>
     (\<exists>head. hs_records pb (case hs of None \<Rightarrow> rs_hs s | Some h \<Rightarrow> Some h) = Inr head) \<and>
     (es = [] \<or> snap_index (rs_meta s) < e_index (last es))"

lemma Save_log:
  assumes pb: "pb_ok pb" and log: "rs_log pb s V ld" and pre: "save_pre ld es" and st: "rs_storable pb s hs es"
  shows "\<exists>s' V'. rs_Save pb hs es s = (s', Inr ()) \<and> rs_log pb s' V' (view_save ld hs es)"
proof -
  note wr = rs_log_rep [OF log]
  obtain V0 sg rs where V: "V = V0 @ [(sg, rs)]" using wal_rep_snoc [OF wr] by blast
  obtain recs head where recs: "save_records pb hs es = Inr recs"
      and head: "hs_records pb (case hs of None \<Rightarrow> rs_hs s | Some h \<Rightarrow> Some h) = Inr head"
    using st by (auto simp: rs_storable_def)
  note r = save_records_ok [OF pb recs] and e = save_records_entries [OF pb recs]
  obtain w where w: "Append recs (rs_wal s) = (w, Inr ())" "wal_rep w (V0 @ [(sg, rs @ recs)])"
    using append_rep [OF wr [unfolded V] r(1)] by (auto simp: Append_def)
  let ?s = "note_saved hs es (s\<lparr>rs_wal := w\<rparr>)" and ?V = "V0 @ [(sg, rs @ recs)]" and ?ld = "view_save ld hs es"
  have hs: "rs_hs ?s = (case hs of None \<Rightarrow> rs_hs s | Some h \<Rightarrow> Some h)"
    by (cases hs) (simp_all add: note_saved_def)
  have "rs_rep pb ?s ?V"
    using log w(2) r(2) heads_ok_extend [of pb V0 sg rs recs] V
    by (cases hs) (simp_all add: rs_rep_def rs_log_def, simp_all add: note_saved_def)
  moreover have "log_ok pb ?V ?ld"
    using log_ok_append [of pb V0 sg rs ld recs hs] log pre e V by (simp add: rs_log_def)
  moreover have "rs_lastIndex ?s = snap_index (ld_snapshotMeta ?ld) + length (ld_entries ?ld)"
  proof (cases "es = []")
    case False
    obtain n where "contiguous n es" "n \<le> view_first ld + length (ld_entries ld)" using pre by (auto simp: save_pre_def)
    then show ?thesis
      using view_append_last [of n es "view_first ld" "ld_entries ld"] False st log
      by (simp add: note_saved_def view_save_def view_first_snap rs_storable_def rs_log_def)
  qed (use log in \<open>simp add: note_saved_def view_save_def rs_log_def\<close>)
  moreover have "ld_hardState ?ld = rs_hs ?s" using log hs by (cases hs) (simp_all add: view_save_def rs_log_def)
  moreover have "rs_meta ?s = rs_meta s" "rs_snaps ?s = rs_snaps s" by (simp_all add: note_saved_def)
  ultimately have l: "rs_log pb ?s ?V ?ld" using log snap_current_cong [of ?s s pb] by (simp add: rs_log_def)
  have sv: "rs_Save pb hs es s = rotate_if_full pb ?s"
    using recs w(1) by (simp add: rs_Save_def io_bind_def on_wal_def)
  show ?thesis
  proof (cases "ShouldRotate (rs_wal ?s)")
    case False
    then show ?thesis using sv l by (auto simp: rotate_if_full_def)
  next
    case True
    obtain s1 V1 where "rotateLocked pb ?s = (s1, Inr ())" "rs_log pb s1 V1 ?ld"
      using rotate_log [OF pb l] head hs by auto
    then show ?thesis using gc_log [of pb s1 V1 ?ld] sv True by (auto simp: rotate_if_full_def io_bind_def)
  qed
qed

section \<open>Loading\<close>

lemma sorted_le_last: "sorted xs \<Longrightarrow> x \<in> set xs \<Longrightarrow> x \<le> (last xs :: 'a :: linorder)"
  by (induction xs) auto

lemma last_sort:
  assumes "k \<in> set xs" and "\<forall>x \<in> set xs. x \<le> (k :: 'a :: linorder)"
  shows "last (sort xs) = k"
proof -
  have ne: "sort xs \<noteq> []" using assms(1) by (metis empty_iff list.set(1) set_sort)
  then have "last (sort xs) \<le> k" using assms(2) last_in_set [OF ne] by simp
  moreover have "k \<le> last (sort xs)"
    using assms(1) sorted_le_last [of "sort xs" k] by simp
  ultimately show ?thesis by simp
qed

lemma loadNewest_current:
  assumes "faults (rs_wal s) = []" and "snap_current pb s meta dat"
  shows "\<exists>t. loadNewestSnapshot pb s = (s\<lparr>rs_tmps := t\<rparr>, Inr (meta, dat))"
proof -
  obtain t where t: "fold rm_tmp (map fst (rs_tmps s)) s = s\<lparr>rs_tmps := t\<rparr>"
    using fold_rm_tmp_ok [OF assms(1)] by blast
  show ?thesis
  proof (cases meta)
    case None
    then show ?thesis
      using assms(2) t by (intro exI [of _ t]) (simp add: loadNewestSnapshot_def snapshotFiles_def snap_current_def)
  next
    case (Some m)
    then have rp: "read_path pb s (snapshotPath m) = Inr (m, dat)"
        and mx: "\<forall>k \<in> fst ` set (rs_snaps s). k \<le> snapshotPath m"
      using assms(2) by (simp_all add: snap_current_def)
    then obtain buf where "map_of (rs_snaps s) (snapshotPath m) = Some buf"
      by (auto simp: read_path_def split: option.splits)
    then have "snapshotPath m \<in> fst ` set (rs_snaps s)" by (rule map_of_SomeD [THEN image_eqI [rotated]]) simp
    then have "last (sort (map fst (rs_snaps s))) = snapshotPath m" using mx by (intro last_sort) simp_all
    then have "last (snapshotFiles (s\<lparr>rs_tmps := t\<rparr>)) = snapshotPath m" by (simp add: snapshotFiles_def)
    moreover have "rs_snaps s \<noteq> []" using \<open>snapshotPath m \<in> fst ` set (rs_snaps s)\<close> by auto
    moreover have "read_path pb (s\<lparr>rs_tmps := t\<rparr>) = read_path pb s" by (simp add: read_path_def fun_eq_iff)
    moreover have "length (snapshotFiles (s\<lparr>rs_tmps := t\<rparr>)) = length (rs_snaps s)"
      by (simp add: snapshotFiles_def)
    then have "snapshotFiles (s\<lparr>rs_tmps := t\<rparr>) \<noteq> []" using calculation(2) by auto
    ultimately show ?thesis
      using t rp Some by (intro exI [of _ t]) (simp add: loadNewestSnapshot_def Let_def)
  qed
qed

lemma last_hs_start: "last_hs pb h rs = (case last_hs pb None rs of None \<Rightarrow> h | Some x \<Rightarrow> Some x)"
proof (induction rs rule: rev_induct)
  case (snoc r rs)
  then show ?case by (auto simp: hs_step_def split: option.splits)
qed simp

lemma loaded_eta: "\<lparr>ld_hardState = ld_hardState ld, ld_snapshotMeta = ld_snapshotMeta ld,
    ld_snapshotData = ld_snapshotData ld, ld_entries = ld_entries ld\<rparr> = ld"
  by (cases ld) simp

lemma Load_raw:
  assumes wf: "wal_found (rs_wal s) V tail" and cur: "snap_current pb s meta dat"
    and min: "snap_min meta \<le> sg_seq (fst (last V))"
    and fd: "feed (load_record pb (snap_index meta)) (rs_hs s, []) (read_view V (snap_min meta)) = Inr (h, es)"
  shows "\<exists>w t. wal_rep w V \<and> rs_Load pb s = io_bind gcLocked
      (\<lambda>_. io_ret \<lparr>ld_hardState = h, ld_snapshotMeta = meta, ld_snapshotData = dat, ld_entries = es\<rparr>)
      (s\<lparr>rs_tmps := t, rs_meta := meta, rs_wal := w, rs_hs := h, rs_lastIndex := snap_index meta + length es\<rparr>)"
proof -
  have flt: "faults (rs_wal s) = []" using wf by (simp add: wal_found_def)
  obtain t where t: "loadNewestSnapshot pb s = (s\<lparr>rs_tmps := t\<rparr>, Inr (meta, dat))"
    using loadNewest_current [OF flt cur] by blast
  obtain V0 sg rs where V: "V = V0 @ [(sg, rs)]"
    using wf by (cases V rule: rev_cases) (auto simp: wal_found_def)
  have m: "snap_min meta \<le> sg_seq sg" using min V by simp
  obtain w where w: "ReadAll (snap_min meta) (load_record pb (snap_index meta)) (rs_hs s, []) (rs_wal s) =
      (w, (h, es), None)" "wal_rep w V"
    using readall_found [OF wf [unfolded V] m fd [unfolded V]] unfolding V by blast
  have "(case meta of None \<Rightarrow> (0, 0) | Some m \<Rightarrow> (sm_index m, sm_minWalSegment m)) = (snap_index meta, snap_min meta)"
    by (simp add: snap_index_def snap_min_def split: option.split)
  then show ?thesis
    using w unfolding rs_Load_def io_bind_def [of "loadNewestSnapshot pb"] t
    by (intro exI [of _ w] exI [of _ t]) simp
qed

lemma Load_log:
  assumes wf: "wal_found (rs_wal s) V tail" and hd: "heads_ok pb None V"
    and mins: "mins_ok pb s (sg_seq (fst (last V)))" and lo: "log_ok pb V ld"
    and cur: "snap_current pb s (ld_snapshotMeta ld) (ld_snapshotData ld)"
    and hs: "ld_hardState ld = last_hs pb None (all_recs V)" "rs_hs s = None \<or> rs_hs s = ld_hardState ld"
  shows "\<exists>s' V'. rs_Load pb s = (s', Inr ld) \<and> rs_log pb s' V' ld"
proof -
  let ?meta = "ld_snapshotMeta ld"
  let ?i = "snap_index ?meta" and ?min = "snap_min ?meta"
  have min: "?min \<le> sg_seq (fst (last V))" using lo by (simp add: log_ok_def)
  have st: "sorted_wrt (<) (map (sg_seq \<circ> fst) V)" "V \<noteq> []" using wf by (simp_all add: wal_found_def)
  obtain V1 V2 where V12: "V = V1 @ V2" "V2 \<noteq> []" "read_view V ?min = all_recs V2"
    using read_view_suffix [OF st min] by auto
  have sfx: "heads_ok pb None V2" "last_hs pb None (all_recs V2) = ld_hardState ld"
    using heads_ok_suffix [of pb V1 V2] hd V12 hs(1) by simp_all
  have "last_hs pb (rs_hs s) (all_recs V2) = ld_hardState ld"
    using last_hs_start [of pb "rs_hs s" "all_recs V2"] sfx(2) hs(2) by (auto split: option.splits)
  moreover have "\<forall>r \<in> set (all_recs V2). rec_wf pb r" using lo V12(1) by (auto simp: log_ok_def segs_wf_def)
  moreover have "replay ?i [] (entries_of pb (all_recs V2)) = Some (ld_entries ld)"
    using lo V12(3) by (simp add: log_ok_def ents_tagged read_view_part)
  ultimately have fd: "feed (load_record pb ?i) (rs_hs s, []) (read_view V ?min) = Inr (ld_hardState ld, ld_entries ld)"
    unfolding V12(3) by (simp add: feed_replay)
  obtain w t where w: "wal_rep w V" and ld: "rs_Load pb s = io_bind gcLocked (\<lambda>_. io_ret ld)
      (s\<lparr>rs_tmps := t, rs_meta := ?meta, rs_wal := w, rs_hs := ld_hardState ld,
         rs_lastIndex := ?i + length (ld_entries ld)\<rparr>)"
    using Load_raw [OF wf cur min fd] unfolding loaded_eta by blast
  let ?s = "s\<lparr>rs_tmps := t, rs_meta := ?meta, rs_wal := w, rs_hs := ld_hardState ld,
    rs_lastIndex := ?i + length (ld_entries ld)\<rparr>"
  have "mins_ok pb ?s (sg_seq (fst (last V)))"
    using mins lo by (auto simp: mins_ok_def log_ok_def snap_min_def split: option.splits)
  moreover have "snap_current pb ?s = snap_current pb s" by (rule snap_current_cong) simp
  ultimately have "rs_log pb ?s V ld" using w hd lo cur hs(1) by (simp add: rs_log_def rs_rep_def)
  from gc_log [OF this] show ?thesis using ld by (auto simp: io_bind_def)
qed

section \<open>Restarting\<close>

text \<open>A prefix of the records of a batch is a batch: perhaps without the hard state, and with
  fewer entries.\<close>

lemma entry_records_take:
  assumes pb: "pb_ok pb" and "entry_records pb es = Inr rs"
  shows "entries_of pb (take n rs) = take n es" and "last_hs pb h (take n rs) = h"
proof -
  have m: "map (entry_of pb) rs = map (\<lambda>e. [e]) es" using entry_records_entries(3) [OF assms] .
  have "entries_of pb (take n rs) = concat (take n (map (entry_of pb) rs))" by (simp add: entries_of_def take_map)
  then show "entries_of pb (take n rs) = take n es" unfolding m take_map by simp
  have "\<forall>r \<in> set rs. w_type r = recEntry"
    using assms(2) by (induction es arbitrary: rs) (auto elim!: bind_resE split: option.splits)
  then have "\<forall>r \<in> set (take n rs). w_type r = recEntry" by (meson in_set_takeD)
  moreover have "last_hs pb h rs' = h" if "\<forall>r \<in> set rs'. w_type r = recEntry" for rs'
    using that by (induction rs') (auto simp: hs_step_def recEntry_def recHardState_def)
  ultimately show "last_hs pb h (take n rs) = h" by blast
qed

lemma save_records_prefix:
  assumes pb: "pb_ok pb" and recs: "save_records pb hs es = Inr (p @ q)"
  shows "\<exists>hs' n. entries_of pb p = take n es \<and> (hs' = None \<or> hs' = hs) \<and>
    (\<forall>h. last_hs pb h p = (case hs' of None \<Rightarrow> h | Some x \<Rightarrow> Some x)) \<and>
    (q = [] \<longrightarrow> hs' = hs \<and> take n es = es)"
proof -
  obtain a b where ab: "hs_records pb hs = Inr a" "entry_records pb es = Inr b" "p @ q = a @ b"
    using recs by (auto simp: save_records_def elim!: bind_resE)
  note a = hs_records_ok [OF pb ab(1)] hs_records_entries(2) [OF pb ab(1)]
    and b = entry_records_take [OF pb ab(2)] and len = entry_records_entries(3) [OF pb ab(2), THEN map_eq_imp_length_eq]
  show ?thesis
  proof (cases "length a \<le> length p")
    case True
    let ?n = "length p - length a"
    have "p = take (length p) (a @ b)" using ab(3) by (metis append_eq_conv_conj)
    then have p: "p = a @ take ?n b" using True by simp
    have "entries_of pb p = take ?n es" "last_hs pb h p = (case hs of None \<Rightarrow> h | Some x \<Rightarrow> Some x)" for h
      using a(2) [of h] a(4) b by (subst p, simp)+
    moreover have "q = [] \<longrightarrow> take ?n es = es" using ab(3) len by auto
    ultimately show ?thesis by (intro exI [of _ hs] exI [of _ ?n]) simp
  next
    case False
    then have "length a \<le> 1" using a(3) ab(1) by (cases hs) (auto simp: hs_records_def)
    then have "p = []" "a \<noteq> []" using False by (cases p; cases a; auto)+
    then show ?thesis using ab(3) by (intro exI [of _ None] exI [of _ 0]) auto
  qed
qed


section \<open>The log contract\<close>

text \<open>The contents of a store: what \<open>Load\<close> returns.\<close>

definition rs_view :: "pb_codec \<Rightarrow> RaftStore \<Rightarrow> Loaded" where
  "rs_view pb s = (case snd (rs_Load pb s) of Inr ld \<Rightarrow> ld
     | Inl _ \<Rightarrow> \<lparr>ld_hardState = None, ld_snapshotMeta = None, ld_snapshotData = [], ld_entries = []\<rparr>)"

lemma reload_log:
  assumes "rs_log pb s V ld"
  shows "\<exists>s' V'. rs_Load pb s = (s', Inr ld) \<and> rs_log pb s' V' ld"
  using assms wal_rep_found [OF rs_log_rep [OF assms]]
  by (intro Load_log [where V = V and tail = "[]"]) (simp_all add: rs_log_def rs_rep_def)

lemma rs_log_view: "rs_log pb s V ld \<Longrightarrow> rs_view pb s = ld"
  using reload_log [of pb s V ld] by (auto simp: rs_view_def)

lemma raftstore_keeps_log:
  assumes pb: "pb_ok pb"
  shows "log_storage (rs_ops pb) (\<lambda>s. \<exists>V ld. rs_log pb s V ld) (rs_view pb) (rs_storable pb)"
proof unfold_locales
  fix s assume "\<exists>V ld. rs_log pb s V ld"
  then obtain V ld where l: "rs_log pb s V ld" by blast
  note v = rs_log_view [OF l]
  obtain s' V' where s': "rs_Load pb s = (s', Inr ld)" "rs_log pb s' V' ld" using reload_log [OF l] by blast
  then show "\<exists>s'. st_Load (rs_ops pb) s = Inr (s', rs_view pb s) \<and> (\<exists>V ld. rs_log pb s' V ld) \<and>
      rs_view pb s' = rs_view pb s"
    using v rs_log_view [OF s'(2)] by (intro exI [of _ s']) (auto simp: rs_ops_def)
  show "view_ok (rs_view pb s)" using l v by (simp add: rs_log_def log_ok_def)
  show "\<exists>s'. st_Save (rs_ops pb) s hs es = Inr s' \<and> (\<exists>V ld. rs_log pb s' V ld) \<and>
      rs_view pb s' = view_save (rs_view pb s) hs es"
    if pre: "save_pre (rs_view pb s) es" and st: "rs_storable pb s hs es" for hs es
  proof -
    obtain s' V' where "rs_Save pb hs es s = (s', Inr ())" "rs_log pb s' V' (view_save ld hs es)"
      using Save_log [OF pb l _ st] pre v by auto
    then show ?thesis using rs_log_view [of pb s'] v by (intro exI [of _ s']) (auto simp: rs_ops_def)
  qed
qed

section \<open>Snapshots\<close>

lemma write_total:
  assumes "faults (rs_wal s) = []" and "meta_Marshal pb meta = Some mb"
  shows "\<exists>s'. writeSnapshotFile pb meta dat s = (s', Inr ())"
  using assms
  by (simp add: writeSnapshotFile_def Let_def tmp_write_def tmp_rename_def rs_sys_def io_bind_def)

text \<open>The state in which a written snapshot is published.\<close>

lemma write_publish:
  assumes pb: "pb_ok pb" and flt: "faults (rs_wal s) = []"
    and m: "meta_Marshal pb meta = Some mb" and dat: "length dat < 2 ^ 64"
    and new: "\<forall>k \<in> fst ` set (rs_snaps s). k \<le> snapshotPath meta" "snap_index (rs_meta s) < sm_index meta"
  shows "\<exists>s'. io_bind (writeSnapshotFile pb meta dat) (\<lambda>_. snapshot_publish meta) s = gcLocked s' \<and>
    rs_wal s' = rs_wal s \<and> rs_meta s' = Some meta \<and> rs_hs s' = rs_hs s \<and> rs_lastIndex s' = rs_lastIndex s \<and>
    snap_current pb s' (Some meta) dat \<and>
    (\<forall>V. rs_rep pb s V \<and> sm_minWalSegment meta \<le> sg_seq (fst (last V)) \<longrightarrow> rs_rep pb s' V)"
proof -
  obtain s1 where s1: "writeSnapshotFile pb meta dat s = (s1, Inr ())" using write_total [OF flt m] by blast
  note w = writeSnapshotFile_ok [OF s1] write_no_faults(1) [OF flt s1]
  let ?s' = "s1\<lparr>rs_meta := Some meta\<rparr>"
  have snaps: "rs_snaps s1 = AList.update (snapshotPath meta) (snapshot_bytes mb dat) (rs_snaps s)" using w(1) m by auto
  have "length mb \<le> maxRecordSize" "meta_Unmarshal pb mb = Some meta"
    using pb m by (auto simp: pb_ok_def fits_def codec_okD)
  then have "readSnapshotFile pb (snapshot_bytes mb dat) = Inr (meta, dat)"
    using readSnapshotFile_bytes [of mb pb dat] dat by (simp add: maxRecordSize_def)
  then have "read_path pb ?s' (snapshotPath meta) = Inr (meta, dat)" by (simp add: read_path_def snaps)
  moreover have "\<forall>k \<in> fst ` set (rs_snaps ?s'). k \<le> snapshotPath meta"
    using new(1) by (simp add: snaps AList.dom_update)
  ultimately have "snap_current pb ?s' (Some meta) dat" by (simp add: snap_current_def)
  moreover have "rs_rep pb ?s' V" if "rs_rep pb s V" "sm_minWalSegment meta \<le> sg_seq (fst (last V))" for V
    using write_rep(1) [OF pb that s1] that(2) by (auto simp: rs_rep_def mins_ok_def)
  moreover have "snapshot_publish meta s1 = gcLocked ?s'"
    using new(2) w(2) by (simp add: snapshot_publish_def snap_index_def split: option.splits)
  then have "io_bind (writeSnapshotFile pb meta dat) (\<lambda>_. snapshot_publish meta) s = gcLocked ?s'"
    using s1 by (simp add: io_bind_def)
  ultimately show ?thesis using w by (intro exI [of _ ?s']) simp
qed

lemma snap_current_below:
  assumes "snap_current pb s meta dat" and "snap_index meta < sm_index m"
  shows "\<forall>k \<in> fst ` set (rs_snaps s). k \<le> snapshotPath m"
proof (cases meta)
  case None
  then show ?thesis using assms(1) by (simp add: snap_current_def)
next
  case (Some old)
  then have "snapshotPath old \<le> snapshotPath m" using assms(2) by (simp add: snapshotPath_def snap_index_def)
  then show ?thesis using assms(1) Some by (auto simp: snap_current_def intro: order_trans)
qed

text \<open>What a snapshot should leave, with the segment number that the storage adds.\<close>

abbreviation snap_view :: "Loaded \<Rightarrow> SnapshotMeta \<Rightarrow> bytes \<Rightarrow> bool \<Rightarrow> Loaded" where
  "snap_view ld meta dat discard \<equiv> (view_snapshot ld meta dat discard)\<lparr>ld_snapshotMeta := Some meta\<rparr>"

lemma keep_log:
  assumes lo: "log_ok pb V ld" and idx: "snap_index (ld_snapshotMeta ld) < sm_index meta"
    "sm_index meta < snap_index (ld_snapshotMeta ld) + length (ld_entries ld)"
    and min: "sm_minWalSegment meta = snap_min (ld_snapshotMeta ld)"
  shows "log_ok pb V (snap_view ld meta dat False)"
proof -
  let ?i = "snap_index (ld_snapshotMeta ld)" and ?i' = "sm_index meta"
  have e: "ld_entries (view_snapshot ld meta dat False) = drop (?i' - ?i) (ld_entries ld)"
    using idx(1) by (simp add: view_snapshot_def view_first_snap)
  have v: "view_ok (view_snapshot ld meta dat False)" using lo by (intro view_snapshot_wf) (simp add: log_ok_def)
  have "ld_snapshotMeta (view_snapshot ld meta dat False) = Some meta"
    using idx(1) by (simp add: view_snapshot_def view_first_snap)
  then have "view_ok (snap_view ld meta dat False)" using v by (simp add: view_ok_def view_first_def)
  then show ?thesis
    using lo min e idx tags_ok_later [of ?i "log_part pb (ld_snapshotMeta ld) V" "ld_entries ld" ?i']
    by (simp add: log_ok_def snap_index_def [of "Some meta"] snap_min_def [of "Some meta"])
qed

lemma discard_log:
  assumes "segs_wf pb (V @ [(sg, rs)])" and "entries_of pb rs = []" and "sm_minWalSegment meta = sg_seq sg"
    and "\<forall>p \<in> set V. sg_seq (fst p) < sg_seq sg" and "snap_index (ld_snapshotMeta ld) < sm_index meta"
  shows "log_ok pb (V @ [(sg, rs)]) (snap_view ld meta dat True)"
proof -
  have "read_part (sg_seq sg) (V @ [(sg, rs)]) = [(sg, rs)]"
    using assms(4) by (auto simp: read_part_def filter_empty_conv)
  moreover have "ld_entries (view_snapshot ld meta dat True) = []"
    using assms(5) by (simp add: view_snapshot_def view_first_snap)
  ultimately show ?thesis
    using assms by (simp add: log_ok_def snap_index_def snap_min_def view_ok_def)
qed

lemma begin_log:
  assumes pb: "pb_ok pb" and log: "rs_log pb s V ld" and head: "hs_records pb (rs_hs s) = Inr head"
    and idx: "snap_index (ld_snapshotMeta ld) < sm_index meta"
    and reach: "discard \<or> sm_index meta < snap_index (ld_snapshotMeta ld) + length (ld_entries ld)"
    and min: "sm_minWalSegment meta = 0"
  shows "\<exists>s1 V1 n. snapshot_begin pb meta discard s = (s1, Inr (Some (meta\<lparr>sm_minWalSegment := n\<rparr>))) \<and>
    rs_rep pb s1 V1 \<and> rs_hs s1 = rs_hs s \<and> rs_snaps s1 = rs_snaps s \<and> rs_meta s1 = rs_meta s \<and>
    log_ok pb V1 (snap_view ld (meta\<lparr>sm_minWalSegment := n\<rparr>) dat discard) \<and>
    rs_lastIndex s1 = sm_index meta + length (ld_entries (view_snapshot ld meta dat discard)) \<and>
    n \<le> sg_seq (fst (last V)) + 1"
proof -
  have meta: "rs_meta s = ld_snapshotMeta ld" and rep: "rs_rep pb s V" and lo: "log_ok pb V ld"
    using log by (simp_all add: rs_log_def)
  have fresh: "\<not> (case rs_meta s of None \<Rightarrow> False | Some m \<Rightarrow> sm_index meta \<le> sm_index m)"
    using idx meta by (simp add: snap_index_def split: option.splits)
  let ?meta1 = "case rs_meta s of None \<Rightarrow> meta | Some m \<Rightarrow> meta\<lparr>sm_minWalSegment := sm_minWalSegment m\<rparr>"
  show ?thesis
  proof (cases discard)
    case False
    let ?n = "snap_min (rs_meta s)"
    have "?meta1 = meta\<lparr>sm_minWalSegment := ?n\<rparr>" using min by (cases meta) (simp add: snap_min_def split: option.split)
    then have "snapshot_begin pb meta discard s = (s, Inr (Some (meta\<lparr>sm_minWalSegment := ?n\<rparr>)))"
      using fresh False by (simp add: snapshot_begin_def)
    moreover have "log_ok pb V (snap_view ld (meta\<lparr>sm_minWalSegment := ?n\<rparr>) dat False)"
      using lo idx reach False meta by (intro keep_log) simp_all
    moreover have "rs_lastIndex s = sm_index meta + length (ld_entries (view_snapshot ld meta dat False))"
      using log idx reach False by (simp add: rs_log_def view_snapshot_def view_first_snap)
    moreover have "?n \<le> sg_seq (fst (last V)) + 1" using lo meta by (simp add: log_ok_def)
    ultimately show ?thesis using rep False by (intro exI [of _ s] exI [of _ V] exI [of _ ?n]) simp
  next
    case True
    let ?s = "s\<lparr>rs_lastIndex := sm_index meta\<rparr>"
    have repl: "rs_rep pb ?s V" using rep by (simp add: rs_rep_lastIndex)
    obtain s1 where s1: "rotateLocked pb ?s = (s1, Inr ())"
      using rotate_total [of ?s V pb head] rs_log_rep [OF log] head hs_records_ok(1) [OF pb head] by auto
    obtain sg where sg: "rs_rep pb s1 (V @ [(sg, head)])" and nxt: "sg_seq sg = sg_seq (fst (last V)) + 1"
      using rotate_ok [OF pb repl s1] head by auto
    have wr: "wal_rep (rs_wal s1) (V @ [(sg, head)])" using sg by (simp add: rs_rep_def)
    have seg: "segments (rs_wal s1) \<noteq> []" "last (segments (rs_wal s1)) = sg" using wal_rep_last(7) [OF wr] by simp_all
    have below: "\<forall>p \<in> set V. sg_seq (fst p) < sg_seq sg" using wal_rep_last(8) [OF wr] .
    have "?meta1\<lparr>sm_minWalSegment := sg_seq sg\<rparr> = meta\<lparr>sm_minWalSegment := sg_seq sg\<rparr>"
      by (cases meta) (simp split: option.split)
    then have "snapshot_begin pb meta discard s = (s1, Inr (Some (meta\<lparr>sm_minWalSegment := sg_seq sg\<rparr>)))"
      using fresh True s1 seg by (simp add: snapshot_begin_def io_bind_def)
    moreover have "segs_wf pb (V @ [(sg, head)])"
      using lo hs_records_entries(1) [OF pb head] by (auto simp: log_ok_def segs_wf_def)
    then have "log_ok pb (V @ [(sg, head)]) (snap_view ld (meta\<lparr>sm_minWalSegment := sg_seq sg\<rparr>) dat True)"
      using hs_records_entries(2) [OF pb head] below idx by (intro discard_log) simp_all
    moreover have "ld_entries (view_snapshot ld meta dat True) = []"
      using idx by (simp add: view_snapshot_def view_first_snap)
    ultimately show ?thesis
      using sg nxt True rotateLocked_frame [OF s1] by (intro exI [of _ s1] exI [of _ "V @ [(sg, head)]"] exI [of _ "sg_seq sg"]) simp
  qed
qed



section \<open>Restarts that go wrong\<close>

lemma reopen:
  assumes "wal_rep w V"
  shows "\<exists>w'. wal_Open ss True (files w) [] = Inr w' \<and> wal_found w' V []"
proof -
  obtain V0 sg rs where V: "V = V0 @ [(sg, rs)]" using wal_rep_snoc [OF assms] by blast
  have d: "found_file rs [] = durable rs" by (simp add: found_file_def durable_def)
  show ?thesis
    using assms unfolding V wal_rep_def
    by (intro open_found) (simp_all add: torn_tail_def d)
qed

text \<open>The first snapshot of a store, and loading, without any assumption on the segments.\<close>

lemma first_snapshot:
  assumes pb: "pb_ok pb" and wr: "wal_rep (rs_wal s) V" and sm: "rs_meta s = None" "rs_snaps s = []"
    and m: "meta_Marshal pb meta = Some mb" and meta: "0 < sm_index meta" and dat: "length dat < 2 ^ 64"
  shows "\<exists>s'. rs_SaveSnapshot pb meta dat False s = (s', Inr ()) \<and>
    wal_rep (rs_wal s') (gc_view (Some meta) V) \<and> snap_current pb s' (Some meta) dat"
proof -
  have "faults (rs_wal s) = []" using wr by (simp add: wal_rep_def)
  then obtain s1 where s1: "io_bind (writeSnapshotFile pb meta dat) (\<lambda>_. snapshot_publish meta) s = gcLocked s1"
      "rs_wal s1 = rs_wal s" "rs_meta s1 = Some meta" "snap_current pb s1 (Some meta) dat"
    using write_publish [OF pb _ m dat, of s] sm meta by (auto simp: snap_index_def)
  obtain s' where s': "gcLocked s1 = (s', Inr ())" "wal_rep (rs_wal s') (gc_view (Some meta) V)"
      "snap_current pb s' (Some meta) dat"
    using gc_full [of s1 V pb dat] s1 wr by auto
  then have "rs_SaveSnapshot pb meta dat False s = (s', Inr ())"
    using s1(1) sm(1) by (simp add: rs_SaveSnapshot_def snapshot_begin_def io_bind_def)
  then show ?thesis using s' by blast
qed

lemma open_load:
  assumes wr: "wal_rep (rs_wal s) V" and cur: "snap_current pb s meta dat"
    and min: "snap_min meta \<le> sg_seq (fst (last V))"
    and fd: "feed (load_record pb (snap_index meta)) (None, []) (read_view V (snap_min meta)) = Inr (h, es)"
  shows "\<exists>s1 s2. rs_Open ss True (files (rs_wal s)) (rs_snaps s) tmps [] = Inr s1 \<and>
    rs_Load pb s1 = (s2, Inr \<lparr>ld_hardState = h, ld_snapshotMeta = meta, ld_snapshotData = dat, ld_entries = es\<rparr>) \<and>
    wal_rep (rs_wal s2) (gc_view meta V) \<and> snap_current pb s2 meta dat \<and> rs_meta s2 = meta"
proof -
  obtain w where w: "wal_Open ss True (files (rs_wal s)) [] = Inr w" "wal_found w V []"
    using reopen [OF wr] by blast
  let ?s1 = "\<lparr>rs_wal = w, rs_hs = None, rs_meta = None, rs_lastIndex = 0, rs_snaps = rs_snaps s, rs_tmps = tmps\<rparr>"
  have c: "snap_current pb ?s1 meta dat" using cur snap_current_cong [of ?s1 s pb] by simp
  obtain w' t where l: "wal_rep w' V" "rs_Load pb ?s1 = io_bind gcLocked
        (\<lambda>_. io_ret \<lparr>ld_hardState = h, ld_snapshotMeta = meta, ld_snapshotData = dat, ld_entries = es\<rparr>)
        (?s1\<lparr>rs_tmps := t, rs_meta := meta, rs_wal := w', rs_hs := h, rs_lastIndex := snap_index meta + length es\<rparr>)"
    using Load_raw [of ?s1 V "[]" pb meta dat h es] w(2) c min fd by auto
  let ?s2 = "?s1\<lparr>rs_tmps := t, rs_meta := meta, rs_wal := w', rs_hs := h, rs_lastIndex := snap_index meta + length es\<rparr>"
  have "snap_current pb ?s2 meta dat" using c snap_current_cong [of ?s2 ?s1 pb] by simp
  then obtain s2 where "gcLocked ?s2 = (s2, Inr ())" "wal_rep (rs_wal s2) (gc_view meta V)" "snap_current pb s2 meta dat"
    using gc_full [of ?s2 V pb dat] l(1) by auto
  then show ?thesis
    using w(1) l(2) gcLocked_frame(1) [of ?s2 s2] by (auto simp: rs_Open_def io_bind_def)
qed

text \<open>C18. A snapshot at the last index of a log whose tail had been overwritten brings the
  overwritten entries back. The log file holds entries \<open>1..n\<close> and after them a different entry
  \<open>j < n\<close>, so that the log ends at \<open>j\<close>; after \<open>SaveSnapshot\<close> at \<open>j\<close> and a restart it holds the old
  entries \<open>j+1..n\<close> again, because replaying skips the overwriting entry as covered by the
  snapshot without truncating.\<close>

theorem overwritten_entries_return:
  assumes pb: "pb_ok pb" and log: "rs_log pb s [(sg, rs)] ld" and none: "ld_snapshotMeta ld = None"
    and rs: "entries_of pb rs = es @ [e]" and es: "contiguous 1 es" and e: "0 < e_index e" "e_index e < length es"
    and m: "meta_Marshal pb meta = Some mb" and meta: "sm_index meta = e_index e" "sm_minWalSegment meta = 0"
    and dat: "length dat < 2 ^ 64"
  shows "ld_entries ld = take (e_index e - 1) es @ [e] \<and>
    (\<exists>s1 s2 s3 ld'. rs_SaveSnapshot pb meta dat False s = (s1, Inr ()) \<and>
      rs_Open ss True (files (rs_wal s1)) (rs_snaps s1) tmps [] = Inr s2 \<and>
      rs_Load pb s2 = (s3, Inr ld') \<and> ld_entries ld' = drop (e_index e) es)"
proof -
  have lo: "log_ok pb [(sg, rs)] ld" and sm: "rs_meta s = None" "rs_snaps s = []"
    using log none by (simp_all add: rs_log_def snap_current_def)
  have es0: "replay 0 [] es = Some es"
    using replay_save [of 1 es 0 "[]"] view_append_contiguous [of 1 es 1 "[]"] es by (cases "es = []") simp_all
  then have "replay 0 [] (es @ [e]) = Some (take (e_index e - 1) es @ [e])"
    using e by (simp add: replay_append replay_entry_def Let_def)
  then have old: "ld_entries ld = take (e_index e - 1) es @ [e]"
    using lo none rs by (simp add: log_ok_def snap_index_def snap_min_def read_part_def)
  have new: "replay (e_index e) [] (es @ [e]) = Some (drop (e_index e) es)"
    using replay_later [OF es0, of "e_index e" "[]"] e(2) by (auto simp: replay_append replay_entry_def)
  have one: "gc_view (Some meta) [(sg, rs)] = [(sg, rs)]" by (simp add: gc_view_def remove_view_def)
  obtain s1 where s1: "rs_SaveSnapshot pb meta dat False s = (s1, Inr ())"
      "wal_rep (rs_wal s1) [(sg, rs)]" "snap_current pb s1 (Some meta) dat"
    using first_snapshot [OF pb rs_log_rep [OF log] sm m _ dat] meta e(1) one by auto
  have wf: "\<forall>r \<in> set rs. rec_wf pb r" using lo by (simp add: log_ok_def segs_wf_def)
  have "feed (load_record pb (snap_index (Some meta))) (None, []) (read_view [(sg, rs)] (snap_min (Some meta))) =
      Inr (last_hs pb None rs, drop (e_index e) es)"
    using new rs meta feed_replay [OF wf] by (simp add: read_view_def snap_index_def snap_min_def)
  from open_load [OF s1(2,3) _ this, of ss tmps] show ?thesis
    using old s1(1) meta(2) by (auto simp: snap_min_def)
qed

text \<open>The segment files after a crash inside \<open>Rotate\<close>, between creating the new segment and
  writing its first records.\<close>

definition crash_rotate :: "WAL \<Rightarrow> nat \<Rightarrow> (Segment \<times> File) list" where
  "crash_rotate w tag = files w @
     [(\<lparr>sg_seq = sg_seq (last (segments w)) + 1, sg_tag = tag\<rparr>, \<lparr>f_data = [], f_synced = 0\<rparr>)]"

lemma crash_rotate_found:
  assumes rep: "wal_rep w (V @ [(sg, rs)])" and new: "new = \<lparr>sg_seq = sg_seq sg + 1, sg_tag = tag\<rparr>"
  shows "\<exists>w'. wal_Open ss True (crash_rotate w tag) [] = Inr w' \<and> wal_found w' ((V @ [(sg, rs)]) @ [(new, [])]) []"
proof -
  note l = wal_rep_last [OF rep]
  let ?V = "V @ [(sg, rs)]" and ?fs = "files w @ [(new, found_file [] [])]"
  have fs: "crash_rotate w tag = ?fs" using l(7) by (simp add: crash_rotate_def new found_file_def)
  have "\<forall>p \<in> set ?V. sg_seq (fst p) < sg_seq new" using l(8) by (auto simp: new)
  then have ne: "new \<notin> set (map fst ?V)" by auto
  have keys: "set (map fst (files w)) = set (map fst ?V)" "distinct (map fst (files w))"
    using rep by (simp_all add: wal_rep_def)
  then have "map_of (files w) new = None" using ne by (metis list.set_map map_of_eq_None_iff)
  then have mn: "map_of ?fs new = Some (found_file [] [])" by (simp add: map_add_def)
  have mo: "\<forall>p \<in> set ?V. map_of ?fs (fst p) = Some (durable (snd p))"
  proof
    fix p assume p: "p \<in> set ?V"
    then have "map_of (files w) (fst p) = Some (durable (snd p))" using rep unfolding wal_rep_def by blast
    moreover have "fst p \<noteq> new" using ne p by (metis image_eqI list.set_map)
    ultimately show "map_of ?fs (fst p) = Some (durable (snd p))" by (simp add: map_add_def)
  qed
  have d: "distinct (map fst ?fs)" "set (map fst ?fs) = set (map fst (?V @ [(new, [])]))"
    using keys ne by auto
  have s: "sorted_wrt (<) (map (sg_seq \<circ> fst) (?V @ [(new, [])]))"
    using rep l(8) by (fastforce simp: wal_rep_def new sorted_wrt_append)
  have ok: "\<forall>p \<in> set (?V @ [(new, [])]). \<forall>r \<in> set (snd p). rec_ok r" using rep by (auto simp: wal_rep_def)
  show ?thesis
    unfolding fs
  proof (rule open_found [OF _ s ok d])
    show "\<forall>p \<in> set (butlast (?V @ [(new, [])])). map_of ?fs (fst p) = Some (durable (snd p))"
      unfolding butlast_snoc by (rule mo)
    show "map_of ?fs (fst (last (?V @ [(new, [])]))) = Some (found_file (snd (last (?V @ [(new, [])]))) [])"
      unfolding last_snoc fst_conv snd_conv by (rule mn)
  qed (simp_all add: torn_tail_def)
qed

text \<open>C19. A crash inside \<open>Rotate\<close> can make a node forget its vote. The crash leaves a new segment
  without the hard state at its head. The next start still reads the term and the vote from the
  old segment. But when a snapshot at the last index is then saved, garbage collection deletes
  the old segment, because the tag of the new one lies within the snapshot, and after one more
  restart the node has neither a term nor a vote, and can vote again in a term in which it has
  voted.\<close>

theorem rotate_crash_forgets_vote:
  assumes pb: "pb_ok pb" and log: "rs_log pb s [(sg, rs)] ld" and none: "ld_snapshotMeta ld = None"
    and h: "ld_hardState ld = Some h" and m: "meta_Marshal pb meta = Some mb"
    and meta: "sm_index meta = rs_lastIndex s" "0 < sm_index meta" "sm_minWalSegment meta = 0"
    and dat: "length dat < 2 ^ 64"
  shows "\<exists>s1 s2 ld1 s3 s4 s5 ld2.
    rs_Open ss True (crash_rotate (rs_wal s) (rs_lastIndex s + 1)) (rs_snaps s) tmps [] = Inr s1 \<and>
    rs_Load pb s1 = (s2, Inr ld1) \<and> ld_hardState ld1 = Some h \<and>
    rs_SaveSnapshot pb meta dat False s2 = (s3, Inr ()) \<and>
    rs_Open ss True (files (rs_wal s3)) (rs_snaps s3) tmps' [] = Inr s4 \<and>
    rs_Load pb s4 = (s5, Inr ld2) \<and> ld_hardState ld2 = None"
proof -
  have lo: "log_ok pb [(sg, rs)] ld" and sn: "rs_snaps s = []" and hs: "last_hs pb None rs = Some h"
    using log none h by (simp_all add: rs_log_def snap_current_def rs_rep_def)
  let ?new = "\<lparr>sg_seq = sg_seq sg + 1, sg_tag = rs_lastIndex s + 1\<rparr>"
  let ?V = "[(sg, rs), (?new, [])]"
  obtain w where w: "wal_Open ss True (crash_rotate (rs_wal s) (rs_lastIndex s + 1)) [] = Inr w" "wal_found w ?V []"
    using crash_rotate_found [of "rs_wal s" "[]" sg rs ?new "rs_lastIndex s + 1" ss] rs_log_rep [OF log] by auto
  let ?s1 = "\<lparr>rs_wal = w, rs_hs = None, rs_meta = None, rs_lastIndex = 0, rs_snaps = [], rs_tmps = tmps\<rparr>"
  have wf: "\<forall>r \<in> set rs. rec_wf pb r" using lo by (simp add: log_ok_def segs_wf_def)
  have "feed (load_record pb (snap_index None)) (rs_hs ?s1, []) (read_view ?V (snap_min None)) =
      Inr (Some h, ld_entries ld)"
    using lo none feed_replay [OF wf] hs
    by (simp add: read_view_def snap_index_def snap_min_def log_ok_def read_part_def ents_tagged)
  then obtain w' t where w': "wal_rep w' ?V" "rs_Load pb ?s1 = io_bind gcLocked
        (\<lambda>_. io_ret \<lparr>ld_hardState = Some h, ld_snapshotMeta = None, ld_snapshotData = [], ld_entries = ld_entries ld\<rparr>)
        (?s1\<lparr>rs_tmps := t, rs_meta := None, rs_wal := w', rs_hs := Some h,
          rs_lastIndex := snap_index None + length (ld_entries ld)\<rparr>)"
    using Load_raw [of ?s1 ?V "[]" pb None "[]" "Some h" "ld_entries ld"] w(2) by (auto simp: snap_current_def snap_min_def)
  let ?s2 = "?s1\<lparr>rs_tmps := t, rs_meta := None, rs_wal := w', rs_hs := Some h,
    rs_lastIndex := snap_index None + length (ld_entries ld)\<rparr>"
  have l1: "rs_Load pb ?s1 = (?s2, Inr \<lparr>ld_hardState = Some h, ld_snapshotMeta = None, ld_snapshotData = [],
      ld_entries = ld_entries ld\<rparr>)"
    using w'(2) by (simp add: io_bind_def gcLocked_def)
  have gv: "gc_view (Some meta) ?V = [(?new, [])]"
    using meta by (simp add: gc_view_def remove_view_def)
  obtain s3 where s3: "rs_SaveSnapshot pb meta dat False ?s2 = (s3, Inr ())"
      "wal_rep (rs_wal s3) [(?new, [])]" "snap_current pb s3 (Some meta) dat"
    using first_snapshot [OF pb, of ?s2 ?V meta mb dat] w'(1) m meta(2) dat gv by auto
  obtain s4 s5 where "rs_Open ss True (files (rs_wal s3)) (rs_snaps s3) tmps' [] = Inr s4"
      "rs_Load pb s4 = (s5, Inr \<lparr>ld_hardState = None, ld_snapshotMeta = Some meta, ld_snapshotData = dat, ld_entries = []\<rparr>)"
    using open_load [OF s3(2,3), of None "[]" ss tmps'] meta(3) by (auto simp: snap_min_def read_view_def)
  then show ?thesis using w(1) sn l1 s3(1) by (auto simp: rs_Open_def)
qed

section \<open>Witnesses\<close>

definition ex_loaded :: "WalRecord list \<Rightarrow> Entry list \<Rightarrow> Loaded" where
  "ex_loaded rs es = \<lparr>ld_hardState = last_hs ex_codec None rs, ld_snapshotMeta = None, ld_snapshotData = [], ld_entries = es\<rparr>"

definition ex_records :: "WalRecord list" where
  "ex_records = [ex_hs_rec 2 ''b'', ex_entry_rec 1 1, ex_entry_rec 2 1, ex_entry_rec 3 1, ex_entry_rec 2 2]"

definition ex_meta_at :: "nat \<Rightarrow> SnapshotMeta" where
  "ex_meta_at i = \<lparr>sm_index = i, sm_term = 2, sm_minWalSegment = 0\<rparr>"

lemma ex_marshal:
  "hs_Marshal ex_codec h = (if hs_term h < 2 ^ 64 \<and> length (hs_votedFor h) \<le> 1000
     then Some (le_bytes 8 (hs_term h) @ map (\<lambda>c. of_nat (of_char c)) (hs_votedFor h)) else None)"
  "meta_Marshal ex_codec m = (if sm_index m < 2 ^ 64 \<and> sm_term m < 2 ^ 64 \<and> sm_minWalSegment m < 2 ^ 64
     then Some (le_bytes 8 (sm_index m) @ le_bytes 8 (sm_term m) @ le_bytes 8 (sm_minWalSegment m)) else None)"
  "i < 2 ^ 64 \<Longrightarrow> t < 2 ^ 64 \<Longrightarrow> entry_Marshal ex_codec (ex_entry_of i t) = Some (le_bytes 8 i @ le_bytes 8 t @ [0])"
  by (simp_all add: ex_codec_def ex_entry_of_def)

lemma ex_records_hs:
  "rs_hs (ex_disk n ex_records) = Some \<lparr>hs_term = 2, hs_votedFor = ''b''\<rparr>"
  "last_hs ex_codec None ex_records = Some \<lparr>hs_term = 2, hs_votedFor = ''b''\<rparr>"
  by (simp_all add: ex_disk_def ex_records_def)

lemma ex_rec_wf [simp]: "rec_wf ex_codec (ex_entry_rec i t)" "rec_wf ex_codec (ex_hs_rec t v)"
  by (simp_all add: rec_wf_def ex_entry_rec_def ex_hs_rec_def ex_codec_def)

lemma ex_entry_of_rec [simp]:
  "entry_of ex_codec (ex_hs_rec t v) = []"
  "i < 2 ^ 64 \<Longrightarrow> t < 2 ^ 64 \<Longrightarrow> entry_of ex_codec (ex_entry_rec i t) = [ex_entry_of i t]"
  by (simp_all add: entry_of_def ex_entry_rec_def ex_hs_rec_def ex_codec_def ex_entry_of_def recEntry_def recHardState_def)

lemma ex_log:
  assumes "\<forall>r \<in> set rs. rec_ok r \<and> rec_wf ex_codec r" and "replay 0 [] (entries_of ex_codec rs) = Some es"
    and "contiguous 1 es" and "n = length es"
  shows "rs_log ex_codec (ex_disk n rs) [(ex_seg, rs)] (ex_loaded rs es)"
proof -
  have "rs_rep ex_codec (ex_disk n rs) [(ex_seg, rs)]" using assms(1) by (intro ex_disk_rep) simp
  then show ?thesis
    using assms by (simp add: rs_log_def log_ok_def ex_loaded_def segs_wf_def snap_index_def snap_min_def
        read_part_def ents_tagged view_ok_def view_first_def snap_current_def) (simp add: ex_disk_def)
qed

lemma ex_records_log:
  "rs_log ex_codec (ex_disk 2 ex_records) [(ex_seg, ex_records)] (ex_loaded ex_records [ex_entry_of 1 1, ex_entry_of 2 2])"
  by (rule ex_log) (simp_all add: ex_records_def replay_entry_def ex_entry_of_def)




theorem overwritten_entries_return_witness:
  "\<exists>s1 s2 s3 ld'. rs_SaveSnapshot ex_codec (ex_meta_at 2) [5] False (ex_disk 2 ex_records) = (s1, Inr ()) \<and>
     rs_Open 0 True (files (rs_wal s1)) (rs_snaps s1) [] [] = Inr s2 \<and>
     rs_Load ex_codec s2 = (s3, Inr ld') \<and> ld_entries ld' = [ex_entry_of 3 1]"
  using overwritten_entries_return [OF ex_codec_ok ex_records_log,
      where es = "[ex_entry_of 1 1, ex_entry_of 2 1, ex_entry_of 3 1]" and e = "ex_entry_of 2 2"
      and meta = "ex_meta_at 2" and dat = "[5]" and ss = 0 and tmps = "[]"]
  by (simp add: ex_meta_at_def ex_marshal ex_records_def ex_loaded_def ex_entry_of_def)

theorem rotate_crash_forgets_vote_witness:
  "\<exists>s1 s2 ld1 s3 s4 s5 ld2.
     rs_Open 0 True (crash_rotate (rs_wal (ex_disk 2 ex_records)) 3) [] [] [] = Inr s1 \<and>
     rs_Load ex_codec s1 = (s2, Inr ld1) \<and> ld_hardState ld1 = Some \<lparr>hs_term = 2, hs_votedFor = ''b''\<rparr> \<and>
     rs_SaveSnapshot ex_codec (ex_meta_at 2) [5] False s2 = (s3, Inr ()) \<and>
     rs_Open 0 True (files (rs_wal s3)) (rs_snaps s3) [] [] = Inr s4 \<and>
     rs_Load ex_codec s4 = (s5, Inr ld2) \<and> ld_hardState ld2 = None"
proof -
  have f: "rs_lastIndex (ex_disk 2 ex_records) = 2" "rs_snaps (ex_disk 2 ex_records) = []" by (simp_all add: ex_disk_def)
  show ?thesis
    using rotate_crash_forgets_vote [OF ex_codec_ok ex_records_log, where meta = "ex_meta_at 2" and dat = "[5]"
        and h = "\<lparr>hs_term = 2, hs_votedFor = ''b''\<rparr>" and ss = 0 and tmps = "[]" and tmps' = "[]"]
    by (simp add: ex_meta_at_def ex_marshal ex_loaded_def ex_records_hs f)
qed

end
