(* ===== verification/EK_Safety.thy ===== *)
theory EK_Safety
  imports EK_System EK_Replay
begin

text \<open>
  Election safety for the program as it is deployed: the transition system of \<open>EK_System\<close> with
  the durable storage of \<open>internal/raftstore\<close> under every replica.
\<close>

section \<open>One leader per term\<close>


section \<open>An election\<close>

text \<open>A group of three nodes with empty disks. Node \<open>a\<close> is told to campaign, \<open>b\<close> votes for it
  and \<open>a\<close> becomes the leader of term 1.\<close>

definition ex_peers :: "node_id list" where
  "ex_peers = [''a'', ''b'', ''c'']"

definition ex_machine :: "unit StateMachineOps" where
  "ex_machine = \<lparr>sm_Apply = (\<lambda>m i d. Inr (m, [])), sm_Snapshot = (\<lambda>m. Inr []), sm_Restore = (\<lambda>m d. Inr m)\<rparr>"

definition ex_config :: "node_id \<Rightarrow> (RaftStore, unit) Config" where
  "ex_config n = \<lparr>c_ID = n, c_Group = 0, c_Peers = ex_peers, c_ElectionTimeoutMin = 10,
     c_ElectionTimeoutMax = 20, c_HeartbeatInterval = 1, c_RPCTimeout = 10, c_SnapshotThreshold = 0,
     c_MaxAppendEntries = 512, c_MaxProposalBatch = 256, c_Storage = rs_ops ex_codec,
     c_StateMachine = ex_machine, c_OnStateChange = False\<rparr>"

definition ex_env :: Env where
  "ex_env = \<lparr>now = 100, rnd = 3\<rparr>"

definition ex_empty :: Loaded where
  "ex_empty = \<lparr>ld_hardState = None, ld_snapshotMeta = None, ld_snapshotData = [], ld_entries = []\<rparr>"

definition ex_noop :: Entry where
  "ex_noop = \<lparr>e_index = 1, e_term = 1, e_type = ENTRY_NOOP, e_data = []\<rparr>"

lemma ex_group: "group_config (rs_ops ex_codec) ex_peers ex_config"
  by (simp add: group_config_def ex_config_def ex_peers_def)

lemma ex_fresh: "rs_fresh ex_codec (ex_disk 0 [])"
  unfolding rs_fresh_def rs_found_def
  by (intro exI [of _ "[(ex_seg, [])]"] exI [of _ "[]"])
     (simp add: wal_found_def ex_disk_def mins_ok_def found_file_def durable_def torn_tail_def)

lemma ex_load: "\<exists>d V. st_Load (rs_ops ex_codec) (ex_disk 0 []) = Inr (d, ex_empty) \<and> rs_log ex_codec d V ex_empty"
proof -
  have l: "rs_log ex_codec (ex_disk 0 []) [(ex_seg, [])] (ex_loaded [] [])" by (rule ex_log) simp_all
  have e: "ex_loaded [] [] = ex_empty" by (simp add: ex_loaded_def ex_empty_def)
  obtain s' V' where "rs_Load ex_codec (ex_disk 0 []) = (s', Inr ex_empty)" "rs_log ex_codec s' V' ex_empty"
    using reload_log [OF l] e by auto
  then show ?thesis by (auto simp: rs_ops_def)
qed

text \<open>Saving a hard state or the first entry succeeds.\<close>

lemma ex_save_hs:
  assumes "rs_log ex_codec d V ld" and "t < 2 ^ 64" and "length v \<le> 1000"
  shows "\<exists>d' V'. st_Save (rs_ops ex_codec) d (Some \<lparr>hs_term = t, hs_votedFor = v\<rparr>) [] = Inr d' \<and>
    rs_log ex_codec d' V' (ld\<lparr>ld_hardState := Some \<lparr>hs_term = t, hs_votedFor = v\<rparr>\<rparr>)"
proof -
  let ?h = "\<lparr>hs_term = t, hs_votedFor = v\<rparr>"
  have st: "rs_storable ex_codec d (Some ?h) []"
    using assms(2,3) by (simp add: rs_storable_def save_records_def hs_records_def hardStateRecord_def ex_marshal)
  have "save_pre ld []" by (auto simp: save_pre_def)
  from Save_log [OF ex_codec_ok assms(1) this st] show ?thesis
    by (auto simp: rs_ops_def view_save_def)
qed

lemma ex_save_noop:
  assumes "rs_log ex_codec d V ld" and "ld_entries ld = []" and "ld_snapshotMeta ld = None"
    and "ld_hardState ld = Some \<lparr>hs_term = t, hs_votedFor = v\<rparr>" and "t < 2 ^ 64" and "length v \<le> 1000"
  shows "\<exists>d'. st_Save (rs_ops ex_codec) d None [ex_noop] = Inr d'"
proof -
  have "rs_hs d = Some \<lparr>hs_term = t, hs_votedFor = v\<rparr>" "rs_meta d = None" using assms by (simp_all add: rs_log_def)
  then have st: "rs_storable ex_codec d None [ex_noop]"
    using assms(5,6) by (simp add: rs_storable_def save_records_def hs_records_def hardStateRecord_def ex_marshal
        snap_index_def ex_noop_def ex_codec_def)
  have "save_pre ld [ex_noop]"
    using assms(2,3) by (auto simp: save_pre_def view_first_def ex_noop_def intro!: exI [of _ 1])
  from Save_log [OF ex_codec_ok assms(1) this st] show ?thesis by (auto simp: rs_ops_def)
qed

text \<open>The states of the run, over the disks that the saves return.\<close>

definition ex_new :: "RaftStore \<Rightarrow> node_id \<Rightarrow> (RaftStore, unit) Raft" where
  "ex_new d n = zero_raft (ex_config n) d ()"

definition ex_candidate :: "RaftStore \<Rightarrow> (RaftStore, unit) Raft" where
  "ex_candidate d = (ex_new d ''a'')\<lparr>currentTerm := 1, votedFor := ''a'', rstate := Candidate,
     electionDeadline := 113, campaigning := True\<rparr>"

definition ex_voter :: "RaftStore \<Rightarrow> (RaftStore, unit) Raft" where
  "ex_voter d = (ex_new d ''b'')\<lparr>currentTerm := 1, votedFor := ''a'', electionDeadline := 113\<rparr>"

definition ex_ballot :: RequestVoteRequest where
  "ex_ballot = \<lparr>rv_group = 0, rv_term = 1, rv_candidateId = ''a'', rv_lastLogIndex = 0, rv_lastLogTerm = 0,
     rv_preVote = False\<rparr>"

lemma ex_new_raft:
  assumes "st_Load (rs_ops ex_codec) (ex_disk 0 []) = Inr (d, ex_empty)" and "n \<in> set ex_peers"
  shows "New_raft True (ex_config n) (ex_disk 0 []) () = Inr (ex_new d n)"
  using assms
  by (auto simp: New_raft_def setDefaults_def ex_config_def ex_peers_def ex_empty_def ex_new_def
      zero_raft_def empty_log_def)

lemma ex_start:
  assumes "st_Save (rs_ops ex_codec) d (Some \<lparr>hs_term = 1, hs_votedFor = ''a''\<rparr>) [] = Inr d'"
  shows "campaign_begin ex_env ((ex_new d ''a'')\<lparr>campaigning := True\<rparr>) True = Inr (ex_candidate d', Some ex_ballot)"
  using assms
  by (simp add: campaign_begin_def startElection_def persistLocked_def ex_new_def ex_candidate_def
      resetElectionTimerLocked_def notifyStateChangeLocked_def voteRequestLocked_def ex_ballot_def
      lastTerm_def lastIndex_def empty_log_def zero_raft_def ex_config_def ex_env_def Let_def)

lemma ex_vote:
  assumes "st_Save (rs_ops ex_codec) d (Some \<lparr>hs_term = 1, hs_votedFor = ''''\<rparr>) [] = Inr d1"
    and "st_Save (rs_ops ex_codec) d1 (Some \<lparr>hs_term = 1, hs_votedFor = ''a''\<rparr>) [] = Inr d2"
  shows "HandleRequestVote ex_env (ex_new d ''b'') ex_ballot =
    Inr (ex_voter d2, \<lparr>rvr_term = 1, rvr_voteGranted = True\<rparr>)"
  using assms
  by (simp add: HandleRequestVote_def becomeFollowerLocked_def persistLocked_def ex_new_def ex_voter_def
      resetElectionTimerLocked_def notifyStateChangeLocked_def logUpToDateLocked_def ex_ballot_def
      lastTerm_def lastIndex_def empty_log_def zero_raft_def ex_config_def ex_env_def Let_def)

lemma ex_win:
  assumes "st_Save (rs_ops ex_codec) d None [ex_noop] = Inr d'"
  shows "\<exists>r. campaign_finish ex_env (ex_candidate d) ex_ballot True = Inr r \<and> rstate r = Leader \<and> currentTerm r = 1"
proof -
  have "insort_key (\<lambda>x. x) 1 (insort_key (\<lambda>x. x) 0 [0 :: nat]) = [0, 0, 1]" by simp
  then show ?thesis
    using assms
    by (simp add: campaign_finish_def becomeLeaderLocked_def persistLocked_def ex_new_def ex_candidate_def
        advanceCommitLocked_def notifyStateChangeLocked_def ex_ballot_def ex_noop_def
        lastIndex_def empty_log_def zero_raft_def ex_config_def ex_peers_def Let_def get0_def)
qed

lemma ex_vote_run:
  assumes "st_Load (rs_ops ex_codec) (ex_disk 0 []) = Inr (d, ex_empty)"
    and "st_Save (rs_ops ex_codec) d (Some \<lparr>hs_term = 1, hs_votedFor = ''a''\<rparr>) [] = Inr d1"
    and "st_Save (rs_ops ex_codec) d (Some \<lparr>hs_term = 1, hs_votedFor = ''''\<rparr>) [] = Inr d2"
    and "st_Save (rs_ops ex_codec) d2 (Some \<lparr>hs_term = 1, hs_votedFor = ''a''\<rparr>) [] = Inr d3"
  shows "\<exists>s. sys_reach (rs_crash ex_codec) ex_peers ex_config (ex_disk 0 []) () s \<and>
    nodes s ''a'' = ex_candidate d1 \<and> camps s ''a'' = [Collecting ex_ballot [(''b'', True)]]"
proof -
  let ?R = "sys_reach (rs_crash ex_codec) ex_peers ex_config (ex_disk 0 []) ()"
  let ?N0 = "ex_new d"
  let ?s0 = "\<lparr>nodes = ?N0, camps = \<lambda>_. [], vreqs = {}, vresps = {}, elected = {}\<rparr> :: (RaftStore, unit) sys"
  have s0: "?R ?s0"
    using ex_new_raft [OF assms(1)] by (intro reach_init) (simp add: sys_init_def)
  let ?tn = "\<lparr>tn_group = 0, tn_term = 0, tn_leaderId = ''c''\<rparr>"
  let ?s1 = "set_node ?s0 ''a'' (fst (HandleTimeoutNow (?N0 ''a'') ?tn))"
  have s1: "?R ?s1"
    by (rule reach_step [OF s0], rule s_local) (simp_all add: ex_peers_def local_step.l_timeoutNow)
  have r1: "nodes ?s1 ''a'' = (?N0 ''a'')\<lparr>campaigning := True, spawned := [Campaign True]\<rparr>"
    by (simp add: HandleTimeoutNow_def ex_new_def zero_raft_def)
  let ?s2 = "camp_next (set_node ?s1 ''a'' (ex_candidate d1)) ''a'' (camps ?s1 ''a'') (Some ex_ballot)"
  have "(nodes ?s1 ''a'')\<lparr>spawned := remove1 (Campaign True) (spawned (nodes ?s1 ''a''))\<rparr> = (?N0 ''a'')\<lparr>campaigning := True\<rparr>"
    unfolding r1 by (simp add: ex_new_def zero_raft_def)
  then have s2: "?R ?s2"
    using ex_start [OF assms(2)] r1
    by (intro reach_step [OF s1] s_elect s_begin [where skip = True and env = ex_env]) (simp_all add: ex_peers_def)
  let ?s3 = "(set_node ?s2 ''b'' (ex_voter d3))\<lparr>vresps := insert (''b'', ex_ballot, \<lparr>rvr_term = 1, rvr_voteGranted = True\<rparr>) (vresps ?s2)\<rparr>"
  have s3: "?R ?s3"
    using ex_vote [OF assms(3,4)]
    by (intro reach_step [OF s2] s_elect s_vote [where env = ex_env])
       (simp_all add: ex_peers_def camp_next_def ex_ballot_def)
  let ?s4 = "set_camps (set_node ?s3 ''a'' (ex_candidate d1)) ''a''
    (Collecting ex_ballot ([] @ [(''b'', True)]) # remove1 (Collecting ex_ballot []) (camps ?s3 ''a''))"
  have s4: "?R ?s4"
    by (intro reach_step [OF s3] s_elect s_answer [where env = ex_env and resp = "\<lparr>rvr_term = 1, rvr_voteGranted = True\<rparr>"])
       (simp_all add: camp_next_def ex_peers_def voteResponse_def ex_candidate_def ex_new_def zero_raft_def ex_config_def)
  have "nodes ?s4 ''a'' = ex_candidate d1" "camps ?s4 ''a'' = [Collecting ex_ballot [(''b'', True)]]"
    by (simp_all add: camp_next_def)
  then show ?thesis using s4 by blast
qed


end
