(* ===== verification/EK_Store.thy ===== *)
theory EK_Store
  imports EK_Pb
begin

text \<open>
  Package \<open>internal/store\<close>: the versioned key-value state machine. A store is a map from keys
  to records (a deleted key keeps its record as a tombstone), the table of remembered request
  IDs, the FIFO that drives its eviction, and the window. Versions and log indexes are
  \<open>uint64\<close>, kept at their width. The mutex is not modelled: every operation here is one
  critical section.

  Go's iteration order over a map is unspecified. \<open>Len\<close> and \<open>Snapshot\<close> therefore take the
  order in which the range statement visits the keys; \<open>range_order\<close> says which lists are
  possible. A byte slice is a list, so \<open>nil\<close> and the empty slice coincide.

  \<open>proto.Marshal\<close> and \<open>proto.Unmarshal\<close> are the arguments \<open>marshal\<close> and \<open>unmarshal\<close>.
\<close>

section \<open>State\<close>

definition DefaultDedupWindow :: u64 where
  "DefaultDedupWindow = 100000"

record StoreEntry =
  en_Value :: bytes
  en_Version :: u64
  en_Cacheable :: bool
  en_TTLSeconds :: u32
  en_UpdatedUnixMs :: u64

record kv_record =
  r_value :: bytes
  r_version :: u64
  r_deleted :: bool
  r_cacheable :: bool
  r_ttlSeconds :: u32
  r_updatedMs :: u64

record dedupEntry =
  de_index :: u64
  de_result :: Result

record dedupKey =
  dk_index :: u64
  dk_id :: string

record Store =
  data :: "string \<rightharpoonup> kv_record"
  dedup :: "string \<rightharpoonup> dedupEntry"
  dedupOrder :: "dedupKey list"
  dedupWindow :: u64

definition New :: Store where
  "New = \<lparr>data = Map.empty, dedup = Map.empty, dedupOrder = [],
     dedupWindow = DefaultDedupWindow\<rparr>"

definition SetDedupWindow :: "Store \<Rightarrow> u64 \<Rightarrow> Store" where
  "SetDedupWindow s n = s\<lparr>dedupWindow := n\<rparr>"

section \<open>Reads\<close>

definition Get :: "Store \<Rightarrow> string \<Rightarrow> go_error + StoreEntry" where
  "Get s key =
     (case data s key of
        None \<Rightarrow> Inl ErrNotFound
      | Some rec \<Rightarrow>
          if r_deleted rec then Inl ErrNotFound
          else Inr \<lparr>en_Value = r_value rec, en_Version = r_version rec,
                 en_Cacheable = r_cacheable rec, en_TTLSeconds = r_ttlSeconds rec,
                 en_UpdatedUnixMs = r_updatedMs rec\<rparr>)"

definition range_order :: "('k \<rightharpoonup> 'v) \<Rightarrow> 'k list \<Rightarrow> bool" where
  "range_order m ks \<longleftrightarrow> distinct ks \<and> set ks = dom m"

definition Len :: "string list \<Rightarrow> Store \<Rightarrow> nat" where
  "Len ks s = foldl (\<lambda>n k. case data s k of
       None \<Rightarrow> n
     | Some rec \<Rightarrow> if \<not> r_deleted rec then n + 1 else n) 0 ks"

section \<open>The state transition\<close>

definition zero_record :: kv_record where
  "zero_record = \<lparr>r_value = [], r_version = 0, r_deleted = False, r_cacheable = False,
     r_ttlSeconds = 0, r_updatedMs = 0\<rparr>"

definition visible :: "Store \<Rightarrow> string \<Rightarrow> u64" where
  "visible s key =
     (case data s key of None \<Rightarrow> 0 | Some rec \<Rightarrow> if \<not> r_deleted rec then r_version rec else 0)"

definition applyLocked :: "Store \<Rightarrow> Command \<Rightarrow> go_error + (Store \<times> Result)" where
  "applyLocked s cmd =
     (let vis = visible s (cmd_key cmd) in
      if cmd_hasExpectedVersion cmd \<and> cmd_expectedVersion cmd \<noteq> vis
      then Inr (s, \<lparr>res_status = STATUS_VERSION_MISMATCH, res_version = vis\<rparr>)
      else case cmd_op cmd of
        OP_PUT \<Rightarrow>
          let rec = (case data s (cmd_key cmd) of None \<Rightarrow> zero_record | Some r \<Rightarrow> r);
              rec' = rec\<lparr>r_value := cmd_value cmd, r_version := r_version rec + 1,
                r_deleted := False, r_cacheable := cmd_cacheable cmd,
                r_ttlSeconds := cmd_ttlSeconds cmd, r_updatedMs := cmd_timestampUnixMs cmd\<rparr>
          in Inr (s\<lparr>data := (data s)(cmd_key cmd \<mapsto> rec')\<rparr>,
                  \<lparr>res_status = STATUS_OK, res_version = r_version rec'\<rparr>)
      | OP_DELETE \<Rightarrow>
          if vis = 0 then Inr (s, \<lparr>res_status = STATUS_NOT_FOUND, res_version = 0\<rparr>)
          else (case data s (cmd_key cmd) of
              None \<Rightarrow> Inl (Panic ''nil pointer dereference'')
            | Some rec \<Rightarrow>
                let rec' = rec\<lparr>r_value := [], r_version := r_version rec + 1,
                      r_deleted := True, r_updatedMs := cmd_timestampUnixMs cmd\<rparr>
                in Inr (s\<lparr>data := (data s)(cmd_key cmd \<mapsto> rec')\<rparr>,
                        \<lparr>res_status = STATUS_OK, res_version = r_version rec'\<rparr>))
      | OP_OTHER _ \<Rightarrow> Inl (Panic ''store: unknown op''))"

definition statusErr :: "Status \<Rightarrow> go_error option" where
  "statusErr st = (case st of STATUS_OK \<Rightarrow> None
     | STATUS_NOT_FOUND \<Rightarrow> Some ErrNotFound
     | STATUS_VERSION_MISMATCH \<Rightarrow> Some ErrVersionMismatch
     | STATUS_OTHER _ \<Rightarrow> Some ErrUnknownStatus)"

definition zero_command :: Command where
  "zero_command = \<lparr>cmd_op = OP_PUT, cmd_key = '''', cmd_value = [],
     cmd_hasExpectedVersion = False, cmd_expectedVersion = 0, cmd_requestId = '''',
     cmd_cacheable = False, cmd_ttlSeconds = 0, cmd_timestampUnixMs = 0\<rparr>"

definition Put :: "Store \<Rightarrow> string \<Rightarrow> bytes \<Rightarrow> go_error + (Store \<times> u64)" where
  "Put s key val =
     bind_res (applyLocked s (zero_command\<lparr>cmd_op := OP_PUT, cmd_key := key, cmd_value := val\<rparr>))
       (\<lambda>(s', res). Inr (s', res_version res))"

definition CAS ::
  "Store \<Rightarrow> string \<Rightarrow> bytes \<Rightarrow> u64 \<Rightarrow> go_error + (Store \<times> u64 \<times> go_error option)" where
  "CAS s key val expectedVersion =
     bind_res (applyLocked s (zero_command\<lparr>cmd_op := OP_PUT, cmd_key := key, cmd_value := val,
         cmd_hasExpectedVersion := True, cmd_expectedVersion := expectedVersion\<rparr>))
       (\<lambda>(s', res). Inr (s', res_version res, statusErr (res_status res)))"

definition Delete :: "Store \<Rightarrow> string \<Rightarrow> go_error + (Store \<times> u64 \<times> go_error option)" where
  "Delete s key =
     bind_res (applyLocked s (zero_command\<lparr>cmd_op := OP_DELETE, cmd_key := key\<rparr>))
       (\<lambda>(s', res). Inr (s', res_version res, statusErr (res_status res)))"

section \<open>Applying a committed log entry\<close>

fun evict :: "u64 \<Rightarrow> u64 \<Rightarrow> (string \<rightharpoonup> dedupEntry) \<Rightarrow> dedupKey list
    \<Rightarrow> (string \<rightharpoonup> dedupEntry) \<times> dedupKey list" where
  "evict window index d [] = (d, [])"
| "evict window index d (oldest # rest) =
     (if index - dk_index oldest \<le> window then (d, oldest # rest)
      else evict window index (d(dk_id oldest := None)) rest)"

definition evictDedupLocked :: "Store \<Rightarrow> u64 \<Rightarrow> Store" where
  "evictDedupLocked s index =
     (let (d, order) = evict (dedupWindow s) index (dedup s) (dedupOrder s)
      in s\<lparr>dedup := d, dedupOrder := order\<rparr>)"

definition applyCommand :: "Store \<Rightarrow> u64 \<Rightarrow> Command \<Rightarrow> go_error + (Store \<times> Result)" where
  "applyCommand s0 index cmd =
     (let s = evictDedupLocked s0 index;
          execute = bind_res (applyLocked s cmd) (\<lambda>(s', res).
            if cmd_requestId cmd \<noteq> ''''
            then Inr (s'\<lparr>dedup := (dedup s')(cmd_requestId cmd \<mapsto>
                          \<lparr>de_index = index, de_result = res\<rparr>),
                       dedupOrder := dedupOrder s' @
                          [\<lparr>dk_index = index, dk_id = cmd_requestId cmd\<rparr>]\<rparr>, res)
            else Inr (s', res))
      in if cmd_requestId cmd \<noteq> ''''
         then (case dedup s (cmd_requestId cmd) of
             Some prev \<Rightarrow> Inr (s, de_result prev)
           | None \<Rightarrow> execute)
         else execute)"

definition mustMarshal :: "('a \<Rightarrow> bytes option) \<Rightarrow> 'a \<Rightarrow> go_error + bytes" where
  "mustMarshal marshal m =
     (case marshal m of None \<Rightarrow> Inl (Panic ''store: marshal'') | Some b \<Rightarrow> Inr b)"

definition Apply :: "(bytes \<Rightarrow> Command option) \<Rightarrow> (Result \<Rightarrow> bytes option) \<Rightarrow>
    Store \<Rightarrow> u64 \<Rightarrow> bytes \<Rightarrow> go_error + (Store \<times> bytes)" where
  "Apply unmarshal marshal s index bs =
     (case unmarshal bs of
        None \<Rightarrow> Inl (Panic ''store: corrupt command'')
      | Some cmd \<Rightarrow>
          bind_res (applyCommand s index cmd) (\<lambda>(s', res).
            bind_res (mustMarshal marshal res) (\<lambda>out. Inr (s', out))))"

section \<open>Snapshots\<close>

definition snapshot_record :: "string \<Rightarrow> kv_record \<Rightarrow> SnapshotRecord" where
  "snapshot_record key rec =
     \<lparr>sr_key = key, sr_value = r_value rec, sr_version = r_version rec, sr_deleted = r_deleted rec,
      sr_cacheable = r_cacheable rec, sr_ttlSeconds = r_ttlSeconds rec,
      sr_updatedUnixMs = r_updatedMs rec\<rparr>"

definition zero_result :: Result where
  "zero_result = \<lparr>res_status = STATUS_OK, res_version = 0\<rparr>"

definition store_snapshot :: "string list \<Rightarrow> Store \<Rightarrow> StoreSnapshot" where
  "store_snapshot ks s =
     \<lparr>ss_records = List.map_filter (\<lambda>k. map_option (snapshot_record k) (data s k)) ks,
      ss_dedup = map (\<lambda>k. \<lparr>sd_requestId = dk_id k, sd_index = dk_index k,
          sd_result = (case dedup s (dk_id k) of None \<Rightarrow> zero_result | Some e \<Rightarrow> de_result e)\<rparr>)
        (dedupOrder s)\<rparr>"

definition Snapshot :: "(StoreSnapshot \<Rightarrow> bytes option) \<Rightarrow> string list \<Rightarrow> Store
    \<Rightarrow> go_error + bytes" where
  "Snapshot marshal ks s =
     (case marshal (store_snapshot ks s) of None \<Rightarrow> Inl ErrMarshal | Some b \<Rightarrow> Inr b)"

definition restore_record :: "SnapshotRecord \<Rightarrow> kv_record" where
  "restore_record r =
     \<lparr>r_value = sr_value r, r_version = sr_version r, r_deleted = sr_deleted r,
      r_cacheable = sr_cacheable r, r_ttlSeconds = sr_ttlSeconds r, r_updatedMs = sr_updatedUnixMs r\<rparr>"

definition restore_snapshot :: "Store \<Rightarrow> StoreSnapshot \<Rightarrow> Store" where
  "restore_snapshot s snap =
     s\<lparr>data := foldl (\<lambda>m r. m(sr_key r \<mapsto> restore_record r)) Map.empty (ss_records snap),
       dedup := foldl (\<lambda>m d. m(sd_requestId d \<mapsto>
           \<lparr>de_index = sd_index d, de_result = sd_result d\<rparr>)) Map.empty (ss_dedup snap),
       dedupOrder := map (\<lambda>d. \<lparr>dk_index = sd_index d, dk_id = sd_requestId d\<rparr>) (ss_dedup snap)\<rparr>"

definition Restore :: "(bytes \<Rightarrow> StoreSnapshot option) \<Rightarrow> Store \<Rightarrow> bytes \<Rightarrow> go_error + Store" where
  "Restore unmarshal s bs =
     (case unmarshal bs of
        None \<Rightarrow> Inl ErrCorruptSnapshot
      | Some snap \<Rightarrow> Inr (restore_snapshot s snap))"

section \<open>Invariant of the deduplication table\<close>

text \<open>\<open>dedup_ok s n\<close>: the FIFO lists every remembered request ID once, in strictly increasing
  log order with all indexes below \<open>n\<close>, and the table holds exactly these IDs with the same
  indexes.\<close>

definition dedup_ok :: "Store \<Rightarrow> nat \<Rightarrow> bool" where
  "dedup_ok s n \<longleftrightarrow>
     distinct (map dk_id (dedupOrder s)) \<and>
     sorted_wrt (<) (map (\<lambda>k. unat (dk_index k)) (dedupOrder s)) \<and>
     (\<forall>k \<in> set (dedupOrder s). unat (dk_index k) < n \<and> dk_id k \<noteq> '''' \<and>
        map_option de_index (dedup s (dk_id k)) = Some (dk_index k)) \<and>
     dom (dedup s) = dk_id ` set (dedupOrder s)"

text \<open>Running a sequence of commands, each at its log index.\<close>

fun run :: "Store \<Rightarrow> (u64 \<times> Command) list \<Rightarrow> go_error + (Store \<times> Result list)" where
  "run s [] = Inr (s, [])"
| "run s ((i, cmd) # cs) =
     bind_res (applyCommand s i cmd) (\<lambda>(s', r).
       bind_res (run s' cs) (\<lambda>(s'', rs). Inr (s'', r # rs)))"

text \<open>Log indexes of a run: strictly increasing and at least \<open>n\<close>.\<close>

fun indexed_from :: "nat \<Rightarrow> (u64 \<times> Command) list \<Rightarrow> bool" where
  "indexed_from n [] = True"
| "indexed_from n ((i, c) # cs) = (n \<le> unat i \<and> indexed_from (Suc (unat i)) cs)"

definition live :: "Store \<Rightarrow> string \<Rightarrow> bool" where
  "live s k = (case data s k of None \<Rightarrow> False | Some r \<Rightarrow> \<not> r_deleted r)"

section \<open>Abstract specification\<close>

text \<open>What the store promises per key, without tombstones and machine words: a counter of the
  writes the key has seen, and the entry a reader sees, if any.\<close>

type_synonym spec_state = "string \<Rightarrow> nat \<times> StoreEntry option"

definition spec_visible :: "spec_state \<Rightarrow> string \<Rightarrow> nat" where
  "spec_visible a k = (case snd (a k) of None \<Rightarrow> 0 | Some _ \<Rightarrow> fst (a k))"

definition spec_apply :: "spec_state \<Rightarrow> Command \<Rightarrow> spec_state \<times> Status \<times> nat" where
  "spec_apply a cmd =
     (let k = cmd_key cmd; n = fst (a k) + 1 in
      if cmd_hasExpectedVersion cmd \<and> unat (cmd_expectedVersion cmd) \<noteq> spec_visible a k
      then (a, STATUS_VERSION_MISMATCH, spec_visible a k)
      else if cmd_op cmd = OP_PUT
      then (a(k := (n, Some \<lparr>en_Value = cmd_value cmd, en_Version = word_of_nat n,
              en_Cacheable = cmd_cacheable cmd, en_TTLSeconds = cmd_ttlSeconds cmd,
              en_UpdatedUnixMs = cmd_timestampUnixMs cmd\<rparr>)), STATUS_OK, n)
      else if snd (a k) = None then (a, STATUS_NOT_FOUND, 0)
      else (a(k := (n, None)), STATUS_OK, n))"

definition abs_store :: "Store \<Rightarrow> spec_state" where
  "abs_store s k = (case data s k of None \<Rightarrow> (0, None)
     | Some r \<Rightarrow> (unat (r_version r),
         case Get s k of Inl _ \<Rightarrow> None | Inr e \<Rightarrow> Some e))"

text \<open>A record exists only once its key has been written.\<close>

definition versions_ok :: "Store \<Rightarrow> bool" where
  "versions_ok s \<longleftrightarrow> (\<forall>k r. data s k = Some r \<longrightarrow> 0 < r_version r)"

definition writes :: "Store \<Rightarrow> string \<Rightarrow> nat" where
  "writes s k = (case data s k of None \<Rightarrow> 0 | Some r \<Rightarrow> unat (r_version r))"

lemma evict_frame [simp]:
  "data (evictDedupLocked s i) = data s"
  "dedupWindow (evictDedupLocked s i) = dedupWindow s"
  by (simp_all add: evictDedupLocked_def split: prod.split)

lemma evict_drop:
  assumes "sorted_wrt (<) (map (\<lambda>k. unat (dk_index k)) ks)"
    and "\<forall>k \<in> set ks. unat (dk_index k) \<le> unat i"
  shows "snd (evict w i d ks) = filter (\<lambda>k. i - dk_index k \<le> w) ks"
  using assms
proof (induction ks arbitrary: d)
  case Nil
  then show ?case by simp
next
  case (Cons k ks)
  have mono: "i - dk_index x \<le> i - dk_index k" if "x \<in> set ks" for x
    using Cons.prems that
    by (auto simp: word_le_nat_alt unat_sub)
  show ?case
  proof (cases "i - dk_index k \<le> w")
    case True
    then have "filter (\<lambda>k. i - dk_index k \<le> w) ks = ks"
      using mono by (auto intro!: filter_True elim: order_trans[rotated])
    with True show ?thesis by simp
  next
    case False
    with Cons show ?thesis by simp
  qed
qed

lemma evict_subset: "set (snd (evict w i d ks)) \<subseteq> set ks"
  by (induction ks arbitrary: d) (auto split: if_splits)

lemma evict_lookup:
  "distinct (map dk_id ks) \<Longrightarrow>
   fst (evict w i d ks) x =
     (if x \<in> dk_id ` (set ks - set (snd (evict w i d ks))) then None else d x)"
proof (induction ks arbitrary: d)
  case Nil
  then show ?case by simp
next
  case (Cons k ks)
  show ?case
  proof (cases "i - dk_index k \<le> w")
    case True
    then show ?thesis by auto
  next
    case False
    have "k \<notin> set (snd (evict w i (d(dk_id k := None)) ks))"
      using evict_subset Cons.prems by (fastforce simp: image_iff)
    with False Cons show ?thesis by (auto simp: image_iff)
  qed
qed

lemma evictDedupLocked_order:
  assumes "dedup_ok s n" and "n \<le> Suc (unat i)"
  shows "dedupOrder (evictDedupLocked s i) =
     filter (\<lambda>k. i - dk_index k \<le> dedupWindow s) (dedupOrder s)"
proof -
  have "snd (evict (dedupWindow s) i (dedup s) (dedupOrder s)) =
      filter (\<lambda>k. i - dk_index k \<le> dedupWindow s) (dedupOrder s)"
    using assms by (intro evict_drop) (fastforce simp: dedup_ok_def)+
  then show ?thesis by (simp add: evictDedupLocked_def case_prod_beta)
qed

lemma evictDedupLocked_lookup:
  assumes "dedup_ok s n" and "n \<le> Suc (unat i)" and "k \<in> set (dedupOrder s)"
  shows "dedup (evictDedupLocked s i) (dk_id k) =
     (if i - dk_index k \<le> dedupWindow s then dedup s (dk_id k) else None)"
proof -
  have dist: "distinct (map dk_id (dedupOrder s))"
    using assms(1) by (simp add: dedup_ok_def)
  have snd_eq: "snd (evict (dedupWindow s) i (dedup s) (dedupOrder s)) =
      filter (\<lambda>k. i - dk_index k \<le> dedupWindow s) (dedupOrder s)"
    using evictDedupLocked_order [OF assms(1,2)]
    by (simp add: evictDedupLocked_def case_prod_beta)
  have inj: "k' = k" if "k' \<in> set (dedupOrder s)" "dk_id k' = dk_id k" for k'
    using dist assms(3) that by (auto simp: distinct_map dest: inj_onD)
  have "dedup (evictDedupLocked s i) = fst (evict (dedupWindow s) i (dedup s) (dedupOrder s))"
    by (simp add: evictDedupLocked_def case_prod_beta)
  moreover have "dk_id k \<in> dk_id ` (set (dedupOrder s) -
      set (filter (\<lambda>k. i - dk_index k \<le> dedupWindow s) (dedupOrder s))) \<longleftrightarrow>
      \<not> i - dk_index k \<le> dedupWindow s"
  proof
    assume "dk_id k \<in> dk_id ` (set (dedupOrder s) -
      set (filter (\<lambda>k. i - dk_index k \<le> dedupWindow s) (dedupOrder s)))"
    then obtain k' where k': "k' \<in> set (dedupOrder s)" "dk_id k' = dk_id k"
      and "\<not> i - dk_index k' \<le> dedupWindow s"
      by force
    with inj [OF k'] show "\<not> i - dk_index k \<le> dedupWindow s" by simp
  next
    assume "\<not> i - dk_index k \<le> dedupWindow s"
    with assms(3) show "dk_id k \<in> dk_id ` (set (dedupOrder s) -
      set (filter (\<lambda>k. i - dk_index k \<le> dedupWindow s) (dedupOrder s)))"
      by (intro imageI) simp
  qed
  ultimately show ?thesis
    by (simp add: evict_lookup [OF dist] snd_eq)
qed

lemma evictDedupLocked_unknown:
  assumes "dedup_ok s n" and "x \<notin> dk_id ` set (dedupOrder s)"
  shows "dedup (evictDedupLocked s i) x = None"
proof -
  have "dedup (evictDedupLocked s i) = fst (evict (dedupWindow s) i (dedup s) (dedupOrder s))"
    by (simp add: evictDedupLocked_def case_prod_beta)
  moreover have "dedup s x = None" "distinct (map dk_id (dedupOrder s))"
    using assms by (auto simp: dedup_ok_def)
  ultimately show ?thesis by (simp add: evict_lookup)
qed

lemma evictDedupLocked_ok:
  assumes ok: "dedup_ok s n" and le: "n \<le> Suc (unat i)"
  shows "dedup_ok (evictDedupLocked s i) n"
proof -
  let ?s = "evictDedupLocked s i"
  note ord = evictDedupLocked_order [OF assms]
  note look = evictDedupLocked_lookup [OF assms]
  have "distinct (map dk_id (dedupOrder ?s))"
    using ok by (simp add: ord dedup_ok_def distinct_map_filter)
  moreover have "sorted_wrt (<) (map (\<lambda>k. unat (dk_index k)) (dedupOrder ?s))"
    using ok by (simp add: ord dedup_ok_def sorted_wrt_map sorted_wrt_filter)
  moreover have "\<forall>k \<in> set (dedupOrder ?s). unat (dk_index k) < n \<and> dk_id k \<noteq> '''' \<and>
        map_option de_index (dedup ?s (dk_id k)) = Some (dk_index k)"
    using ok by (auto simp: ord look dedup_ok_def)
  moreover have "dom (dedup ?s) = dk_id ` set (dedupOrder ?s)"
  proof (rule set_eqI)
    fix x
    show "x \<in> dom (dedup ?s) \<longleftrightarrow> x \<in> dk_id ` set (dedupOrder ?s)"
    proof (cases "x \<in> dk_id ` set (dedupOrder s)")
      case True
      then obtain k where k: "k \<in> set (dedupOrder s)" "x = dk_id k" by blast
      have inj: "k' = k" if "k' \<in> set (dedupOrder s)" "dk_id k' = dk_id k" for k'
        using ok k that by (auto simp: dedup_ok_def distinct_map dest: inj_onD)
      have "dedup s (dk_id k) \<noteq> None" using ok k by (auto simp: dedup_ok_def)
      moreover have "x \<in> dk_id ` set (dedupOrder ?s) \<longleftrightarrow> i - dk_index k \<le> dedupWindow s"
      proof
        assume "x \<in> dk_id ` set (dedupOrder ?s)"
        then obtain k' where k': "k' \<in> set (dedupOrder s)" "dk_id k' = dk_id k"
          and "i - dk_index k' \<le> dedupWindow s"
          using k(2) by (auto simp: ord)
        with inj [OF k'] show "i - dk_index k \<le> dedupWindow s" by simp
      next
        assume "i - dk_index k \<le> dedupWindow s"
        with k show "x \<in> dk_id ` set (dedupOrder ?s)" by (simp add: ord)
      qed
      ultimately show ?thesis using k by (simp add: look domIff)
    next
      case False
      then show ?thesis
        using evictDedupLocked_unknown [OF ok False] by (auto simp: ord domIff)
    qed
  qed
  ultimately show ?thesis unfolding dedup_ok_def by blast
qed

lemma applyLocked_frame:
  assumes "applyLocked s cmd = Inr (s', r)"
  shows "dedup s' = dedup s" "dedupOrder s' = dedupOrder s" "dedupWindow s' = dedupWindow s"
  using assms by (auto simp: applyLocked_def Let_def split: if_splits Op.splits option.splits)

lemma dedup_ok_cong:
  "dedup s' = dedup s \<Longrightarrow> dedupOrder s' = dedupOrder s \<Longrightarrow> dedup_ok s' n = dedup_ok s n"
  by (simp add: dedup_ok_def)

lemma dedup_ok_mono: "dedup_ok s n \<Longrightarrow> n \<le> m \<Longrightarrow> dedup_ok s m"
  by (auto simp: dedup_ok_def)

text \<open>Recording a fresh request ID at the end of the FIFO keeps the invariant.\<close>

lemma dedup_ok_record:
  assumes ok: "dedup_ok s n" and fresh: "dedup s x = None" and "x \<noteq> ''''" and "n \<le> unat i"
  shows "dedup_ok (s\<lparr>dedup := (dedup s)(x \<mapsto> \<lparr>de_index = i, de_result = r\<rparr>),
     dedupOrder := dedupOrder s @ [\<lparr>dk_index = i, dk_id = x\<rparr>]\<rparr>) (Suc (unat i))"
proof -
  have "x \<notin> dk_id ` set (dedupOrder s)"
    using ok fresh by (auto simp: dedup_ok_def)
  then show ?thesis
    using ok assms(3,4) by (fastforce simp: dedup_ok_def sorted_wrt_append)
qed

lemma applyCommand_ok:
  assumes ok: "dedup_ok s n" and le: "n \<le> unat i" and ap: "applyCommand s i cmd = Inr (s', r)"
  shows "dedup_ok s' (Suc (unat i))"
proof -
  let ?e = "evictDedupLocked s i"
  have e: "dedup_ok ?e n" using ok le by (intro evictDedupLocked_ok) auto
  then have e': "dedup_ok ?e (Suc (unat i))" using le by (auto elim: dedup_ok_mono)
  show ?thesis
  proof (cases "cmd_requestId cmd = '''' \<or> dedup ?e (cmd_requestId cmd) \<noteq> None")
    case True
    then have "dedup s' = dedup ?e \<and> dedupOrder s' = dedupOrder ?e"
      using ap by (auto simp: applyCommand_def Let_def bind_res_eq_Inr
          split: if_splits option.splits dest: applyLocked_frame)
    then show ?thesis using e' dedup_ok_cong by blast
  next
    case False
    then obtain t where al: "applyLocked ?e cmd = Inr (t, r)"
      and s': "s' = t\<lparr>dedup := (dedup t)(cmd_requestId cmd \<mapsto> \<lparr>de_index = i, de_result = r\<rparr>),
         dedupOrder := dedupOrder t @ [\<lparr>dk_index = i, dk_id = cmd_requestId cmd\<rparr>]\<rparr>"
      using ap by (auto simp: applyCommand_def Let_def bind_res_eq_Inr
          split: if_splits option.splits)
    have "dedup_ok t n" using e applyLocked_frame [OF al] dedup_ok_cong by blast
    then show ?thesis
      unfolding s' using False le applyLocked_frame [OF al] by (intro dedup_ok_record) auto
  qed
qed

lemma applyCommand_window:
  "applyCommand s i cmd = Inr (s', r) \<Longrightarrow> dedupWindow s' = dedupWindow s"
  by (auto simp: applyCommand_def Let_def bind_res_eq_Inr
      split: if_splits option.splits dest: applyLocked_frame)

lemma run_ok:
  "dedup_ok s n \<Longrightarrow> indexed_from n cs \<Longrightarrow> run s cs = Inr (s', rs) \<Longrightarrow>
   \<exists>m \<ge> n. dedup_ok s' m \<and> dedupWindow s' = dedupWindow s"
proof (induction cs arbitrary: s n rs)
  case Nil
  then show ?case by auto
next
  case (Cons c cs)
  obtain i cmd where c: "c = (i, cmd)" by (cases c)
  with Cons.prems obtain t r rs' where t: "applyCommand s i cmd = Inr (t, r)"
    and run: "run t cs = Inr (s', rs')"
    by (auto simp: bind_res_eq_Inr)
  have "dedup_ok t (Suc (unat i))"
    using Cons.prems c t by (auto intro: applyCommand_ok)
  moreover have "indexed_from (Suc (unat i)) cs" and n: "n \<le> unat i"
    using Cons.prems(2) by (simp_all add: c)
  ultimately obtain m where m: "Suc (unat i) \<le> m" "dedup_ok s' m" "dedupWindow s' = dedupWindow t"
    using Cons.IH [OF _ _ run] by blast
  then have "n \<le> m" using n by simp
  with m show ?case using applyCommand_window [OF t] by metis
qed

lemma strict_list_length:
  fixes xs :: "nat list"
  assumes "sorted_wrt (<) xs" and "\<forall>x \<in> set xs. a \<le> x \<and> x \<le> b"
  shows "length xs \<le> Suc b - a"
proof -
  have "distinct xs" using assms(1) by (simp add: strict_sorted_iff)
  moreover have "set xs \<subseteq> {a..b}" using assms(2) by auto
  ultimately have "length xs \<le> card {a..b}" by (intro distinct_subset_card) auto
  then show ?thesis by simp
qed

lemma applyCommand_order:
  assumes "applyCommand s i cmd = Inr (s', r)"
  shows "set (dedupOrder s') \<subseteq> set (dedupOrder (evictDedupLocked s i)) \<union>
     {\<lparr>dk_index = i, dk_id = cmd_requestId cmd\<rparr>}"
  using assms by (auto simp: applyCommand_def Let_def bind_res_eq_Inr
      split: if_splits option.splits dest: applyLocked_frame(2))

lemma applyCommand_recent:
  assumes ok: "dedup_ok s n" and le: "n \<le> unat i" and ap: "applyCommand s i cmd = Inr (s', r)"
    and k: "k \<in> set (dedupOrder s')"
  shows "unat i - unat (dk_index k) \<le> unat (dedupWindow s) \<and> unat (dk_index k) \<le> unat i"
proof -
  consider "k = \<lparr>dk_index = i, dk_id = cmd_requestId cmd\<rparr>"
    | "k \<in> set (dedupOrder (evictDedupLocked s i))"
    using k applyCommand_order [OF ap] by blast
  then show ?thesis
  proof cases
    case 1
    then show ?thesis by simp
  next
    case 2
    then have in_s: "k \<in> set (dedupOrder s)" and w: "i - dk_index k \<le> dedupWindow s"
      using evictDedupLocked_order [OF ok] le by auto
    then have "dk_index k \<le> i"
      using ok le by (fastforce simp: dedup_ok_def word_le_nat_alt)
    with w show ?thesis by (simp add: word_le_nat_alt unat_sub)
  qed
qed

text \<open>A remembered outcome survives every command whose index is still within the window.\<close>

lemma evict_keeps:
  assumes ok: "dedup_ok s n" and le: "n \<le> Suc (unat j)" and e: "dedup s x = Some e"
    and win: "unat j - unat (de_index e) \<le> unat (dedupWindow s)"
  shows "dedup (evictDedupLocked s j) x = Some e"
proof -
  from ok e have "x \<in> dk_id ` set (dedupOrder s)" unfolding dedup_ok_def by blast
  then obtain k where k: "k \<in> set (dedupOrder s)" "dk_id k = x" by blast
  then have idx: "dk_index k = de_index e" and lt: "unat (dk_index k) < n"
    using ok e by (auto simp: dedup_ok_def)
  then have "de_index e \<le> j" using le by (simp add: word_le_nat_alt)
  then have "j - dk_index k \<le> dedupWindow s"
    using win idx by (simp add: word_le_nat_alt unat_sub)
  then show ?thesis using evictDedupLocked_lookup [OF ok le k(1)] k e by simp
qed

lemma applyCommand_keeps:
  assumes ok: "dedup_ok s n" and le: "n \<le> unat j" and e: "dedup s x = Some e"
    and win: "unat j - unat (de_index e) \<le> unat (dedupWindow s)"
    and ap: "applyCommand s j cmd = Inr (s', r)"
  shows "dedup s' x = Some e"
proof -
  have "dedup (evictDedupLocked s j) x = Some e"
    using evict_keeps [OF ok _ e win] le by simp
  then show ?thesis
    using ap by (auto simp: applyCommand_def Let_def bind_res_eq_Inr
        split: if_splits option.splits dest!: applyLocked_frame(1))
qed

lemma run_keeps:
  assumes "dedup_ok s n" and "indexed_from n (ms @ [(j, c)])" and "dedup s x = Some e"
    and "unat j - unat (de_index e) \<le> unat (dedupWindow s)" and "run s ms = Inr (s', rs)"
  shows "dedup s' x = Some e \<and> dedupWindow s' = dedupWindow s \<and>
     (\<exists>m. m \<le> unat j \<and> dedup_ok s' m)"
  using assms
proof (induction ms arbitrary: s n rs)
  case Nil
  then show ?case by auto
next
  case (Cons a ms)
  obtain i cmd where a: "a = (i, cmd)" by (cases a)
  with Cons.prems obtain t r rs' where t: "applyCommand s i cmd = Inr (t, r)"
    and run: "run t ms = Inr (s', rs')"
    by (auto simp: bind_res_eq_Inr)
  have n: "n \<le> unat i" and ix: "indexed_from (Suc (unat i)) (ms @ [(j, c)])"
    using Cons.prems(2) by (simp_all add: a)
  have "unat i < unat j" using ix
  proof (induction ms arbitrary: i)
    case (Cons b bs)
    then show ?case by (cases b) fastforce
  qed simp
  then have "unat i - unat (de_index e) \<le> unat (dedupWindow s)"
    using Cons.prems(4) by simp
  then have "dedup t x = Some e"
    using applyCommand_keeps [OF Cons.prems(1) n Cons.prems(3) _ t] by simp
  moreover have "dedup_ok t (Suc (unat i))"
    using applyCommand_ok [OF Cons.prems(1) n t] .
  ultimately show ?case
    using Cons.IH [OF _ ix _ _ run] Cons.prems(4) applyCommand_window [OF t] by simp
qed

text \<open>C3. Idempotent retry. Once a command with a fresh, non-empty request ID has been applied
  at log index \<open>i\<close>, a retry with the same request ID applied at any later index \<open>j\<close> within the
  window, after any sequence of other commands, returns the original result and leaves every
  key as it is: the command executes at most once.\<close>

theorem retry_returns_original:
  assumes "dedup_ok s n" and "n \<le> unat i" and "cmd_requestId cmd \<noteq> ''''"
    and "dedup (evictDedupLocked s i) (cmd_requestId cmd) = None"
    and "applyCommand s i cmd = Inr (s1, r)"
    and "run s1 others = Inr (s2, rs)"
    and "indexed_from (Suc (unat i)) (others @ [(j, cmd')])"
    and "cmd_requestId cmd' = cmd_requestId cmd"
    and "unat j - unat i \<le> unat (dedupWindow s)"
  shows "\<exists>s3. applyCommand s2 j cmd' = Inr (s3, r) \<and> data s3 = data s2"
proof -
  let ?x = "cmd_requestId cmd"
  have ok1: "dedup_ok s1 (Suc (unat i))"
    using applyCommand_ok [OF assms(1,2,5)] .
  have rem: "dedup s1 ?x = Some \<lparr>de_index = i, de_result = r\<rparr>"
    using assms(3-5) by (auto simp: applyCommand_def Let_def bind_res_eq_Inr
        split: if_splits option.splits)
  have win: "unat j - unat i \<le> unat (dedupWindow s1)"
    using assms(9) applyCommand_window [OF assms(5)] by simp
  obtain m where s2: "dedup s2 ?x = Some \<lparr>de_index = i, de_result = r\<rparr>"
      "dedupWindow s2 = dedupWindow s1" "m \<le> unat j" "dedup_ok s2 m"
    using run_keeps [OF ok1 assms(7) rem _ assms(6)] win by auto
  have "dedup (evictDedupLocked s2 j) ?x = Some \<lparr>de_index = i, de_result = r\<rparr>"
    using evict_keeps [OF s2(4) _ s2(1)] s2(2,3) win by simp
  then show ?thesis
    using assms(3,8) by (auto simp: applyCommand_def Let_def)
qed

text \<open>The deduplication table is bounded: after any applied command the table and its FIFO
  agree, and they remember at most \<open>dedupWindow + 1\<close> request IDs, all within the window of the
  index just applied.\<close>

theorem dedup_bounded:
  assumes "dedup_ok s n" and "n \<le> unat i" and "applyCommand s i cmd = Inr (s', r)"
  shows "dedup_ok s' (Suc (unat i)) \<and> length (dedupOrder s') \<le> Suc (unat (dedupWindow s')) \<and>
     card (dom (dedup s')) \<le> Suc (unat (dedupWindow s'))"
proof -
  have ok: "dedup_ok s' (Suc (unat i))" by (rule applyCommand_ok [OF assms])
  let ?xs = "map (\<lambda>k. unat (dk_index k)) (dedupOrder s')"
  have "\<forall>x \<in> set ?xs. unat i - unat (dedupWindow s) \<le> x \<and> x \<le> unat i"
    using applyCommand_recent [OF assms] by force
  then have "length ?xs \<le> Suc (unat i) - (unat i - unat (dedupWindow s))"
    using ok by (intro strict_list_length) (simp_all add: dedup_ok_def)
  then have len: "length (dedupOrder s') \<le> Suc (unat (dedupWindow s'))"
    using applyCommand_window [OF assms(3)] by simp
  have "card (dom (dedup s')) \<le> length (dedupOrder s')"
    using ok card_image_le [of "set (dedupOrder s')" dk_id] card_length [of "dedupOrder s'"]
    by (simp add: dedup_ok_def)
  with ok len show ?thesis by simp
qed

section \<open>Versions\<close>

lemma unat_inc: "unat (w :: u64) < 2 ^ 64 - 1 \<Longrightarrow> unat (w + 1) = unat w + 1"
  by (simp add: unat_word_ariths)

lemma unat_u64_eq: "unat (a :: u64) = unat b \<longleftrightarrow> a = b"
  by (simp add: word_unat_eq_iff)

lemma spec_visible_abs:
  "versions_ok s \<Longrightarrow> spec_visible (abs_store s) k = unat (visible s k)"
  by (auto simp: spec_visible_def abs_store_def visible_def Get_def split: option.split)

lemma visible_zero_iff:
  "versions_ok s \<Longrightarrow> visible s k = 0 \<longleftrightarrow> snd (abs_store s k) = None"
  by (fastforce simp: visible_def abs_store_def Get_def versions_ok_def split: option.split)

lemma abs_store_upd:
  "abs_store (s\<lparr>data := (data s)(k \<mapsto> r)\<rparr>) =
     (abs_store s)(k := (unat (r_version r), if r_deleted r then None else
        Some \<lparr>en_Value = r_value r, en_Version = r_version r, en_Cacheable = r_cacheable r,
          en_TTLSeconds = r_ttlSeconds r, en_UpdatedUnixMs = r_updatedMs r\<rparr>))"
  by (auto simp: abs_store_def Get_def fun_eq_iff split: option.split)

lemma fst_abs_store: "fst (abs_store s k) = writes s k"
  by (auto simp: abs_store_def writes_def split: option.split)

lemma versions_ok_upd:
  "versions_ok s \<Longrightarrow> 0 < r_version r \<Longrightarrow> versions_ok (s\<lparr>data := (data s)(k \<mapsto> r)\<rparr>)"
  by (auto simp: versions_ok_def)

lemma inc_pos: "unat (w :: u64) < 2 ^ 64 - 1 \<Longrightarrow> 0 < w + 1"
  using unat_inc [of w] by (simp add: word_less_nat_alt)

text \<open>C4. Refinement. On every command the program knows, \<open>applyLocked\<close> does exactly what the
  abstract specification says, branch by branch: a conditional write succeeds only on the
  visible version, a delete of an invisible key is \<open>NOT_FOUND\<close>, a successful write increases the
  key's counter by one (across deletes too) and no other key changes. The only hypothesis on
  the state is that the key's 64-bit version counter is not exhausted.\<close>

theorem applyLocked_refines:
  assumes ok: "versions_ok s" and room: "writes s (cmd_key cmd) < 2 ^ 64 - 1"
    and op: "cmd_op cmd = OP_PUT \<or> cmd_op cmd = OP_DELETE"
  shows "\<exists>s' res. applyLocked s cmd = Inr (s', res) \<and> versions_ok s' \<and>
     (abs_store s', res_status res, unat (res_version res)) = spec_apply (abs_store s) cmd"
proof -
  let ?k = "cmd_key cmd"
  note vis = spec_visible_abs [OF ok] unat_u64_eq
  consider (mismatch) "cmd_hasExpectedVersion cmd \<and> cmd_expectedVersion cmd \<noteq> visible s ?k"
    | (put) "\<not> (cmd_hasExpectedVersion cmd \<and> cmd_expectedVersion cmd \<noteq> visible s ?k)"
        "cmd_op cmd = OP_PUT"
    | (delete) "\<not> (cmd_hasExpectedVersion cmd \<and> cmd_expectedVersion cmd \<noteq> visible s ?k)"
        "cmd_op cmd = OP_DELETE"
    using op by blast
  then show ?thesis
  proof cases
    case mismatch
    then show ?thesis
      using ok by (simp add: applyLocked_def spec_apply_def vis Let_def)
  next
    case put
    define r0 where "r0 = (case data s ?k of None \<Rightarrow> zero_record | Some r \<Rightarrow> r)"
    have w: "writes s ?k = unat (r_version r0)"
      by (simp add: writes_def r0_def zero_record_def split: option.split)
    then have inc: "unat (r_version r0 + 1) = writes s ?k + 1"
      and pos: "0 < r_version r0 + 1"
      using room by (simp_all add: unat_inc inc_pos)
    show ?thesis
      using put inc pos ok w
      by (simp add: applyLocked_def spec_apply_def vis Let_def abs_store_upd versions_ok_upd
          fst_abs_store add.commute flip: r0_def)
  next
    case delete
    show ?thesis
    proof (cases "visible s ?k = 0")
      case True
      then show ?thesis
        using delete ok by (simp add: applyLocked_def spec_apply_def vis visible_zero_iff Let_def)
    next
      case False
      then obtain r where r: "data s ?k = Some r"
        by (auto simp: visible_def split: option.splits)
      then have inc: "unat (r_version r + 1) = writes s ?k + 1" and pos: "0 < r_version r + 1"
        using room by (simp_all add: unat_inc inc_pos writes_def)
      show ?thesis
        using False delete ok r inc pos
        by (simp add: applyLocked_def spec_apply_def vis Let_def abs_store_upd versions_ok_upd
            fst_abs_store visible_zero_iff)
    qed
  qed
qed

text \<open>Each command leaves a key's record alone or moves its version up by one.\<close>

lemma applyLocked_version:
  assumes "applyLocked s cmd = Inr (s', r)" and "writes s k < 2 ^ 64 - 1"
  shows "data s' k = data s k \<or> writes s' k = writes s k + 1"
proof (cases "k = cmd_key cmd")
  case True
  then show ?thesis
    using assms by (auto simp: applyLocked_def Let_def writes_def zero_record_def unat_inc
        split: if_splits Op.splits option.splits)
next
  case False
  then show ?thesis
    using assms(1) by (auto simp: applyLocked_def Let_def
        split: if_splits Op.splits option.splits)
qed

lemma applyCommand_data:
  assumes "applyCommand s i cmd = Inr (s', r)"
  shows "data s' = data s \<or>
    (\<exists>t. applyLocked (evictDedupLocked s i) cmd = Inr (t, r) \<and> data s' = data t)"
  using assms by (auto simp: applyCommand_def Let_def bind_res_eq_Inr
      split: if_splits option.splits)

lemma writes_cong: "data s k = data t k \<Longrightarrow> writes s k = writes t k"
  by (simp add: writes_def)

lemma applyCommand_version:
  assumes ap: "applyCommand s i cmd = Inr (s', r)" and room: "writes s k < 2 ^ 64 - 1"
  shows "data s' k = data s k \<or> writes s' k = writes s k + 1"
proof -
  have w: "writes (evictDedupLocked s i) k = writes s k" by (simp add: writes_def)
  from applyCommand_data [OF ap] show ?thesis
  proof
    assume "\<exists>t. applyLocked (evictDedupLocked s i) cmd = Inr (t, r) \<and> data s' = data t"
    then obtain t where t: "applyLocked (evictDedupLocked s i) cmd = Inr (t, r)" "data s' = data t"
      by blast
    then show ?thesis
      using applyLocked_version [OF t(1), of k] room w by (simp add: writes_def)
  qed simp
qed

lemma run_version:
  assumes "run s cs = Inr (s', rs)" and "writes s k + length cs < 2 ^ 64"
  shows "(data s' k = data s k \<or> writes s k < writes s' k) \<and>
     writes s' k \<le> writes s k + length cs"
  using assms
proof (induction cs arbitrary: s rs)
  case Nil
  then show ?case by simp
next
  case (Cons c cs)
  obtain i cmd where c: "c = (i, cmd)" by (cases c)
  with Cons.prems obtain t r rs' where t: "applyCommand s i cmd = Inr (t, r)"
    and run: "run t cs = Inr (s', rs')"
    by (auto simp: bind_res_eq_Inr)
  have "data t k = data s k \<or> writes t k = writes s k + 1"
    using applyCommand_version [OF t] Cons.prems(2) by simp
  then have step: "data t k = data s k \<and> writes t k = writes s k \<or> writes t k = writes s k + 1"
    by (auto simp: writes_def)
  then have "(data s' k = data t k \<or> writes t k < writes s' k) \<and>
      writes s' k \<le> writes t k + length cs"
    using Cons.IH [OF run] Cons.prems(2) by auto
  with step show ?case by (auto dest: writes_cong)
qed

lemma same_version_same_entry:
  assumes "run s cs = Inr (s', rs)" and "Get s k = Inr e" and "Get s' k = Inr e'"
    and "en_Version e = en_Version e'" and "unat (en_Version e) + length cs < 2 ^ 64"
  shows "e = e'"
proof -
  have w: "writes s k = unat (en_Version e)" "writes s' k = unat (en_Version e')"
    using assms(2,3) by (auto simp: Get_def writes_def split: option.splits if_splits)
  then have "data s' k = data s k"
    using run_version [OF assms(1), of k] assms(4,5) by auto
  then show ?thesis using assms(2,3) by (simp add: Get_def)
qed

text \<open>C6. Versions identify values. Along any run of commands, two reads of the same key that
  report the same version return the same entry: a version never denotes two values, also
  across deletes and re-creations. This is what makes \<open>GET /v1/cache/{key}?v=N\<close> immutable.\<close>

theorem version_identifies_value:
  assumes "run s cs = Inr (s', rs)" and "Get s k = Inr e" and "Get s' k = Inr e'"
    and "en_Version e = en_Version e'" and "unat (en_Version e) + length cs < 2 ^ 64"
  shows "e = e'"
  by (rule same_version_same_entry [OF assms])

text \<open>C5. Compare-and-set has no ABA problem. If a client reads a key at version \<open>v\<close>, any
  commands run in between, and its CAS expecting \<open>v\<close> reports success, then the key's record was
  untouched in between, the new version is \<open>v + 1\<close> and the new value is readable; if the CAS
  reports a mismatch, the store is unchanged.\<close>

theorem CAS_no_ABA:
  assumes "versions_ok s" and "Get s k = Inr e" and "run s cs = Inr (s', rs)"
    and "unat (en_Version e) + length cs + 1 < 2 ^ 64"
    and "CAS s' k val (en_Version e) = Inr (s'', v, err)"
  shows "(err = None \<longrightarrow> data s' k = data s k \<and> v = en_Version e + 1 \<and>
            (\<exists>e''. Get s'' k = Inr e'' \<and> en_Value e'' = val \<and> en_Version e'' = v)) \<and>
         (err \<noteq> None \<longrightarrow> err = Some ErrVersionMismatch \<and> s'' = s')"
proof -
  have w: "writes s k = unat (en_Version e)" "0 < en_Version e"
    using assms(1,2) by (auto simp: Get_def writes_def versions_ok_def split: option.splits if_splits)
  have "data s' k = data s k" if "visible s' k = en_Version e"
  proof -
    have "writes s' k = unat (en_Version e)"
      using that w(2) by (auto simp: visible_def writes_def split: option.splits if_splits)
    then show ?thesis
      using run_version [OF assms(3), of k] assms(4) w(1) by auto
  qed
  then show ?thesis
    using assms(2,5) by (auto simp: CAS_def applyLocked_def bind_res_eq_Inr zero_command_def
        Let_def statusErr_def Get_def split: if_splits option.splits)
qed

section \<open>Counting and snapshots\<close>

lemma Len_filter: "Len ks s = length (filter (live s) ks)"
proof -
  have "foldl (\<lambda>n k. case data s k of
       None \<Rightarrow> n | Some rec \<Rightarrow> if \<not> r_deleted rec then n + 1 else n) m ks =
     m + length (filter (live s) ks)" for m
    by (induction ks arbitrary: m) (auto simp: live_def split: option.split)
  then show ?thesis by (simp add: Len_def)
qed

text \<open>\<open>Len\<close> counts the keys a reader can see, whatever order the map is iterated in.\<close>

theorem Len_counts_live:
  assumes "range_order (data s) ks"
  shows "Len ks s = card {k. \<exists>e. Get s k = Inr e}"
proof -
  have "{k. \<exists>e. Get s k = Inr e} = set (filter (live s) ks)"
    using assms by (fastforce simp: range_order_def Get_def live_def dom_def split: option.splits)
  moreover have "distinct (filter (live s) ks)"
    using assms by (simp add: range_order_def)
  ultimately show ?thesis by (metis Len_filter distinct_card)
qed

lemma foldl_map_upd:
  "foldl (\<lambda>m r. m(f r \<mapsto> g r)) m0 rs = m0 ++ map_of (rev (map (\<lambda>r. (f r, g r)) rs))"
  by (induction rs arbitrary: m0) (auto simp: map_add_def fun_eq_iff split: option.split)

lemma map_of_rev_distinct:
  "distinct (map fst xs) \<Longrightarrow> map_of (rev xs) = map_of xs"
  by (intro map_of_eqI) (auto simp: map_of_eq_Some_iff rev_map [symmetric])

lemma restore_record_snapshot [simp]: "restore_record (snapshot_record k r) = r"
  by (simp add: restore_record_def snapshot_record_def)

lemma snapshot_data:
  assumes "range_order m ks"
  shows "foldl (\<lambda>m r. m(sr_key r \<mapsto> restore_record r)) Map.empty
     (List.map_filter (\<lambda>k. map_option (snapshot_record k) (m k)) ks) = m"
proof -
  have key: "\<forall>k \<in> set ks. m k \<noteq> None" using assms by (auto simp: range_order_def)
  then have "List.map_filter (\<lambda>k. map_option (snapshot_record k) (m k)) ks =
      map (\<lambda>k. snapshot_record k (the (m k))) ks"
    by (induction ks) (auto simp: List.map_filter_def)
  moreover have "sr_key (snapshot_record k r) = k" for k r
    by (simp add: snapshot_record_def)
  ultimately have eq: "foldl (\<lambda>m r. m(sr_key r \<mapsto> restore_record r)) Map.empty
     (List.map_filter (\<lambda>k. map_option (snapshot_record k) (m k)) ks) =
     map_of (rev (map (\<lambda>k. (k, the (m k))) ks))"
    by (simp add: foldl_map_upd comp_def)
  have "map_of (rev (map (\<lambda>k. (k, the (m k))) ks)) = map_of (map (\<lambda>k. (k, the (m k))) ks)"
    using assms by (intro map_of_rev_distinct) (simp add: comp_def range_order_def)
  also have "\<dots> = m"
  proof
    fix k
    show "map_of (map (\<lambda>k. (k, the (m k))) ks) k = m k"
      using assms by (cases "m k") (auto simp: range_order_def map_of_map_restrict restrict_map_def)
  qed
  finally show ?thesis using eq by simp
qed

lemma snapshot_dedup:
  assumes "dedup_ok s n"
  shows "foldl (\<lambda>m d. m(sd_requestId d \<mapsto>
        \<lparr>de_index = sd_index d, de_result = sd_result d\<rparr>)) Map.empty (ss_dedup (store_snapshot ks s))
     = dedup s"
proof -
  let ?v = "\<lambda>k. \<lparr>de_index = dk_index k, de_result =
       (case dedup s (dk_id k) of None \<Rightarrow> zero_result | Some e \<Rightarrow> de_result e)\<rparr>"
  have v: "dedup s (dk_id k) = Some (?v k)" if "k \<in> set (dedupOrder s)" for k
    using assms that by (cases "dedup s (dk_id k)") (auto simp: dedup_ok_def)
  have d: "distinct (map dk_id (dedupOrder s))" using assms by (simp add: dedup_ok_def)
  have "foldl (\<lambda>m d. m(sd_requestId d \<mapsto>
        \<lparr>de_index = sd_index d, de_result = sd_result d\<rparr>)) Map.empty (ss_dedup (store_snapshot ks s))
     = map_of (map (\<lambda>k. (dk_id k, ?v k)) (dedupOrder s))"
    using d by (simp add: foldl_map_upd store_snapshot_def comp_def map_of_rev_distinct)
  also have "\<dots> = dedup s"
  proof
    fix x
    show "map_of (map (\<lambda>k. (dk_id k, ?v k)) (dedupOrder s)) x = dedup s x"
    proof (cases "x \<in> dk_id ` set (dedupOrder s)")
      case True
      then obtain k where k: "k \<in> set (dedupOrder s)" "x = dk_id k" by blast
      then have "map_of (map (\<lambda>k. (dk_id k, ?v k)) (dedupOrder s)) x = Some (?v k)"
        using d by (intro map_of_is_SomeI) (auto simp: comp_def)
      then show ?thesis using v k by simp
    next
      case False
      then have "dedup s x = None" using assms by (auto simp: dedup_ok_def)
      moreover have "map_of (map (\<lambda>k. (dk_id k, ?v k)) (dedupOrder s)) x = None"
        using False by (auto simp: map_of_eq_None_iff)
      ultimately show ?thesis by simp
    qed
  qed
  finally show ?thesis .
qed

lemma restore_store_snapshot:
  assumes "dedup_ok s n" and "range_order (data s) ks" and "dedupWindow t = dedupWindow s"
  shows "restore_snapshot t (store_snapshot ks s) = s"
proof -
  have "map (\<lambda>d. \<lparr>dk_index = sd_index d, dk_id = sd_requestId d\<rparr>) (ss_dedup (store_snapshot ks s))
      = dedupOrder s"
    by (auto simp: store_snapshot_def comp_def intro!: map_idI)
  moreover have "foldl (\<lambda>m r. m(sr_key r \<mapsto> restore_record r)) Map.empty
      (ss_records (store_snapshot ks s)) = data s"
    using snapshot_data [OF assms(2)] by (simp add: store_snapshot_def)
  ultimately show ?thesis
    using assms(3) snapshot_dedup [OF assms(1)] by (simp add: restore_snapshot_def)
qed

text \<open>C7. Snapshot round trip. Restoring a snapshot into a replica with the same window
  reproduces the whole state machine, tombstones, versions, deduplication table and eviction
  order included, whatever order the map was iterated in. A replica that installs the snapshot
  therefore answers every later command, retries included, as the original does.\<close>

theorem snapshot_restore:
  assumes "dedup_ok s n" and "range_order (data s) ks" and "dedupWindow t = dedupWindow s"
    and "codec_ok marshal unmarshal" and "Snapshot marshal ks s = Inr b"
  shows "Restore unmarshal t b = Inr s"
proof -
  have "marshal (store_snapshot ks s) = Some b"
    using assms(5) by (simp add: Snapshot_def split: option.splits)
  then have "unmarshal b = Some (store_snapshot ks s)" by (rule codec_okD [OF assms(4)])
  then show ?thesis
    using restore_store_snapshot [OF assms(1-3)] by (simp add: Restore_def)
qed

section \<open>Progress\<close>

lemma applyLocked_total:
  assumes "cmd_op cmd = OP_PUT \<or> cmd_op cmd = OP_DELETE"
  shows "\<exists>s' r. applyLocked s cmd = Inr (s', r)"
  using assms
  by (auto simp: applyLocked_def visible_def Let_def split: if_splits option.splits)

lemma applyCommand_total:
  assumes "cmd_op cmd = OP_PUT \<or> cmd_op cmd = OP_DELETE"
  shows "\<exists>s' r. applyCommand s i cmd = Inr (s', r)"
proof -
  obtain s' r where "applyLocked (evictDedupLocked s i) cmd = Inr (s', r)"
    using applyLocked_total [OF assms] by blast
  then show ?thesis by (auto simp: applyCommand_def Let_def split: option.split)
qed

lemma dedup_ok_New: "dedup_ok New n"
  by (simp add: dedup_ok_def New_def)

lemma versions_ok_New: "versions_ok New"
  by (simp add: versions_ok_def New_def)

lemma run_total:
  "\<forall>c \<in> set cs. cmd_op (snd c) = OP_PUT \<or> cmd_op (snd c) = OP_DELETE \<Longrightarrow>
   \<exists>s' rs. run s cs = Inr (s', rs)"
proof (induction cs arbitrary: s)
  case Nil
  then show ?case by simp
next
  case (Cons c cs)
  obtain i cmd where c: "c = (i, cmd)" by (cases c)
  obtain t r where t: "applyCommand s i cmd = Inr (t, r)"
    using applyCommand_total Cons.prems c by fastforce
  obtain s' rs where "run t cs = Inr (s', rs)" using Cons by fastforce
  then show ?case using c t by simp
qed

section \<open>Witnesses\<close>

text \<open>Two commands of a client: a write with request ID \<open>r1\<close> and an anonymous one.\<close>

definition ex_put :: Command where
  "ex_put = zero_command\<lparr>cmd_key := ''task:1'', cmd_value := [7], cmd_requestId := ''r1''\<rparr>"

definition ex_anon :: Command where
  "ex_anon = zero_command\<lparr>cmd_key := ''task:1'', cmd_value := [8]\<rparr>"

lemma ex_ops: "cmd_op ex_put = OP_PUT" "cmd_op ex_anon = OP_PUT"
  by (simp_all add: ex_put_def ex_anon_def zero_command_def)

theorem retry_returns_original_witness:
  "\<exists>s1 r s2 rs s3. applyCommand New 1 ex_put = Inr (s1, r) \<and>
     run s1 [(2, ex_anon)] = Inr (s2, rs) \<and>
     applyCommand s2 3 ex_put = Inr (s3, r) \<and> data s3 = data s2"
proof -
  obtain s1 r where 1: "applyCommand New 1 ex_put = Inr (s1, r)"
    using applyCommand_total ex_ops by blast
  obtain s2 rs where 2: "run s1 [(2, ex_anon)] = Inr (s2, rs)"
    using run_total [of "[(2, ex_anon)]" s1] ex_ops by force
  have "\<exists>s3. applyCommand s2 3 ex_put = Inr (s3, r) \<and> data s3 = data s2"
  proof (rule retry_returns_original [OF dedup_ok_New _ _ _ 1 2])
    show "cmd_requestId ex_put \<noteq> ''''" by (simp add: ex_put_def)
    show "dedup (evictDedupLocked New 1) (cmd_requestId ex_put) = None"
      by (simp add: evictDedupLocked_def New_def)
    show "indexed_from (Suc (unat (1::u64))) ([(2, ex_anon)] @ [(3, ex_put)])" by simp
    show "unat (3::u64) - unat (1::u64) \<le> unat (dedupWindow New)"
      by (simp add: New_def DefaultDedupWindow_def)
  qed auto
  with 1 2 show ?thesis by blast
qed

theorem dedup_bounded_witness:
  "\<exists>s' r. applyCommand New 1 ex_put = Inr (s', r) \<and> dedup_ok s' 2 \<and>
     length (dedupOrder s') \<le> Suc (unat (dedupWindow s'))"
proof -
  obtain s1 r where 1: "applyCommand New 1 ex_put = Inr (s1, r)"
    using applyCommand_total ex_ops by blast
  have "dedup_ok s1 (Suc (unat (1::u64))) \<and> length (dedupOrder s1) \<le> Suc (unat (dedupWindow s1)) \<and>
     card (dom (dedup s1)) \<le> Suc (unat (dedupWindow s1))"
    by (rule dedup_bounded [OF dedup_ok_New _ 1, of 0]) simp
  with 1 show ?thesis by (simp add: numeral_2_eq_2)
qed

theorem applyLocked_refines_witness:
  "\<exists>s' res. applyLocked New ex_put = Inr (s', res) \<and>
     (abs_store s', res_status res, unat (res_version res)) = spec_apply (abs_store New) ex_put"
proof -
  have "writes New (cmd_key ex_put) < 2 ^ 64 - 1" by (simp add: writes_def New_def)
  from applyLocked_refines [OF versions_ok_New this] ex_ops show ?thesis by blast
qed

lemma ex_run:
  "\<exists>s rs. run New [(1, ex_put)] = Inr (s, rs) \<and> versions_ok s \<and>
     Get s ''task:1'' = Inr \<lparr>en_Value = [7], en_Version = 1, en_Cacheable = False,
       en_TTLSeconds = 0, en_UpdatedUnixMs = 0\<rparr>"
  by (auto simp: applyCommand_def applyLocked_def Let_def evictDedupLocked_def New_def ex_put_def
      zero_command_def visible_def versions_ok_def Get_def zero_record_def)

definition ex_entry :: StoreEntry where
  "ex_entry = \<lparr>en_Value = [7], en_Version = 1, en_Cacheable = False, en_TTLSeconds = 0,
     en_UpdatedUnixMs = 0\<rparr>"

theorem version_identifies_value_witness:
  "\<exists>s rs s' rs'. run New [(1, ex_put)] = Inr (s, rs) \<and> run s [(2, ex_put)] = Inr (s', rs') \<and>
     Get s' ''task:1'' = Inr ex_entry"
proof -
  obtain s rs where s: "run New [(1, ex_put)] = Inr (s, rs)" "Get s ''task:1'' = Inr ex_entry"
    using ex_run by (auto simp: ex_entry_def)
  obtain s' rs' where s': "run s [(2, ex_put)] = Inr (s', rs')"
    using run_total [of "[(2, ex_put)]" s] ex_ops by force
  have "\<exists>e. Get s' ''task:1'' = Inr e \<and> en_Version e = 1"
    using s s' by (auto simp: applyCommand_def applyLocked_def Let_def evictDedupLocked_def
        New_def DefaultDedupWindow_def ex_put_def zero_command_def visible_def Get_def
        zero_record_def ex_entry_def bind_res_eq_Inr split: if_splits)
  then obtain e where e: "Get s' ''task:1'' = Inr e" "en_Version e = 1" by blast
  have "ex_entry = e"
    by (rule version_identifies_value [OF s' s(2) e(1)]) (simp_all add: ex_entry_def e(2))
  with s s' e show ?thesis by blast
qed

theorem CAS_no_ABA_witness:
  "\<exists>s rs s' v. run New [(1, ex_put)] = Inr (s, rs) \<and> CAS s ''task:1'' [9] 1 = Inr (s', v, None) \<and>
     v = 2"
proof -
  obtain s rs where s: "run New [(1, ex_put)] = Inr (s, rs)" "versions_ok s"
      "Get s ''task:1'' = Inr ex_entry"
    using ex_run by (auto simp: ex_entry_def)
  have "visible s ''task:1'' = 1"
    using s(3) by (auto simp: Get_def visible_def ex_entry_def split: option.splits if_splits)
  then obtain s' v where c: "CAS s ''task:1'' [9] (en_Version ex_entry) = Inr (s', v, None)"
    by (auto simp: CAS_def applyLocked_def zero_command_def Let_def statusErr_def ex_entry_def)
  have "run s [] = Inr (s, [])" by simp
  from CAS_no_ABA [OF s(2,3) this _ c] have "v = 2" by (simp add: ex_entry_def)
  with s(1) c show ?thesis by (auto simp: ex_entry_def)
qed

theorem Len_counts_live_witness: "Len [] New = card {k. \<exists>e. Get New k = Inr e}"
  by (rule Len_counts_live) (simp add: range_order_def New_def)

definition ex_marshal :: "StoreSnapshot \<Rightarrow> bytes option" where
  "ex_marshal x = (if x = store_snapshot [] New then Some [1] else None)"

theorem snapshot_restore_witness:
  "Snapshot ex_marshal [] New = Inr [1] \<and>
   Restore (\<lambda>_. Some (store_snapshot [] New)) New [1] = Inr New"
proof -
  have b: "Snapshot ex_marshal [] New = Inr [1]" by (simp add: Snapshot_def ex_marshal_def)
  have "Restore (\<lambda>_. Some (store_snapshot [] New)) New [1] = Inr New"
    by (rule snapshot_restore [OF dedup_ok_New _ _ _ b])
      (simp_all add: range_order_def New_def codec_ok_def ex_marshal_def)
  with b show ?thesis by simp
qed

end
