(* ===== verification/EK_Machine.thy ===== *)
theory EK_Machine
  imports EK_Apply EK_Store "HOL-Library.List_Lexorder" "HOL-Library.Char_ord"
begin

text \<open>
  The interface \<open>raft.StateMachine\<close> (\<open>internal/raft/types.go\<close>) and the key-value store behind
  it. Raft calls \<open>Apply\<close> with committed entries in log order, serialises the machine with
  \<open>Snapshot\<close>, and replaces it by \<open>Restore\<close>. The locale \<open>state_machine\<close> is what Raft relies on:
  an invariant that \<open>Apply\<close> keeps, and that restoring a snapshot gives the machine back.

  \<open>kv_codec\<close> collects the marshalling of the messages of the store, a third-party package;
  \<open>ord\<close> is the order in which \<open>Snapshot\<close> visits the keys of the map.
\<close>

record kv_codec =
  cmd_Marshal :: "Command \<Rightarrow> bytes option"
  cmd_Unmarshal :: "bytes \<Rightarrow> Command option"
  res_Marshal :: "Result \<Rightarrow> bytes option"
  res_Unmarshal :: "bytes \<Rightarrow> Result option"
  snap_Marshal :: "StoreSnapshot \<Rightarrow> bytes option"
  snap_Unmarshal :: "bytes \<Rightarrow> StoreSnapshot option"

definition kv_ok :: "kv_codec \<Rightarrow> bool" where
  "kv_ok kv \<longleftrightarrow> codec_ok (cmd_Marshal kv) (cmd_Unmarshal kv) \<and>
     codec_ok (res_Marshal kv) (res_Unmarshal kv) \<and> codec_ok (snap_Marshal kv) (snap_Unmarshal kv)"

definition store_ops :: "kv_codec \<Rightarrow> ((string \<rightharpoonup> kv_record) \<Rightarrow> string list) \<Rightarrow> Store StateMachineOps" where
  "store_ops kv ord = \<lparr>
     sm_Apply = (\<lambda>m i d. Apply (cmd_Unmarshal kv) (res_Marshal kv) m (of_nat i) d),
     sm_Snapshot = (\<lambda>m. Snapshot (snap_Marshal kv) (ord (data m)) m),
     sm_Restore = (\<lambda>m b. Restore (snap_Unmarshal kv) m b)\<rparr>"

section \<open>What Raft relies on\<close>

text \<open>\<open>inv m n\<close>: the machine has seen entries below index \<open>n\<close>; \<open>kin m m'\<close>: the two are
  configured alike.\<close>

locale state_machine =
  fixes ops :: "'m StateMachineOps" and inv :: "'m \<Rightarrow> nat \<Rightarrow> bool" and kin :: "'m \<Rightarrow> 'm \<Rightarrow> bool"
    and limit :: nat
  assumes kin_sym: "kin m m' \<Longrightarrow> kin m' m"
    and kin_trans: "kin m m' \<Longrightarrow> kin m' m'' \<Longrightarrow> kin m m''"
    and inv_mono: "inv m n \<Longrightarrow> n \<le> n' \<Longrightarrow> inv m n'"
    and apply_inv: "inv m n \<Longrightarrow> n \<le> i \<Longrightarrow> i < limit \<Longrightarrow> sm_Apply ops m i d = Inr (m', b) \<Longrightarrow>
      inv m' (Suc i) \<and> kin m m'"
    and restore_snapshot: "inv m n \<Longrightarrow> kin m t \<Longrightarrow> sm_Snapshot ops m = Inr b \<Longrightarrow> sm_Restore ops t b = Inr m"
begin

lemma apply_entries_inv:
  assumes "apply_entries ops m es = Inr (m', bs)" and "contiguous n es" and "inv m n"
    and "n + length es \<le> limit" and "kin m t"
  shows "inv m' (n + length es) \<and> kin m' t \<and> length bs = length es"
  using assms
proof (induction es arbitrary: m n bs)
  case (Cons e es)
  obtain m1 b bs' where s: "(if e_type e = ENTRY_NORMAL then sm_Apply ops m (e_index e) (e_data e) else Inr (m, [])) = Inr (m1, b)"
      "apply_entries ops m1 es = Inr (m', bs')" "bs = b # bs'"
    using Cons.prems(1) by (auto elim!: bind_resE)
  have e: "e_index e = n" "contiguous (Suc n) es" using Cons.prems(2) by simp_all
  have "inv m1 (Suc n) \<and> kin m1 t"
  proof (cases "e_type e = ENTRY_NORMAL")
    case True
    then have "inv m1 (Suc n)" "kin m m1"
      using apply_inv [OF Cons.prems(3) le_refl, of "e_data e" m1 b] s(1) e Cons.prems(4) by simp_all
    then show ?thesis using kin_trans [OF kin_sym Cons.prems(5)] by blast
  next
    case False
    then show ?thesis using s(1) Cons.prems inv_mono by auto
  qed
  then show ?case using Cons.IH [OF s(2) e(2)] Cons.prems(4) s(3) by simp
qed simp

lemma catch_up:
  assumes "apply_entries ops m0 xs = Inr (m1, bs1)" and "apply_entries ops m1 ys = Inr (m, bs2)"
    and "contiguous n xs" and "inv m0 n" and "n + length xs \<le> limit" and "kin m0 t"
    and "sm_Snapshot ops m1 = Inr b"
  shows "\<exists>m'. sm_Restore ops t b = Inr m' \<and> apply_entries ops m' ys = Inr (m, bs2)"
  using apply_entries_inv [OF assms(1,3-6)] restore_snapshot [of m1 "n + length xs" t b] assms(2,7) by blast

end

section \<open>The store is such a machine\<close>

text \<open>The parameters are as documented: unmarshalling inverts marshalling, and a range statement
  visits every key of a finite map once.\<close>

definition kv_env :: "kv_codec \<Rightarrow> ((string \<rightharpoonup> kv_record) \<Rightarrow> string list) \<Rightarrow> bool" where
  "kv_env kv ord \<longleftrightarrow> kv_ok kv \<and> (\<forall>m. finite (dom m) \<longrightarrow> range_order m (ord m))"

definition kv_inv :: "kv_codec \<Rightarrow> ((string \<rightharpoonup> kv_record) \<Rightarrow> string list) \<Rightarrow> Store \<Rightarrow> nat \<Rightarrow> bool" where
  "kv_inv kv ord m n \<longleftrightarrow> kv_env kv ord \<and> dedup_ok m n \<and> finite (dom (data m))"

definition same_window :: "Store \<Rightarrow> Store \<Rightarrow> bool" where
  "same_window m m' \<longleftrightarrow> dedupWindow m = dedupWindow m'"

lemma applyLocked_finite:
  "applyLocked s cmd = Inr (s', r) \<Longrightarrow> finite (dom (data s)) \<Longrightarrow> finite (dom (data s'))"
  by (auto simp: applyLocked_def Let_def split: if_splits Op.splits option.splits)

lemma applyCommand_finite:
  "applyCommand s i cmd = Inr (s', r) \<Longrightarrow> finite (dom (data s)) \<Longrightarrow> finite (dom (data s'))"
  by (auto simp: applyCommand_def Let_def elim!: bind_resE dest!: applyLocked_finite split: if_splits option.splits)

lemma apply_entries_append:
  "apply_entries ops m (xs @ ys) = Inr (m', bs) \<longleftrightarrow>
     (\<exists>m1 bs1 bs2. apply_entries ops m xs = Inr (m1, bs1) \<and> apply_entries ops m1 ys = Inr (m', bs2) \<and> bs = bs1 @ bs2)"
  by (induction xs arbitrary: m bs) (fastforce simp: bind_res_eq_Inr)+

interpretation kv: state_machine "store_ops kv ord" "kv_inv kv ord" same_window "2 ^ 64" for kv ord
proof unfold_locales
  fix m n i d m' b
  assume inv: "kv_inv kv ord m n" and "n \<le> i" "i < 2 ^ 64" and "sm_Apply (store_ops kv ord) m i d = Inr (m', b)"
  then obtain cmd r where ap: "applyCommand m (of_nat i) cmd = Inr (m', r)"
    by (auto simp: store_ops_def Apply_def elim!: bind_resE split: option.splits)
  have i: "unat (of_nat i :: u64) = i" using \<open>i < 2 ^ 64\<close> by (simp add: unat_of_nat)
  show "kv_inv kv ord m' (Suc i) \<and> same_window m m'"
    using applyCommand_ok [OF _ _ ap, of n] applyCommand_finite [OF ap] applyCommand_window [OF ap] inv \<open>n \<le> i\<close>
    by (simp add: kv_inv_def same_window_def i)
next
  fix m n t b
  assume "kv_inv kv ord m n" "same_window m t" "sm_Snapshot (store_ops kv ord) m = Inr b"
  then show "sm_Restore (store_ops kv ord) t b = Inr m"
    using restore_store_snapshot [of m n "ord (data m)" t] codec_okD [of "snap_Marshal kv" "snap_Unmarshal kv"]
    by (fastforce simp: store_ops_def kv_inv_def kv_env_def kv_ok_def same_window_def Snapshot_def Restore_def
        split: option.splits)
qed (auto simp: same_window_def kv_inv_def intro: dedup_ok_mono)

text \<open>C20. A replica that installs a snapshot and applies the entries after it ends in the same
  store, and gives the same answers, as a replica that applied the whole log: versions,
  tombstones, remembered request IDs and the eviction order included.\<close>

theorem snapshot_replica_agrees:
  assumes "kv_env kv ord" and "apply_entries (store_ops kv ord) New xs = Inr (m1, bs1)"
    and "sm_Snapshot (store_ops kv ord) m1 = Inr b" and "apply_entries (store_ops kv ord) New (xs @ ys) = Inr (m, bs)"
    and "contiguous 1 xs" and "length xs < 2 ^ 64"
  shows "\<exists>m' bs2. sm_Restore (store_ops kv ord) New b = Inr m' \<and>
    apply_entries (store_ops kv ord) m' ys = Inr (m, bs2) \<and> bs = bs1 @ bs2"
proof -
  obtain bs2 where ys: "apply_entries (store_ops kv ord) m1 ys = Inr (m, bs2)" "bs = bs1 @ bs2"
    using assms(2,4) by (auto simp: apply_entries_append)
  have "kv_inv kv ord New 1" using assms(1) by (simp add: kv_inv_def dedup_ok_New) (simp add: New_def)
  then show ?thesis
    using kv.catch_up [OF assms(2) ys(1) assms(5), of New b] assms(3,6) ys(2) by (auto simp: same_window_def)
qed

section \<open>Witness\<close>

text \<open>A marshalling of one command and of every result, and of one snapshot.\<close>

definition ex_kv :: "StoreSnapshot \<Rightarrow> kv_codec" where
  "ex_kv sn = \<lparr>
     cmd_Marshal = (\<lambda>c. if c = ex_put then Some [1] else None),
     cmd_Unmarshal = (\<lambda>b. if b = [1] then Some ex_put else None),
     res_Marshal = (\<lambda>r. case res_status r of STATUS_OK \<Rightarrow> Some (map (word_of_nat \<circ> of_bool) (map (bit (res_version r)) [0..<64])) | _ \<Rightarrow> None),
     res_Unmarshal = (\<lambda>b. Some \<lparr>res_status = STATUS_OK, res_version = horner_sum of_bool 2 (map (\<lambda>w. w \<noteq> 0) b)\<rparr>),
     snap_Marshal = (\<lambda>x. if x = sn then Some [2] else None),
     snap_Unmarshal = (\<lambda>b. if b = [2] then Some sn else None)\<rparr>"

definition ex_key_order :: "(string \<rightharpoonup> kv_record) \<Rightarrow> string list" where
  "ex_key_order m = sorted_list_of_set (dom m)"

lemma ex_kv_env: "kv_env (ex_kv sn) ex_key_order"
proof -
  have "horner_sum of_bool 2 (map (\<lambda>w. w \<noteq> 0) (map (word_of_nat \<circ> of_bool) (map (bit v) [0..<64]) :: bytes)) = v" for v :: u64
    by (rule bit_word_eqI) (simp add: bit_horner_sum_bit_word_iff comp_def)
  then have "codec_ok (res_Marshal (ex_kv sn)) (res_Unmarshal (ex_kv sn))"
    by (auto simp: codec_ok_def ex_kv_def split: Status.splits)
  then show ?thesis
    by (auto simp: kv_env_def kv_ok_def codec_ok_def ex_kv_def range_order_def ex_key_order_def)
qed

definition ex_cmd_entry :: "nat \<Rightarrow> Entry" where
  "ex_cmd_entry i = \<lparr>e_index = i, e_term = 1, e_type = ENTRY_NORMAL, e_data = [1]\<rparr>"

lemma ex_apply_first:
  "\<exists>m r. applyCommand New 1 ex_put = Inr (m, r) \<and> res_status r = STATUS_OK \<and> finite (dom (data m))"
  by (auto simp: applyCommand_def applyLocked_def Let_def evictDedupLocked_def New_def ex_put_def zero_command_def
      visible_def)

lemma ex_apply_again:
  assumes "applyCommand New 1 ex_put = Inr (m, r)"
  shows "\<exists>m'. applyCommand m 2 ex_put = Inr (m', r)"
  using assms
  by (auto simp: applyCommand_def applyLocked_def Let_def evictDedupLocked_def New_def ex_put_def zero_command_def
      visible_def DefaultDedupWindow_def)

theorem snapshot_replica_agrees_witness:
  "\<exists>sn b m1 bs1 m bs m' bs2.
     apply_entries (store_ops (ex_kv sn) ex_key_order) New [ex_cmd_entry 1] = Inr (m1, bs1) \<and>
     sm_Snapshot (store_ops (ex_kv sn) ex_key_order) m1 = Inr b \<and>
     apply_entries (store_ops (ex_kv sn) ex_key_order) New ([ex_cmd_entry 1] @ [ex_cmd_entry 2]) = Inr (m, bs) \<and>
     sm_Restore (store_ops (ex_kv sn) ex_key_order) New b = Inr m' \<and>
     apply_entries (store_ops (ex_kv sn) ex_key_order) m' [ex_cmd_entry 2] = Inr (m, bs2) \<and> bs = bs1 @ bs2"
proof -
  obtain m1 r where a: "applyCommand New 1 ex_put = Inr (m1, r)" "res_status r = STATUS_OK" using ex_apply_first by blast
  obtain m where m: "applyCommand m1 2 ex_put = Inr (m, r)" using ex_apply_again [OF a(1)] by blast
  let ?sn = "store_snapshot (ex_key_order (data m1)) m1"
  let ?ops = "store_ops (ex_kv ?sn) ex_key_order"
  obtain out where out: "res_Marshal (ex_kv ?sn) r = Some out" using a(2) by (simp add: ex_kv_def)
  have u: "cmd_Unmarshal (ex_kv ?sn) [1] = Some ex_put" by (simp add: ex_kv_def)
  have xs: "apply_entries ?ops New [ex_cmd_entry 1] = Inr (m1, [out])"
    using a(1) u out by (simp add: ex_cmd_entry_def store_ops_def Apply_def mustMarshal_def)
  have xy: "apply_entries ?ops New ([ex_cmd_entry 1] @ [ex_cmd_entry 2]) = Inr (m, [out, out])"
    using a(1) m u out by (simp add: ex_cmd_entry_def store_ops_def Apply_def mustMarshal_def)
  have sn: "sm_Snapshot ?ops m1 = Inr [2]" by (simp add: store_ops_def Snapshot_def ex_kv_def)
  obtain m' bs2 where "sm_Restore ?ops New [2] = Inr m'" "apply_entries ?ops m' [ex_cmd_entry 2] = Inr (m, bs2)"
      "[out, out] = [out] @ bs2"
    using snapshot_replica_agrees [OF ex_kv_env xs sn xy] by (auto simp: ex_cmd_entry_def)
  then show ?thesis using xs xy sn by blast
qed

end
