(* ===== verification/EK_Shard.thy ===== *)
theory EK_Shard
  imports EK_Prelude
begin

text \<open>
  Package \<open>internal/shard\<close>: the key-to-shard mapping \<open>ForKey\<close>, with the FNV-1a hash of the
  standard library (\<open>hash/fnv\<close>, \<open>New32a\<close>) that it uses. \<open>numShards\<close> is a Go \<open>int\<close>; the
  conversion \<open>uint32(numShards)\<close> keeps its low 32 bits, and a remainder by zero panics.
\<close>

unbundle bit_operations_syntax

definition fnv_offset32 :: u32 where
  "fnv_offset32 = 2166136261"

definition fnv_prime32 :: u32 where
  "fnv_prime32 = 16777619"

fun fnv32a :: "u32 \<Rightarrow> bytes \<Rightarrow> u32" where
  "fnv32a h [] = h"
| "fnv32a h (c # cs) = fnv32a ((h XOR ucast c) * fnv_prime32) cs"

definition key_bytes :: "string \<Rightarrow> bytes" where
  "key_bytes k = map (\<lambda>c. word_of_nat (of_char c)) k"

definition ForKey :: "string \<Rightarrow> int \<Rightarrow> go_error + int" where
  "ForKey key numShards =
     (if numShards \<le> 1 then Inr 0
      else let h = fnv32a fnv_offset32 (key_bytes key);
               n = (word_of_int numShards :: u32)
           in if n = 0 then Inl (Panic ''integer divide by zero'')
              else Inr (uint (h mod n)))"

lemma fnv32a_append: "fnv32a h (xs @ ys) = fnv32a (fnv32a h xs) ys"
  by (induction xs arbitrary: h) auto

lemma uint_numShards:
  assumes "0 \<le> n" and "n < 2 ^ 32"
  shows "uint (word_of_int n :: u32) = n"
  using assms by (simp add: uint_word_of_int)

lemma ForKey_bounds:
  assumes "numShards < 2 ^ 32"
  shows "\<exists>s. ForKey key numShards = Inr s \<and> 0 \<le> s \<and> s < max 1 numShards"
proof (cases "numShards \<le> 1")
  case True
  then show ?thesis by (simp add: ForKey_def)
next
  case False
  let ?n = "word_of_int numShards :: u32"
  from False assms have un: "uint ?n = numShards"
    by (intro uint_numShards) auto
  with False have "?n \<noteq> 0" by auto
  moreover have "uint (h mod ?n) < numShards" for h
    using False un by (simp add: uint_mod)
  ultimately show ?thesis
    using False by (simp add: ForKey_def Let_def)
qed

end
