(* ===== verification/EK_Node.thy ===== *)
theory EK_Node
  imports EK_Machine EK_Shard EK_Replay
begin

text \<open>
  Package \<open>internal/node\<close>: one process with a replica of every shard (\<open>node.go\<close>) and the
  handler that routes RPCs by group (\<open>dispatch.go\<close>).

  A shard is its number and its Raft replica, over the durable storage and the key-value store;
  the fields \<open>Store\<close> and \<open>storage\<close> of the Go struct are the machine and the disk of the
  replica. \<open>Propose\<close> and \<open>ReadIndex\<close> wait for other goroutines: what they return is an argument,
  and a list of outcomes that ends stands for the end of the context. Starting and stopping the
  goroutines is left out.
\<close>

section \<open>State\<close>

type_synonym replica = "(RaftStore, Store) Raft"

record NodeConfig =
  nc_ID :: node_id
  nc_Peers :: "node_id list"
  nc_NumShards :: int
  nc_Sync :: bool
  nc_SnapshotThreshold :: nat
  nc_WALSegmentSize :: nat
  nc_HeartbeatInterval :: int
  nc_ElectionTimeoutMin :: int
  nc_ElectionTimeoutMax :: int

record Shard =
  sh_ID :: nat
  sh_Raft :: replica

record Node =
  nd_cfg :: NodeConfig
  nd_peers :: "node_id list" \<comment> \<open>sorted\<close>
  nd_shards :: "Shard list"

text \<open>What the directory of a shard holds.\<close>

record shard_dir =
  dir_files :: "(Segment \<times> File) list"
  dir_snaps :: "(snap_name \<times> bytes) list"
  dir_tmps :: "(snap_name \<times> bytes) list"

definition shard_config :: "pb_codec \<Rightarrow> kv_codec \<Rightarrow> ((string \<rightharpoonup> kv_record) \<Rightarrow> string list)
    \<Rightarrow> NodeConfig \<Rightarrow> nat \<Rightarrow> (RaftStore, Store) Config" where
  "shard_config pb kv ord c i =
     \<lparr>c_ID = nc_ID c, c_Group = i mod 2 ^ 32, c_Peers = nc_Peers c,
      c_ElectionTimeoutMin = nc_ElectionTimeoutMin c, c_ElectionTimeoutMax = nc_ElectionTimeoutMax c,
      c_HeartbeatInterval = nc_HeartbeatInterval c, c_RPCTimeout = 0,
      c_SnapshotThreshold = nc_SnapshotThreshold c, c_MaxAppendEntries = 0, c_MaxProposalBatch = 0,
      c_Storage = rs_ops pb, c_StateMachine = store_ops kv ord, c_OnStateChange = True\<rparr>"

text \<open>The loop of \<open>New\<close>: \<open>k\<close> shards are left, the next one is \<open>i\<close>.\<close>

fun open_shards :: "pb_codec \<Rightarrow> kv_codec \<Rightarrow> ((string \<rightharpoonup> kv_record) \<Rightarrow> string list) \<Rightarrow> NodeConfig
    \<Rightarrow> (nat \<Rightarrow> shard_dir) \<Rightarrow> nat \<Rightarrow> nat \<Rightarrow> go_error + Shard list" where
  "open_shards pb kv ord c dirs i 0 = Inr []"
| "open_shards pb kv ord c dirs i (Suc k) =
     bind_res (rs_Open (nc_WALSegmentSize c) (nc_Sync c) (dir_files (dirs i)) (dir_snaps (dirs i))
         (dir_tmps (dirs i)) []) (\<lambda>storage.
     bind_res (New_raft True (shard_config pb kv ord c i) storage New) (\<lambda>r.
     bind_res (open_shards pb kv ord c dirs (i + 1) k) (\<lambda>rest.
       Inr (\<lparr>sh_ID = i mod 2 ^ 32, sh_Raft = r\<rparr> # rest))))"

definition node_New :: "pb_codec \<Rightarrow> kv_codec \<Rightarrow> ((string \<rightharpoonup> kv_record) \<Rightarrow> string list) \<Rightarrow> NodeConfig
    \<Rightarrow> (nat \<Rightarrow> shard_dir) \<Rightarrow> go_error + Node" where
  "node_New pb kv ord c dirs =
     (if nc_NumShards c \<le> 0 then Inl (ErrConfig ''node: NumShards must be positive'')
      else bind_res (open_shards pb kv ord c dirs 0 (nat (nc_NumShards c))) (\<lambda>shards.
        Inr \<lparr>nd_cfg = c, nd_peers = sort (nc_Peers c), nd_shards = shards\<rparr>))"

section \<open>Routing\<close>

definition node_Handler :: "Node \<Rightarrow> nat \<Rightarrow> replica option" where
  "node_Handler n grp =
     (if grp \<ge> length (nd_shards n) then None else Some (sh_Raft (nd_shards n ! grp)))"

definition NumShards :: "Node \<Rightarrow> nat" where
  "NumShards n = length (nd_shards n)"

definition ShardFor :: "Node \<Rightarrow> string \<Rightarrow> go_error + Shard" where
  "ShardFor n key =
     bind_res (ForKey key (int (length (nd_shards n)))) (\<lambda>i.
       if nat i < length (nd_shards n) then Inr (nd_shards n ! nat i)
       else Inl (Panic ''index out of range''))"

definition set_raft :: "Node \<Rightarrow> nat \<Rightarrow> replica \<Rightarrow> Node" where
  "set_raft n g r = n\<lparr>nd_shards := (nd_shards n)[g := (nd_shards n ! g)\<lparr>sh_Raft := r\<rparr>]\<rparr>"

text \<open>The four methods of \<open>Dispatcher\<close> have the same shape: \<open>h\<close> is the handler of the replica
  and \<open>zero\<close> the empty response.\<close>

definition dispatch :: "Node \<Rightarrow> nat \<Rightarrow> (replica \<Rightarrow> go_error + (replica \<times> 'resp)) \<Rightarrow> 'resp
    \<Rightarrow> go_error + (Node \<times> 'resp)" where
  "dispatch n g h zero =
     (case node_Handler n g of
        Some r \<Rightarrow> bind_res (h r) (\<lambda>(r', resp). Inr (set_raft n g r', resp))
      | None \<Rightarrow> Inr (n, zero))"

definition disp_HandleRequestVote where
  "disp_HandleRequestVote env n req =
     dispatch n (rv_group req) (\<lambda>r. HandleRequestVote env r req) \<lparr>rvr_term = 0, rvr_voteGranted = False\<rparr>"

definition disp_HandleAppendEntries where
  "disp_HandleAppendEntries env n req =
     dispatch n (ae_group req) (\<lambda>r. HandleAppendEntries env r req)
       \<lparr>aer_term = 0, aer_success = False, aer_conflictIndex = 0, aer_conflictTerm = 0\<rparr>"

definition disp_HandleInstallSnapshot where
  "disp_HandleInstallSnapshot env n req =
     dispatch n (is_group req) (\<lambda>r. HandleInstallSnapshot env r req) \<lparr>isr_term = 0\<rparr>"

definition disp_HandleTimeoutNow where
  "disp_HandleTimeoutNow n req =
     dispatch n (tn_group req) (\<lambda>r. Inr (HandleTimeoutNow r req)) \<lparr>tnr_term = 0\<rparr>"

section \<open>Key-value operations\<close>

text \<open>\<open>propose g d\<close> is what \<open>Propose\<close> of the replica of group \<open>g\<close> returns.\<close>

definition node_Write :: "kv_codec \<Rightarrow> u64 \<Rightarrow> (nat \<Rightarrow> bytes \<Rightarrow> go_error + bytes) \<Rightarrow> Node \<Rightarrow> Command
    \<Rightarrow> go_error + Result" where
  "node_Write kv nowMs propose n cmd0 =
     (let cmd = cmd0\<lparr>cmd_timestampUnixMs := nowMs\<rparr> in
      case cmd_Marshal kv cmd of
        None \<Rightarrow> Inl ErrMarshal
      | Some d \<Rightarrow>
          bind_res (ShardFor n (cmd_key cmd)) (\<lambda>sh.
          bind_res (propose (sh_ID sh) d) (\<lambda>out.
            case res_Unmarshal kv out of None \<Rightarrow> Inl ErrUnmarshal | Some res \<Rightarrow> Inr res)))"

text \<open>The loop around \<open>ReadIndex\<close>, over what the calls return in turn (\<open>None\<close>: success).\<close>

fun read_loop :: "go_error option list \<Rightarrow> go_error option" where
  "read_loop [] = Some ErrContext"
| "read_loop (None # os) = None"
| "read_loop (Some e # os) = (if e \<noteq> ErrNotReady then Some e else read_loop os)"

definition node_Get :: "Node \<Rightarrow> go_error option list \<Rightarrow> string \<Rightarrow> go_error + StoreEntry" where
  "node_Get n outcomes key =
     bind_res (ShardFor n key) (\<lambda>sh.
       case read_loop outcomes of
         Some e \<Rightarrow> Inl e
       | None \<Rightarrow> Get (machine (sh_Raft sh)) key)"

section \<open>Rebalancing\<close>

definition PreferredLeader :: "Node \<Rightarrow> nat \<Rightarrow> go_error + node_id" where
  "PreferredLeader n shardID =
     (if nd_peers n = [] then Inl (Panic ''integer divide by zero'')
      else Inr (nd_peers n ! (shardID mod length (nd_peers n))))"

definition shard_WALSize :: "Shard \<Rightarrow> nat" where
  "shard_WALSize s = WALSize (disk (sh_Raft s))"

text \<open>Whether the rebalancer hands a shard over, and to whom. The subtraction of the code is on
  \<open>uint64\<close>: below zero it wraps around to a number far above 64.\<close>

definition rebalance_target :: "Node \<Rightarrow> Shard \<Rightarrow> go_error + node_id option" where
  "rebalance_target n s =
     bind_res (PreferredLeader n (sh_ID s)) (\<lambda>preferred.
       let st = statusLocked (sh_Raft s) in
       if s_State st \<noteq> Leader \<or> preferred = nc_ID (nd_cfg n) then Inr None
       else case s_MatchIndex st preferred of
           None \<Rightarrow> Inr None
         | Some match \<Rightarrow>
             if match > s_LastLogIndex st \<or> s_LastLogIndex st - match > 64 then Inr None
             else Inr (Some preferred))"

definition rebalance_shard :: "Env \<Rightarrow> Node \<Rightarrow> nat \<Rightarrow> go_error + Node" where
  "rebalance_shard env n i =
     (if i \<ge> length (nd_shards n) then Inl (Panic ''index out of range'')
      else let s = nd_shards n ! i in
        bind_res (rebalance_target n s) (\<lambda>target.
          case target of
            None \<Rightarrow> Inr n
          | Some preferred \<Rightarrow>
              (case transfer_begin env (sh_Raft s) preferred of
                 Inl _ \<Rightarrow> Inr n
               | Inr (r, _) \<Rightarrow> Inr (set_raft n i r))))"

section \<open>Properties\<close>

lemma card_mod_class:
  assumes "0 < m" and "j < m"
  shows "card {i. i < n \<and> i mod m = j} = n div m + (if j < n mod m then 1 else 0)"
proof (induction n)
  case (Suc n)
  have "{i. i < Suc n \<and> i mod m = j} = (if n mod m = j then insert n {i. i < n \<and> i mod m = j} else {i. i < n \<and> i mod m = j})"
    using less_Suc_eq by auto
  then have c: "card {i. i < Suc n \<and> i mod m = j} = (if n mod m = j then 1 else 0) + card {i. i < n \<and> i mod m = j}"
    by simp
  show ?case
  proof (cases "Suc (n mod m) = m")
    case True
    then have "Suc n div m = Suc (n div m)" "Suc n mod m = 0"
      using assms by (simp_all add: div_Suc mod_Suc)
    then show ?thesis using c Suc.IH True assms by auto
  next
    case False
    then have "Suc n div m = n div m" "Suc n mod m = Suc (n mod m)"
      using assms by (simp_all add: div_Suc mod_Suc)
    then show ?thesis using c Suc.IH by auto
  qed
qed simp

text \<open>C21. Every node computes the same preferred leaders, whatever order its configuration lists
  the members in, and they are spread evenly: with \<open>k\<close> shards and \<open>m\<close> members each member is
  preferred for \<open>k div m\<close> of them or for one more.\<close>

theorem preferred_leaders_even:
  assumes "mset (nc_Peers c) = mset (nc_Peers c')" and "distinct (nc_Peers c)" and "p \<in> set (nc_Peers c)"
    and "node_New pb kv ord c dirs = Inr n" and "node_New pb' kv' ord' c' dirs' = Inr n'"
  shows "PreferredLeader n i = PreferredLeader n' i \<and>
    card {i. i < k \<and> PreferredLeader n i = Inr p} \<in>
      {k div length (nc_Peers c), k div length (nc_Peers c) + 1}"
proof -
  have s: "nd_peers n = sort (nc_Peers c)" "nd_peers n' = sort (nc_Peers c')"
    using assms(4,5) by (auto simp: node_New_def elim!: bind_resE split: if_splits)
  then have eq: "nd_peers n = nd_peers n'" using assms(1) by (metis properties_for_sort mset_sort sorted_sort)
  let ?m = "length (nc_Peers c)"
  have m: "0 < ?m" "length (nd_peers n) = ?m" "distinct (nd_peers n)" "p \<in> set (nd_peers n)"
    using assms(2,3) s by auto
  then obtain j where j: "j < ?m" "nd_peers n ! j = p" by (metis in_set_conv_nth)
  have "PreferredLeader n i = Inr p \<longleftrightarrow> i mod ?m = j" for i
    using m j nth_eq_iff_index_eq [OF m(3), of "i mod ?m" j] by (auto simp: PreferredLeader_def)
  then have "card {i. i < k \<and> PreferredLeader n i = Inr p} = k div ?m + (if j < k mod ?m then 1 else 0)"
    using card_mod_class [OF m(1) j(1)] by simp
  then show ?thesis using eq by (simp add: PreferredLeader_def)
qed

text \<open>An RPC reaches exactly the replica of the group it names: the other shards of the node
  are untouched, and for a group that the node does not host nothing changes and the response is
  the empty one.\<close>

theorem dispatch_routes:
  assumes "disp_HandleAppendEntries env n req = Inr (n', resp)"
  shows "(\<forall>i. i \<noteq> ae_group req \<longrightarrow> node_Handler n' i = node_Handler n i) \<and>
    (case node_Handler n (ae_group req) of
       None \<Rightarrow> n' = n \<and> \<not> aer_success resp
     | Some r \<Rightarrow> (\<exists>r'. HandleAppendEntries env r req = Inr (r', resp) \<and> node_Handler n' (ae_group req) = Some r'))"
  using assms
  by (auto simp: disp_HandleAppendEntries_def dispatch_def node_Handler_def set_raft_def elim!: bind_resE split: if_splits)

lemma open_shards_length: "open_shards pb kv ord c dirs i k = Inr ss \<Longrightarrow>
    length ss = k \<and> (\<forall>j < k. sh_ID (ss ! j) = (i + j) mod 2 ^ 32)"
proof (induction k arbitrary: i ss)
  case (Suc k)
  then obtain s r rest where s: "ss = \<lparr>sh_ID = i mod 2 ^ 32, sh_Raft = r\<rparr> # rest"
      "open_shards pb kv ord c dirs (i + 1) k = Inr rest"
    by (auto elim!: bind_resE)
  then show ?case using Suc.IH [OF s(2)] by (auto simp: nth_Cons split: nat.splits)
qed simp


section \<open>Witnesses\<close>

text \<open>A member of a group of three with four shards and empty directories.\<close>

definition ex_node_config :: "node_id list \<Rightarrow> NodeConfig" where
  "ex_node_config ps = \<lparr>nc_ID = ''b'', nc_Peers = ps, nc_NumShards = 4, nc_Sync = True, nc_SnapshotThreshold = 0,
     nc_WALSegmentSize = 100000, nc_HeartbeatInterval = 1, nc_ElectionTimeoutMin = 10, nc_ElectionTimeoutMax = 20\<rparr>"

definition ex_dir :: shard_dir where
  "ex_dir = \<lparr>dir_files = [], dir_snaps = [], dir_tmps = []\<rparr>"

text \<open>Opening an empty directory creates the first segment; loading it finds nothing.\<close>

lemma ex_open: "rs_Open 100000 True [] [] [] [] = Inr (ex_disk 0 [])"
  by (simp add: rs_Open_def wal_Open_def listSegments_def createSegment_def sys_call_def next_io_def io_bind_def
      ex_disk_def ex_seg_def durable_def Let_def)

lemma ex_load_empty: "\<exists>d. st_Load (rs_ops ex_codec) (ex_disk 0 []) = Inr (d, ex_loaded [] [])"
proof -
  have l: "rs_log ex_codec (ex_disk 0 []) [(ex_seg, [])] (ex_loaded [] [])" by (rule ex_log) simp_all
  then show ?thesis using reload_log [OF l] by (auto simp: rs_ops_def)
qed

text \<open>Every replica starts as a follower with an empty log.\<close>

definition ex_fresh_replica :: "replica \<Rightarrow> bool" where
  "ex_fresh_replica r \<longleftrightarrow> currentTerm r = 0 \<and> rlog r = empty_log \<and> rstate r = Follower"

lemma ex_new_replica:
  assumes "''b'' \<in> set ps"
  shows "\<exists>r. New_raft True (shard_config ex_codec kv ord (ex_node_config ps) i) (ex_disk 0 []) New = Inr r \<and> ex_fresh_replica r"
proof -
  obtain d where "st_Load (rs_ops ex_codec) (ex_disk 0 []) = Inr (d, ex_loaded [] [])" using ex_load_empty by blast
  then show ?thesis
    using assms by (auto simp: New_raft_def setDefaults_def shard_config_def ex_node_config_def ex_loaded_def Let_def
        ex_fresh_replica_def zero_raft_def empty_log_def)
qed

lemma ex_open_shards:
  assumes "''b'' \<in> set ps"
  shows "\<exists>ss. open_shards ex_codec kv ord (ex_node_config ps) (\<lambda>_. ex_dir) i k = Inr ss \<and>
    (\<forall>s \<in> set ss. ex_fresh_replica (sh_Raft s)) \<and> length ss = k"
proof (induction k arbitrary: i)
  case (Suc k)
  obtain rest where "open_shards ex_codec kv ord (ex_node_config ps) (\<lambda>_. ex_dir) (i + 1) k = Inr rest"
      "\<forall>s \<in> set rest. ex_fresh_replica (sh_Raft s)" "length rest = k"
    using Suc by blast
  moreover obtain r where "New_raft True (shard_config ex_codec kv ord (ex_node_config ps) i) (ex_disk 0 []) New = Inr r"
      "ex_fresh_replica r"
    using ex_new_replica [OF assms] by blast
  moreover have "rs_Open (nc_WALSegmentSize (ex_node_config ps)) (nc_Sync (ex_node_config ps)) (dir_files ex_dir)
      (dir_snaps ex_dir) (dir_tmps ex_dir) [] = Inr (ex_disk 0 [])"
    using ex_open by (simp add: ex_node_config_def ex_dir_def)
  ultimately show ?case by simp
qed simp

lemma ex_node:
  assumes "''b'' \<in> set ps"
  shows "\<exists>n. node_New ex_codec kv ord (ex_node_config ps) (\<lambda>_. ex_dir) = Inr n \<and> length (nd_shards n) = 4 \<and>
    (\<forall>s \<in> set (nd_shards n). ex_fresh_replica (sh_Raft s))"
proof -
  obtain ss where "open_shards ex_codec kv ord (ex_node_config ps) (\<lambda>_. ex_dir) 0 4 = Inr ss"
      "\<forall>s \<in> set ss. ex_fresh_replica (sh_Raft s)" "length ss = 4"
    using ex_open_shards [OF assms] by blast
  moreover have "nc_NumShards (ex_node_config ps) = 4" by (simp add: ex_node_config_def)
  ultimately show ?thesis by (simp add: node_New_def)
qed

text \<open>A heartbeat to a fresh replica succeeds.\<close>

definition ex_heartbeat :: AppendEntriesRequest where
  "ex_heartbeat = \<lparr>ae_group = 2, ae_term = 0, ae_leaderId = ''a'', ae_prevLogIndex = 0, ae_prevLogTerm = 0,
     ae_entries = [], ae_leaderCommit = 0\<rparr>"

lemma ex_heartbeat_ok:
  assumes "ex_fresh_replica r"
  shows "\<exists>r' resp. HandleAppendEntries env r ex_heartbeat = Inr (r', resp)"
  using assms
  by (simp add: HandleAppendEntries_def becomeFollowerLocked_def ex_fresh_replica_def ex_heartbeat_def
      resetElectionTimerLocked_def notifyStateChangeLocked_def acceptEntries_def lastIndex_def term0_def term_at_def
      empty_log_def Let_def)

abbreviation ex_start_node :: "node_id list \<Rightarrow> go_error + Node" where
  "ex_start_node ps \<equiv> node_New ex_codec (ex_kv (store_snapshot [] New)) ex_key_order (ex_node_config ps) (\<lambda>_. ex_dir)"

theorem preferred_leaders_even_witness:
  "\<exists>n n'. ex_start_node [''c'', ''a'', ''b''] = Inr n \<and> ex_start_node [''b'', ''c'', ''a''] = Inr n' \<and>
     PreferredLeader n 3 = PreferredLeader n' 3 \<and> card {i. i < 4 \<and> PreferredLeader n i = Inr ''a''} \<in> {1, 2}"
proof -
  obtain n n' where n: "ex_start_node [''c'', ''a'', ''b''] = Inr n" "ex_start_node [''b'', ''c'', ''a''] = Inr n'"
    using ex_node [of "[''c'', ''a'', ''b'']"] ex_node [of "[''b'', ''c'', ''a'']"] by (metis list.set_intros)
  then show ?thesis
    using preferred_leaders_even [OF _ _ _ n, of "''a''" 3 4] by (auto simp: ex_node_config_def)
qed

theorem dispatch_routes_witness:
  "\<exists>n n' resp r r'. ex_start_node [''a'', ''b''] = Inr n \<and>
     disp_HandleAppendEntries \<lparr>now = 5, rnd = 1\<rparr> n ex_heartbeat = Inr (n', resp) \<and>
     node_Handler n 2 = Some r \<and> HandleAppendEntries \<lparr>now = 5, rnd = 1\<rparr> r ex_heartbeat = Inr (r', resp) \<and>
     node_Handler n' 2 = Some r'"
proof -
  obtain n where n: "ex_start_node [''a'', ''b''] = Inr n" "length (nd_shards n) = 4"
      "\<forall>s \<in> set (nd_shards n). ex_fresh_replica (sh_Raft s)"
    using ex_node [of "[''a'', ''b'']"] by force
  let ?r = "sh_Raft (nd_shards n ! 2)"
  have r: "node_Handler n 2 = Some ?r" using n(2) by (simp add: node_Handler_def)
  obtain r' resp where "HandleAppendEntries \<lparr>now = 5, rnd = 1\<rparr> ?r ex_heartbeat = Inr (r', resp)"
    using ex_heartbeat_ok n by force
  then have d: "disp_HandleAppendEntries \<lparr>now = 5, rnd = 1\<rparr> n ex_heartbeat = Inr (set_raft n 2 r', resp)"
    using r by (simp add: disp_HandleAppendEntries_def dispatch_def ex_heartbeat_def)
  have g: "ae_group ex_heartbeat = 2" by (simp add: ex_heartbeat_def)
  show ?thesis using dispatch_routes [OF d] n(1) r d unfolding g by auto
qed


end
