(* ===== verification/EK_Transport.thy ===== *)
theory EK_Transport
  imports EK_Node
begin

text \<open>
  Package \<open>internal/transport\<close> (\<open>grpc.go\<close>): Raft RPCs over gRPC. gRPC itself is a third-party
  package: whether a connection can be made and what a call returns are arguments, and a stream
  delivers its messages in order and ends with an end-of-file or with an error. A snapshot is
  sent as a header followed by pieces of its data, and put together again by the receiver.
\<close>

datatype rpc_error = UnknownPeer node_id | DialFailed | NotHosted nat | InvalidArgument string
  | StreamError | CallFailed | HandlerPanic go_error

section \<open>The client\<close>

record TransportClient =
  tc_addrs :: "node_id \<rightharpoonup> string"
  tc_conns :: "node_id list" \<comment> \<open>the peers with a connection\<close>

definition NewClient :: "(node_id \<rightharpoonup> string) \<Rightarrow> TransportClient" where
  "NewClient addrs = \<lparr>tc_addrs = addrs, tc_conns = []\<rparr>"

definition peer :: "(string \<Rightarrow> bool) \<Rightarrow> TransportClient \<Rightarrow> node_id \<Rightarrow> rpc_error + TransportClient" where
  "peer dial c to =
     (if to \<in> set (tc_conns c) then Inr c
      else case tc_addrs c to of
          None \<Rightarrow> Inl (UnknownPeer to)
        | Some addr \<Rightarrow> if \<not> dial addr then Inl DialFailed
                       else Inr (c\<lparr>tc_conns := to # tc_conns c\<rparr>))"

text \<open>\<open>RequestVote\<close>, \<open>AppendEntries\<close> and \<open>TimeoutNow\<close>: \<open>call\<close> is the generated stub.\<close>

definition unary :: "(string \<Rightarrow> bool) \<Rightarrow> (node_id \<Rightarrow> 'req \<Rightarrow> rpc_error + 'resp) \<Rightarrow> TransportClient
    \<Rightarrow> node_id \<Rightarrow> 'req \<Rightarrow> TransportClient \<times> (rpc_error + 'resp)" where
  "unary dial call c to req =
     (case peer dial c to of Inl e \<Rightarrow> (c, Inl e) | Inr c' \<Rightarrow> (c', call to req))"

definition transport_Close :: "TransportClient \<Rightarrow> TransportClient" where
  "transport_Close c = c\<lparr>tc_conns := []\<rparr>"

definition snapshotChunkSize :: nat where
  "snapshotChunkSize = 2 ^ 20"

record Chunk =
  ck_header :: "InstallSnapshotRequest option"
  ck_data :: bytes

lemma snapshotChunkSize_pos [simp]: "0 < snapshotChunkSize"
  by (simp add: snapshotChunkSize_def)

text \<open>The loop over the data.\<close>

function data_chunks :: "bytes \<Rightarrow> Chunk list" where
  "data_chunks dat =
     (if dat = [] then []
      else let n = min (length dat) snapshotChunkSize in
        \<lparr>ck_header = None, ck_data = take n dat\<rparr> # data_chunks (drop n dat))"
  by pat_completeness auto
termination
  by (relation "measure length") auto

declare data_chunks.simps [simp del]

definition snapshot_chunks :: "InstallSnapshotRequest \<Rightarrow> Chunk list" where
  "snapshot_chunks req =
     \<lparr>ck_header = Some (req\<lparr>is_data := []\<rparr>), ck_data = []\<rparr> # data_chunks (is_data req)"

text \<open>\<open>InstallSnapshot\<close> of the client; \<open>broken\<close> is the number of the \<open>Send\<close> that fails, if any.
  The first component is what the receiver gets.\<close>

datatype recv = RChunk Chunk | REOF | RError

definition client_InstallSnapshot :: "nat option \<Rightarrow> InstallSnapshotRequest \<Rightarrow> recv list \<times> bool" where
  "client_InstallSnapshot broken req =
     (let cs = snapshot_chunks req in
      case broken of
        None \<Rightarrow> (map RChunk cs @ [REOF], True)
      | Some k \<Rightarrow> if k < length cs then (map RChunk (take k cs) @ [RError], False)
                  else (map RChunk cs @ [REOF], True))"

section \<open>The server\<close>

text \<open>The receiving loop of \<open>InstallSnapshot\<close>; a stream that stops without an end or an error is
  an error.\<close>

fun recv_snapshot :: "InstallSnapshotRequest option \<Rightarrow> recv list \<Rightarrow> rpc_error + InstallSnapshotRequest" where
  "recv_snapshot req [] = Inl StreamError"
| "recv_snapshot req (REOF # rs) =
     (case req of None \<Rightarrow> Inl (InvalidArgument ''empty snapshot stream'') | Some q \<Rightarrow> Inr q)"
| "recv_snapshot req (RError # rs) = Inl StreamError"
| "recv_snapshot req (RChunk c # rs) =
     (case (case ck_header c of Some h \<Rightarrow> Some h | None \<Rightarrow> req) of
        None \<Rightarrow> Inl (InvalidArgument ''snapshot stream did not start with a header'')
      | Some q \<Rightarrow> recv_snapshot (Some (q\<lparr>is_data := is_data q @ ck_data c\<rparr>)) rs)"

text \<open>\<open>handler\<close> and the call of the handler it returns; \<open>Resolve\<close> is \<open>Node.Handler\<close>.\<close>

definition serve_group :: "Node \<Rightarrow> nat \<Rightarrow> (replica \<Rightarrow> go_error + (replica \<times> 'resp)) \<Rightarrow> rpc_error + (Node \<times> 'resp)" where
  "serve_group n g h =
     (case node_Handler n g of
        None \<Rightarrow> Inl (NotHosted g)
      | Some r \<Rightarrow> (case h r of Inl e \<Rightarrow> Inl (HandlerPanic e) | Inr (r', resp) \<Rightarrow> Inr (set_raft n g r', resp)))"

definition srv_RequestVote where
  "srv_RequestVote env n req = serve_group n (rv_group req) (\<lambda>r. HandleRequestVote env r req)"

definition srv_AppendEntries where
  "srv_AppendEntries env n req = serve_group n (ae_group req) (\<lambda>r. HandleAppendEntries env r req)"

definition srv_TimeoutNow where
  "srv_TimeoutNow n req = serve_group n (tn_group req) (\<lambda>r. Inr (HandleTimeoutNow r req))"

definition srv_InstallSnapshot ::
  "Env \<Rightarrow> Node \<Rightarrow> recv list \<Rightarrow> rpc_error + (Node \<times> InstallSnapshotResponse)" where
  "srv_InstallSnapshot env n rs =
     bind_res (recv_snapshot None rs) (\<lambda>req.
       serve_group n (is_group req) (\<lambda>r. HandleInstallSnapshot env r req))"

section \<open>Properties\<close>

lemma data_chunks_unfold:
  "dat \<noteq> [] \<Longrightarrow> data_chunks dat =
     \<lparr>ck_header = None, ck_data = take snapshotChunkSize dat\<rparr> # data_chunks (drop snapshotChunkSize dat)"
  by (subst data_chunks.simps) (simp add: Let_def min_def)

lemma recv_data:
  "recv_snapshot (Some q) (map RChunk (data_chunks dat) @ rs) =
     recv_snapshot (Some (q\<lparr>is_data := is_data q @ dat\<rparr>)) rs"
proof (induction dat arbitrary: q rule: data_chunks.induct)
  case (1 dat)
  show ?case
  proof (cases "dat = []")
    case True
    then show ?thesis by (simp add: data_chunks.simps [of "[]"])
  next
    case False
    let ?n = "min (length dat) snapshotChunkSize"
    have d: "data_chunks dat = \<lparr>ck_header = None, ck_data = take ?n dat\<rparr> # data_chunks (drop ?n dat)"
      using False by (subst data_chunks.simps) (simp add: Let_def)
    show ?thesis using "1.IH" [OF False refl, of "q\<lparr>is_data := is_data q @ take ?n dat\<rparr>"] by (simp add: d)
  qed
qed

lemma recv_prefix_error: "\<exists>e. recv_snapshot req (map RChunk cs @ [RError]) = Inl e"
  by (induction cs arbitrary: req) (auto split: option.splits)

lemma data_chunks_sizes:
  "(\<forall>c \<in> set (data_chunks dat). 0 < length (ck_data c) \<and> length (ck_data c) \<le> snapshotChunkSize) \<and>
   length (data_chunks dat) = (length dat + snapshotChunkSize - 1) div snapshotChunkSize"
proof (induction dat rule: data_chunks.induct)
  case (1 dat)
  show ?case
  proof (cases "dat = []")
    case True
    then show ?thesis by (simp add: data_chunks.simps [of "[]"])
  next
    case False
    let ?n = "min (length dat) snapshotChunkSize"
    have d: "data_chunks dat = \<lparr>ck_header = None, ck_data = take ?n dat\<rparr> # data_chunks (drop ?n dat)"
      using False by (subst data_chunks.simps) (simp add: Let_def)
    have "Suc ((length dat - ?n + snapshotChunkSize - 1) div snapshotChunkSize) =
        (length dat + snapshotChunkSize - 1) div snapshotChunkSize"
    proof (cases "snapshotChunkSize \<le> length dat")
      case True
      then have "length dat + snapshotChunkSize - 1 = (length dat - ?n + snapshotChunkSize - 1) + snapshotChunkSize"
        using snapshotChunkSize_pos by linarith
      then show ?thesis by (metis add_Suc_right add.right_neutral div_add_self2 snapshotChunkSize_pos less_numeral_extra(3) One_nat_def Suc_eq_plus1)
    next
      case small: False
      have "(length dat + snapshotChunkSize - 1) div snapshotChunkSize = 1"
        using small False by (intro div_nat_eqI) (auto simp: neq_Nil_conv)
      then show ?thesis using small snapshotChunkSize_pos by simp
    qed
    then show ?thesis using "1.IH" [OF False refl] d False by auto
  qed
qed

text \<open>C23. A snapshot that is sent in pieces arrives as it was: the receiving node does exactly what
  its replica does with the original request. If the stream breaks anywhere before its end,
  nothing is installed and the node does not change.\<close>

theorem snapshot_transfer:
  "srv_InstallSnapshot env n (fst (client_InstallSnapshot None req)) =
     serve_group n (is_group req) (\<lambda>r. HandleInstallSnapshot env r req) \<and>
   (k < length (snapshot_chunks req) \<longrightarrow>
     (\<exists>e. srv_InstallSnapshot env n (fst (client_InstallSnapshot (Some k) req)) = Inl e))"
proof -
  have "recv_snapshot None (map RChunk (snapshot_chunks req) @ [REOF]) = Inr req"
    by (simp add: snapshot_chunks_def recv_data)
  moreover have "\<exists>e. recv_snapshot None (map RChunk (take k (snapshot_chunks req)) @ [RError]) = Inl e"
    by (rule recv_prefix_error)
  ultimately show ?thesis by (auto simp: client_InstallSnapshot_def srv_InstallSnapshot_def Let_def)
qed

text \<open>The loop that cuts the data ends; it sends the least number of pieces, none of them empty
  and none larger than the chunk size.\<close>

theorem snapshot_chunk_sizes:
  "length (snapshot_chunks req) = 1 + (length (is_data req) + snapshotChunkSize - 1) div snapshotChunkSize \<and>
   list_all (\<lambda>c. 0 < length (ck_data c) \<and> length (ck_data c) \<le> snapshotChunkSize) (tl (snapshot_chunks req))"
  using data_chunks_sizes [of "is_data req"] by (simp add: snapshot_chunks_def list_all_iff)

section \<open>Witness\<close>

definition ex_install :: InstallSnapshotRequest where
  "ex_install = \<lparr>is_group = 2, is_term = 3, is_leaderId = ''a'', is_lastIncludedIndex = 9, is_lastIncludedTerm = 2,
     is_data = [1, 2, 3]\<rparr>"

theorem snapshot_transfer_witness:
  "\<exists>n e. ex_start_node [''a'', ''b''] = Inr n \<and>
     srv_InstallSnapshot \<lparr>now = 5, rnd = 1\<rparr> n (fst (client_InstallSnapshot None ex_install)) =
       serve_group n 2 (\<lambda>r. HandleInstallSnapshot \<lparr>now = 5, rnd = 1\<rparr> r ex_install) \<and>
     srv_InstallSnapshot \<lparr>now = 5, rnd = 1\<rparr> n (fst (client_InstallSnapshot (Some 1) ex_install)) = Inl e"
proof -
  obtain n where n: "ex_start_node [''a'', ''b''] = Inr n" using ex_node [of "[''a'', ''b'']"] by force
  have "1 < length (snapshot_chunks ex_install)"
    by (simp add: snapshot_chunks_def ex_install_def data_chunks_unfold)
  moreover have "is_group ex_install = 2" by (simp add: ex_install_def)
  ultimately show ?thesis using snapshot_transfer [of "\<lparr>now = 5, rnd = 1\<rparr>" n ex_install 1] n by auto
qed

end
