(* ===== verification/EK_Strings.thy ===== *)
theory EK_Strings
  imports EK_Prelude
begin

text \<open>
  What the programs use of the Go packages \<open>strings\<close>, \<open>strconv\<close>, \<open>net/url\<close> and of
  \<open>http.Header\<close>. A Go string is a list of bytes, here of characters. Separators are single
  characters, as in every call. \<open>TrimSpace\<close> removes the ASCII spaces; the other spaces of
  Unicode are not modelled.
\<close>

section \<open>Package strings\<close>

fun str_Split :: "char \<Rightarrow> string \<Rightarrow> string list" where
  "str_Split c [] = [[]]"
| "str_Split c (x # xs) =
     (if x = c then [] # str_Split c xs
      else case str_Split c xs of [] \<Rightarrow> [[x]] | y # ys \<Rightarrow> (x # y) # ys)"

text \<open>\<open>strings.Cut\<close>: \<open>None\<close> when the separator does not occur.\<close>

fun str_Cut :: "char \<Rightarrow> string \<Rightarrow> (string \<times> string) option" where
  "str_Cut c [] = None"
| "str_Cut c (x # xs) =
     (if x = c then Some ([], xs) else map_option (\<lambda>(a, b). (x # a, b)) (str_Cut c xs))"

definition HasPrefix :: "string \<Rightarrow> string \<Rightarrow> bool" where
  "HasPrefix s p \<longleftrightarrow> take (length p) s = p"

definition CutPrefix :: "string \<Rightarrow> string \<Rightarrow> string option" where
  "CutPrefix s p = (if HasPrefix s p then Some (drop (length p) s) else None)"

fun str_Contains :: "string \<Rightarrow> string \<Rightarrow> bool" where
  "str_Contains [] p = HasPrefix [] p"
| "str_Contains (x # xs) p = (HasPrefix (x # xs) p \<or> str_Contains xs p)"

definition is_space :: "char \<Rightarrow> bool" where
  "is_space c \<longleftrightarrow> (of_char c :: nat) \<in> {9, 10, 11, 12, 13, 32}"

definition trim_right :: "(char \<Rightarrow> bool) \<Rightarrow> string \<Rightarrow> string" where
  "trim_right P s = rev (dropWhile P (rev s))"

definition TrimSpace :: "string \<Rightarrow> string" where
  "TrimSpace s = trim_right is_space (dropWhile is_space s)"

section \<open>Package strconv\<close>

definition digit :: "nat \<Rightarrow> char" where
  "digit d = char_of (48 + d)"

fun FormatUint :: "nat \<Rightarrow> string" where
  "FormatUint n = (if n < 10 then [digit n] else FormatUint (n div 10) @ [digit (n mod 10)])"

declare FormatUint.simps [simp del]

definition is_digit :: "char \<Rightarrow> bool" where
  "is_digit c \<longleftrightarrow> 48 \<le> (of_char c :: nat) \<and> (of_char c :: nat) \<le> 57"

definition digits_val :: "string \<Rightarrow> nat" where
  "digits_val s = foldl (\<lambda>n c. 10 * n + (of_char c - 48)) 0 s"

text \<open>\<open>strconv.ParseUint(s, 10, bits)\<close>: \<open>None\<close> is any error.\<close>

definition ParseUint :: "nat \<Rightarrow> string \<Rightarrow> nat option" where
  "ParseUint bits s =
     (if s = [] \<or> \<not> list_all is_digit s then None
      else if digits_val s < 2 ^ bits then Some (digits_val s) else None)"

text \<open>\<open>strconv.Atoi\<close> on a 64-bit machine.\<close>

definition Atoi :: "string \<Rightarrow> int option" where
  "Atoi s =
     (let neg = (s \<noteq> [] \<and> hd s = CHR ''-'');
          t = (if s \<noteq> [] \<and> (hd s = CHR ''-'' \<or> hd s = CHR ''+'') then tl s else s)
      in if t = [] \<or> \<not> list_all is_digit t then None
         else let n = int (digits_val t); v = (if neg then - n else n) in
           if - (2 ^ 63) \<le> v \<and> v < 2 ^ 63 then Some v else None)"

section \<open>Package net/url\<close>

definition hex_digit :: "nat \<Rightarrow> char" where
  "hex_digit d = (if d < 10 then char_of (48 + d) else char_of (55 + d))"

text \<open>The characters that \<open>url.PathEscape\<close> leaves alone: letters, digits and
  \<open>- _ . ~ $ & + : = @\<close>.\<close>

definition path_plain :: "char \<Rightarrow> bool" where
  "path_plain c \<longleftrightarrow> (let n = (of_char c :: nat) in
     (97 \<le> n \<and> n \<le> 122) \<or> (65 \<le> n \<and> n \<le> 90) \<or> is_digit c \<or>
     c \<in> set ''-_.~$&+:=@'')"

definition PathEscape :: "string \<Rightarrow> string" where
  "PathEscape s = concat (map (\<lambda>c. if path_plain c then [c]
     else [CHR ''%'', hex_digit (of_char c div 16), hex_digit (of_char c mod 16)]) s)"

definition is_hex :: "char \<Rightarrow> bool" where
  "is_hex c \<longleftrightarrow> (let n = (of_char c :: nat) in is_digit c \<or> (97 \<le> n \<and> n \<le> 102) \<or> (65 \<le> n \<and> n \<le> 70))"

definition hex_val :: "char \<Rightarrow> nat" where
  "hex_val c = (let n = of_char c in if is_digit c then n - 48 else if 97 \<le> n then n - 87 else n - 55)"

text \<open>\<open>url.PathUnescape\<close>, and \<open>url.QueryUnescape\<close> with \<open>sp\<close>.\<close>

fun unescape :: "bool \<Rightarrow> string \<Rightarrow> string option" where
  "unescape sp [] = Some []"
| "unescape sp (c # cs) =
     (if c = CHR ''%''
      then case cs of
          h # l # rest \<Rightarrow>
            if is_hex h \<and> is_hex l then map_option ((#) (char_of (16 * hex_val h + hex_val l))) (unescape sp rest)
            else None
        | _ \<Rightarrow> None
      else map_option ((#) (if sp \<and> c = CHR ''+'' then CHR '' '' else c)) (unescape sp cs))"

text \<open>A request URI is a path and a query; \<open>ParseQuery\<close> gives the first value of each parameter
  and skips what it cannot parse.\<close>

definition uri_parts :: "string \<Rightarrow> string \<times> string" where
  "uri_parts u = (case str_Cut CHR ''?'' u of None \<Rightarrow> (u, []) | Some pq \<Rightarrow> pq)"

definition query_part :: "(string \<rightharpoonup> string) \<Rightarrow> string \<Rightarrow> (string \<rightharpoonup> string)" where
  "query_part m part =
     (if part = [] \<or> CHR '';'' \<in> set part then m
      else let (k, v) = (case str_Cut CHR ''='' part of None \<Rightarrow> (part, []) | Some kv \<Rightarrow> kv) in
        case (unescape True k, unescape True v) of
          (Some k', Some v') \<Rightarrow> if m k' \<noteq> None then m else m(k' \<mapsto> v')
        | _ \<Rightarrow> m)"

definition ParseQuery :: "string \<Rightarrow> (string \<rightharpoonup> string)" where
  "ParseQuery q = foldl query_part Map.empty (str_Split CHR ''&'' q)"

section \<open>Headers\<close>

text \<open>An \<open>http.Header\<close> maps canonical names to the list of their values.\<close>

type_synonym header = "string \<rightharpoonup> string list"

fun canon_aux :: "bool \<Rightarrow> string \<Rightarrow> string" where
  "canon_aux upper [] = []"
| "canon_aux upper (c # cs) =
     (let n = (of_char c :: nat);
          d = (if upper \<and> 97 \<le> n \<and> n \<le> 122 then char_of (n - 32)
               else if \<not> upper \<and> 65 \<le> n \<and> n \<le> 90 then char_of (n + 32) else c)
      in d # canon_aux (d = CHR ''-'') cs)"

definition CanonicalHeaderKey :: "string \<Rightarrow> string" where
  "CanonicalHeaderKey k = canon_aux True k"

definition hdr_Get :: "header \<Rightarrow> string \<Rightarrow> string" where
  "hdr_Get h k = (case h (CanonicalHeaderKey k) of Some (v # vs) \<Rightarrow> v | _ \<Rightarrow> [])"

definition hdr_Set :: "header \<Rightarrow> string \<Rightarrow> string \<Rightarrow> header" where
  "hdr_Set h k v = h(CanonicalHeaderKey k \<mapsto> [v])"

definition hdr_Del :: "header \<Rightarrow> string \<Rightarrow> header" where
  "hdr_Del h k = h(CanonicalHeaderKey k := None)"

section \<open>Laws\<close>

lemma hdr_Get_empty [simp]: "hdr_Get Map.empty k = []"
  by (simp add: hdr_Get_def)

lemma hdr_Get_Set:
  "hdr_Get (hdr_Set h k v) k' = (if CanonicalHeaderKey k' = CanonicalHeaderKey k then v else hdr_Get h k')"
  by (simp add: hdr_Get_def hdr_Set_def)

lemma hdr_Get_Del:
  "hdr_Get (hdr_Del h k) k' = (if CanonicalHeaderKey k' = CanonicalHeaderKey k then [] else hdr_Get h k')"
  by (simp add: hdr_Get_def hdr_Del_def)

lemma HasPrefix_append [simp]: "HasPrefix (p @ s) p"
  by (simp add: HasPrefix_def)

lemma HasPrefixE: "HasPrefix s p \<Longrightarrow> (\<And>t. s = p @ t \<Longrightarrow> P) \<Longrightarrow> P"
  unfolding HasPrefix_def by (metis append_take_drop_id)

lemma HasPrefix_iff: "HasPrefix s p \<longleftrightarrow> (\<exists>t. s = p @ t)"
  by (auto elim: HasPrefixE)

lemma of_char_digit [simp]: "d < 10 \<Longrightarrow> (of_char (digit d) :: nat) = 48 + d"
  by (simp add: digit_def)

lemma is_digit_digit [simp]: "d < 10 \<Longrightarrow> is_digit (digit d)"
  by (simp add: is_digit_def)

lemma digits_val_snoc: "digits_val (s @ [c]) = 10 * digits_val s + (of_char c - 48)"
  by (simp add: digits_val_def)

lemma FormatUint_digits: "list_all is_digit (FormatUint n) \<and> FormatUint n \<noteq> [] \<and> digits_val (FormatUint n) = n"
proof (induction n rule: FormatUint.induct)
  case (1 n)
  show ?case
  proof (cases "n < 10")
    case True
    then show ?thesis by (subst FormatUint.simps, subst (2) FormatUint.simps, subst (3) FormatUint.simps)
      (simp add: digits_val_def)
  next
    case False
    then have "FormatUint n = FormatUint (n div 10) @ [digit (n mod 10)]"
      by (subst FormatUint.simps) simp
    with 1 [OF False] show ?thesis by (simp add: digits_val_snoc)
  qed
qed

lemma ParseUint_FormatUint: "n < 2 ^ bits \<Longrightarrow> ParseUint bits (FormatUint n) = Some n"
  using FormatUint_digits [of n] by (simp add: ParseUint_def)

lemma FormatUint_inj: "FormatUint m = FormatUint n \<Longrightarrow> m = n"
  using FormatUint_digits by metis

lemma is_digit_plain: "is_digit c \<Longrightarrow> c \<noteq> CHR '','' \<and> \<not> is_space c \<and> c \<noteq> CHR ''-'' \<and> c \<noteq> CHR ''+''"
  by (auto simp: is_digit_def is_space_def)

lemma hd_digit: "list_all is_digit s \<Longrightarrow> s \<noteq> [] \<Longrightarrow> is_digit (hd s) \<and> is_digit (last s)"
  by (simp add: list_all_iff)

lemma Atoi_FormatUint: "n < 2 ^ 63 \<Longrightarrow> Atoi (FormatUint n) = Some (int n)"
  using FormatUint_digits [of n] hd_digit [of "FormatUint n"] is_digit_plain [of "hd (FormatUint n)"]
  by (auto simp: Atoi_def Let_def)

lemma str_Split_nonempty [simp]: "str_Split c s \<noteq> []"
  by (cases s) (auto split: list.splits)

lemma str_Split_plain: "c \<notin> set s \<Longrightarrow> str_Split c s = [s]"
  by (induction s) auto

lemma str_Split_append: "c \<notin> set s \<Longrightarrow> str_Split c (s @ c # t) = s # str_Split c t"
  by (induction s) auto

lemma str_Cut_append: "c \<notin> set s \<Longrightarrow> str_Cut c (s @ c # t) = Some (s, t)"
  by (induction s) auto

lemma str_Cut_None: "str_Cut c s = None \<longleftrightarrow> c \<notin> set s"
  by (induction s) auto

lemma trim_right_id: "s = [] \<or> \<not> P (last s) \<Longrightarrow> trim_right P s = s"
  by (cases s rule: rev_cases) (auto simp: trim_right_def)

lemma TrimSpace_id: "s = [] \<or> \<not> is_space (hd s) \<and> \<not> is_space (last s) \<Longrightarrow> TrimSpace s = s"
  by (cases s) (auto simp: TrimSpace_def intro!: trim_right_id)

lemma TrimSpace_space: "TrimSpace (CHR '' '' # s) = TrimSpace s"
  by (simp add: TrimSpace_def is_space_def)

lemma hex_digit_val:
  assumes "d < 16"
  shows "is_hex (hex_digit d)" "hex_val (hex_digit d) = d"
proof -
  have "(of_char (hex_digit d) :: nat) = (if d < 10 then 48 + d else 55 + d)"
    using assms by (simp add: hex_digit_def)
  then show "is_hex (hex_digit d)" "hex_val (hex_digit d) = d"
    using assms by (auto simp: is_hex_def hex_val_def is_digit_def Let_def)
qed

lemma path_plain_percent [simp]: "\<not> path_plain CHR ''%''" "\<not> path_plain CHR ''/''" "\<not> path_plain CHR ''?''"
  by code_simp+

lemma unescape_PathEscape: "unescape False (PathEscape s) = Some s"
proof (induction s)
  case Nil
  then show ?case by (simp add: PathEscape_def)
next
  case (Cons c s)
  have "16 * (of_char c div 16) + of_char c mod 16 = (of_char c :: nat)" by simp
  then have "char_of (16 * (of_char c div 16 :: nat) + of_char c mod 16) = c" by simp
  moreover have "of_char c div 16 < (16 :: nat)" "of_char c mod 16 < (16 :: nat)"
    using nat_of_char_less_256 [of c] by linarith+
  ultimately show ?case
    using Cons hex_digit_val [of "of_char c div 16"] hex_digit_val [of "of_char c mod 16"]
    by (auto simp: PathEscape_def)
qed

end
