(* ===== verification/EK_Server.thy ===== *)
theory EK_Server
  imports EK_Store EK_Shard EK_Strings
begin

text \<open>
  Package \<open>internal/server\<close>: the HTTP gateway of a node. A handler is a function from the
  request to what it does: the response, the commands it hands to the node, the paths it
  enqueues for invalidation and the requests it forwards to the leader (\<open>Served\<close>).

  The node is the argument \<open>bk\<close>: what \<open>Node.Write\<close> and \<open>Node.Get\<close> return for this request,
  and the shard of a key. \<open>http.Client.Do\<close> is the argument \<open>do\<close>, and \<open>newID\<close> is the random
  identifier that \<open>newRequestID\<close> draws. A message body is the JSON value that its text denotes;
  the human-readable \<open>detail\<close> of an error is left out. Metrics, logging and the cleaning of
  paths by \<open>http.ServeMux\<close> are left out.
\<close>

section \<open>Messages\<close>

text \<open>\<open>JFrac\<close> is a number that is not written as an integer.\<close>

datatype json = JNull | JBool bool | JInt int | JFrac | JStr string | JList "json list"
  | JObj "(string \<times> json) list"

text \<open>A request body: its length, and its value if it is JSON.\<close>

record http_body =
  bd_length :: nat
  bd_json :: "json option"

record HttpRequest =
  rq_method :: string
  rq_path :: string \<comment> \<open>decoded\<close>
  rq_uri :: string \<comment> \<open>the path as it was sent, with the query\<close>
  rq_query :: "string \<rightharpoonup> string" \<comment> \<open>the first value of each parameter\<close>
  rq_header :: header
  rq_body :: http_body

record HttpResponse =
  hr_code :: nat
  hr_header :: header
  hr_body :: "json option"

definition empty_body :: http_body where
  "empty_body = \<lparr>bd_length = 0, bd_json = None\<rparr>"

definition query_Get :: "HttpRequest \<Rightarrow> string \<Rightarrow> string" where
  "query_Get r k = get0 (rq_query r) [] k"

text \<open>\<open>http.Client.Do\<close>: the URL may be malformed, the exchange may fail.\<close>

datatype do_result = DoBadURL | DoFailed | DoResp HttpResponse

section \<open>Configuration\<close>

record ServerConfig =
  sc_NodeID :: node_id
  sc_PeerHTTP :: "node_id \<rightharpoonup> string"
  sc_CacheableNamespaces :: "string list"
  sc_DefaultTTLSeconds :: u32
  sc_MaxTTLSeconds :: u32
  sc_Invalidations :: bool \<comment> \<open>a queue is configured\<close>

definition server_New :: "ServerConfig \<Rightarrow> ServerConfig" where
  "server_New c =
     (let c = (if sc_DefaultTTLSeconds c = 0 then c\<lparr>sc_DefaultTTLSeconds := 30\<rparr> else c)
      in if sc_MaxTTLSeconds c = 0 then c\<lparr>sc_MaxTTLSeconds := 300\<rparr> else c)"

record Backend =
  bk_Write :: "Command \<Rightarrow> go_error + Result"
  bk_Get :: "string \<Rightarrow> go_error + StoreEntry"
  bk_Shard :: "string \<Rightarrow> nat"

record Served =
  sv_resp :: HttpResponse
  sv_commands :: "Command list"
  sv_enqueued :: "string list"
  sv_forwards :: "(string \<times> HttpRequest) list"

definition respond :: "HttpResponse \<Rightarrow> Served" where
  "respond resp = \<lparr>sv_resp = resp, sv_commands = [], sv_enqueued = [], sv_forwards = []\<rparr>"

section \<open>Helpers\<close>

definition maxBodyBytes :: nat where "maxBodyBytes = 2 ^ 20"

definition headerForwarded :: string where "headerForwarded = ''X-Edgekv-Forwarded''"
definition headerNoForward :: string where "headerNoForward = ''X-Edgekv-No-Forward''"
definition headerRequestID :: string where "headerRequestID = ''X-Request-Id''"
definition headerVersion :: string where "headerVersion = ''X-Edgekv-Version''"
definition headerServedBy :: string where "headerServedBy = ''X-Edgekv-Served-By''"
definition headerShard :: string where "headerShard = ''X-Edgekv-Shard''"

definition namespaceCacheable :: "ServerConfig \<Rightarrow> string \<Rightarrow> bool" where
  "namespaceCacheable cfg key = list_ex (\<lambda>p. HasPrefix key p) (sc_CacheableNamespaces cfg)"

definition value_string :: "bytes \<Rightarrow> string" where
  "value_string bs = map (\<lambda>b. char_of (unat b)) bs"

definition etag :: "u64 \<Rightarrow> string" where
  "etag version = [CHR 0x22, CHR ''v''] @ FormatUint (unat version) @ [CHR 0x22]"

fun firstNonEmpty :: "string list \<Rightarrow> string" where
  "firstNonEmpty [] = []"
| "firstNonEmpty (v # vs) = (if v \<noteq> [] then v else firstNonEmpty vs)"

definition writeJSON :: "header \<Rightarrow> nat \<Rightarrow> json \<Rightarrow> HttpResponse" where
  "writeJSON h code v =
     \<lparr>hr_code = code, hr_header = hdr_Set h ''Content-Type'' ''application/json'', hr_body = Some v\<rparr>"

definition writeError :: "header \<Rightarrow> nat \<Rightarrow> string \<Rightarrow> HttpResponse" where
  "writeError h code kind = writeJSON h code (JObj [(''error'', JStr kind)])"

section \<open>Times\<close>

text \<open>The civil date of a number of days since 1 January 1970 (proleptic Gregorian calendar).\<close>

definition civil :: "int \<Rightarrow> int \<times> int \<times> int" where
  "civil days =
     (let z = days + 719468; era = z div 146097; doe = z mod 146097;
          yoe = (doe - doe div 1460 + doe div 36524 - doe div 146096) div 365;
          doy = doe - (365 * yoe + yoe div 4 - yoe div 100);
          mp = (5 * doy + 2) div 153;
          d = doy - (153 * mp + 2) div 5 + 1;
          m = (if mp < 10 then mp + 3 else mp - 9)
      in (yoe + era * 400 + (if m \<le> 2 then 1 else 0), m, d))"

definition pad :: "nat \<Rightarrow> int \<Rightarrow> string" where
  "pad w n = (let s = FormatUint (nat n) in replicate (w - length s) CHR ''0'' @ s)"

definition clock :: "int \<Rightarrow> string" where
  "clock sec = (let s = sec mod 86400 in
     pad 2 (s div 3600) @ '':'' @ pad 2 (s div 60 mod 60) @ '':'' @ pad 2 (s mod 60))"

text \<open>\<open>time.UnixMilli(ms).UTC()\<close> in the formats \<open>time.RFC3339Nano\<close> and \<open>http.TimeFormat\<close>.\<close>

definition rfc3339 :: "u64 \<Rightarrow> string" where
  "rfc3339 t =
     (let ms = sint t; sec = ms div 1000; (y, m, d) = civil (sec div 86400); frac = ms mod 1000
      in pad 4 y @ ''-'' @ pad 2 m @ ''-'' @ pad 2 d @ ''T'' @ clock sec @
         (if frac = 0 then [] else CHR ''.'' # trim_right (\<lambda>c. c = CHR ''0'') (pad 3 frac)) @ ''Z'')"

definition http_time :: "u64 \<Rightarrow> string" where
  "http_time t =
     (let sec = sint t div 1000; day = sec div 86400; (y, m, d) = civil day
      in [''Sun'', ''Mon'', ''Tue'', ''Wed'', ''Thu'', ''Fri'', ''Sat''] ! nat ((day + 4) mod 7) @ '', '' @
         pad 2 d @ '' '' @ [''Jan'', ''Feb'', ''Mar'', ''Apr'', ''May'', ''Jun'', ''Jul'', ''Aug'', ''Sep'',
           ''Oct'', ''Nov'', ''Dec''] ! nat (m - 1) @ '' '' @ pad 4 y @ '' '' @ clock sec @ '' GMT'')"

definition toReadResponse :: "string \<Rightarrow> StoreEntry \<Rightarrow> json" where
  "toReadResponse key e =
     JObj [(''key'', JStr key), (''value'', JStr (value_string (en_Value e))),
           (''version'', JInt (uint (en_Version e))), (''updated_at'', JStr (rfc3339 (en_UpdatedUnixMs e)))]"

section \<open>Decoding a PUT body\<close>

record cache_policy =
  cp_Cacheable :: bool
  cp_TTLSeconds :: u32

record putRequest =
  pr_RequestID :: string
  pr_Value :: string
  pr_CachePolicy :: "cache_policy option"

definition lower :: "char \<Rightarrow> char" where
  "lower c = (let n = (of_char c :: nat) in if 65 \<le> n \<and> n \<le> 90 then char_of (n + 32) else c)"

text \<open>\<open>encoding/json\<close> matches field names without regard to case.\<close>

definition field_is :: "string \<Rightarrow> string \<Rightarrow> bool" where
  "field_is k name \<longleftrightarrow> map lower k = map lower name"

text \<open>Storing a value into a field; \<open>True\<close>: the types do not match and the field stays. A
  \<open>null\<close> leaves the field alone.\<close>

definition store_string :: "json \<Rightarrow> string \<Rightarrow> string \<times> bool" where
  "store_string j old = (case j of JStr s \<Rightarrow> (s, False) | JNull \<Rightarrow> (old, False) | _ \<Rightarrow> (old, True))"

definition store_bool :: "json \<Rightarrow> bool \<Rightarrow> bool \<times> bool" where
  "store_bool j old = (case j of JBool b \<Rightarrow> (b, False) | JNull \<Rightarrow> (old, False) | _ \<Rightarrow> (old, True))"

definition store_u32 :: "json \<Rightarrow> u32 \<Rightarrow> u32 \<times> bool" where
  "store_u32 j old =
     (case j of JInt n \<Rightarrow> if 0 \<le> n \<and> n < 2 ^ 32 then (word_of_int n, False) else (old, True)
      | JNull \<Rightarrow> (old, False) | _ \<Rightarrow> (old, True))"

definition policy_field :: "cache_policy \<times> bool \<Rightarrow> string \<times> json \<Rightarrow> cache_policy \<times> bool" where
  "policy_field = (\<lambda>(p, bad) (k, j).
     if field_is k ''cacheable''
     then let (b, e) = store_bool j (cp_Cacheable p) in (p\<lparr>cp_Cacheable := b\<rparr>, bad \<or> e)
     else if field_is k ''ttl_seconds''
     then let (t, e) = store_u32 j (cp_TTLSeconds p) in (p\<lparr>cp_TTLSeconds := t\<rparr>, bad \<or> e)
     else (p, bad))"

definition put_field :: "putRequest \<times> bool \<Rightarrow> string \<times> json \<Rightarrow> putRequest \<times> bool" where
  "put_field = (\<lambda>(r, bad) (k, j).
     if field_is k ''request_id''
     then let (s, e) = store_string j (pr_RequestID r) in (r\<lparr>pr_RequestID := s\<rparr>, bad \<or> e)
     else if field_is k ''value''
     then let (s, e) = store_string j (pr_Value r) in (r\<lparr>pr_Value := s\<rparr>, bad \<or> e)
     else if field_is k ''cache_policy''
     then (case j of
         JNull \<Rightarrow> (r\<lparr>pr_CachePolicy := None\<rparr>, bad)
       | JObj fs \<Rightarrow>
           let old = (case pr_CachePolicy r of None \<Rightarrow> \<lparr>cp_Cacheable = False, cp_TTLSeconds = 0\<rparr> | Some p \<Rightarrow> p);
               (p, e) = foldl policy_field (old, False) fs
           in (r\<lparr>pr_CachePolicy := Some p\<rparr>, bad \<or> e)
       | _ \<Rightarrow> (r, True))
     else (r, bad))"

text \<open>\<open>json.Unmarshal(body, &req)\<close>; \<open>None\<close> is an error.\<close>

definition unmarshal_put :: "http_body \<Rightarrow> putRequest option" where
  "unmarshal_put b =
     (let zero = \<lparr>pr_RequestID = [], pr_Value = [], pr_CachePolicy = None\<rparr> in
      case bd_json b of
        Some (JObj fs) \<Rightarrow> (let (r, bad) = foldl put_field (zero, False) fs in if bad then None else Some r)
      | Some JNull \<Rightarrow> Some zero
      | _ \<Rightarrow> None)"

section \<open>Routing to the leader\<close>

definition unavailable :: "header \<Rightarrow> HttpResponse" where
  "unavailable h = writeJSON (hdr_Set h ''Retry-After'' ''1'') 503
     (JObj [(''error'', JStr ''unavailable''), (''retry_with_same_request_id'', JBool True)])"

text \<open>The request that \<open>forward\<close> builds.\<close>

definition forward_request :: "ServerConfig \<Rightarrow> HttpRequest \<Rightarrow> http_body \<Rightarrow> string \<Rightarrow> HttpRequest" where
  "forward_request cfg r body requestID =
     (let h0 = foldl (\<lambda>h k. if hdr_Get (rq_header r) k \<noteq> [] then hdr_Set h k (hdr_Get (rq_header r) k) else h)
                 Map.empty [''Content-Type'', ''If-None-Match''];
          h1 = hdr_Set h0 headerForwarded (sc_NodeID cfg);
          h2 = (if requestID \<noteq> [] then hdr_Set h1 headerRequestID requestID else h1)
      in r\<lparr>rq_header := h2, rq_body := body\<rparr>)"

definition forward :: "ServerConfig \<Rightarrow> (string \<Rightarrow> HttpRequest \<Rightarrow> do_result) \<Rightarrow> header \<Rightarrow> HttpRequest
    \<Rightarrow> http_body \<Rightarrow> string \<Rightarrow> string \<Rightarrow> Served" where
  "forward cfg do h r body leaderURL requestID =
     (let out = forward_request cfg r body requestID;
          resp = (case do leaderURL out of
                    DoBadURL \<Rightarrow> writeError h 500 ''forward_failed''
                  | DoFailed \<Rightarrow> unavailable h
                  | DoResp resp \<Rightarrow> resp\<lparr>hr_header := h ++ hr_header resp\<rparr>)
      in (respond resp)\<lparr>sv_forwards := [(leaderURL, out)]\<rparr>)"

definition handleRaftError :: "ServerConfig \<Rightarrow> Backend \<Rightarrow> (string \<Rightarrow> HttpRequest \<Rightarrow> do_result) \<Rightarrow> header
    \<Rightarrow> HttpRequest \<Rightarrow> http_body \<Rightarrow> string \<Rightarrow> string \<Rightarrow> go_error \<Rightarrow> Served" where
  "handleRaftError cfg bk do h r body key requestID err =
     (case err of
        NotLeaderError leader \<Rightarrow>
          let leaderURL = get0 (sc_PeerHTTP cfg) [] leader;
              alreadyForwarded = (hdr_Get (rq_header r) headerForwarded \<noteq> []);
              wantsRedirect = (hdr_Get (rq_header r) headerNoForward \<noteq> [])
          in if leaderURL \<noteq> [] \<and> leader \<noteq> sc_NodeID cfg \<and> \<not> alreadyForwarded \<and> \<not> wantsRedirect
             then forward cfg do h r body leaderURL requestID
             else respond (writeJSON (hdr_Set h ''Retry-After'' ''0'') 421
               (JObj [(''error'', JStr ''not_leader''), (''shard'', JInt (int (bk_Shard bk key))),
                      (''leader'', JStr leader), (''leader_url'', JStr leaderURL)]))
      | _ \<Rightarrow> respond (unavailable h))"

section \<open>Writes\<close>

definition write_cmd :: "ServerConfig \<Rightarrow> Backend \<Rightarrow> (string \<Rightarrow> HttpRequest \<Rightarrow> do_result) \<Rightarrow> HttpRequest
    \<Rightarrow> http_body \<Rightarrow> Command \<Rightarrow> Served" where
  "write_cmd cfg bk do r body cmd =
     (case bk_Write bk cmd of
        Inl err \<Rightarrow>
          (handleRaftError cfg bk do Map.empty r body (cmd_key cmd) (cmd_requestId cmd) err)
            \<lparr>sv_commands := [cmd]\<rparr>
      | Inr res \<Rightarrow>
          let h = hdr_Set (hdr_Set Map.empty headerServedBy (sc_NodeID cfg))
                    headerShard (FormatUint (bk_Shard bk (cmd_key cmd)));
              out = (\<lambda>resp enq. (respond resp)\<lparr>sv_commands := [cmd], sv_enqueued := enq\<rparr>)
          in case res_status res of
               STATUS_OK \<Rightarrow>
                 out (writeJSON h 200 (JObj [(''key'', JStr (cmd_key cmd)),
                        (''version'', JInt (uint (res_version res))),
                        (''shard'', JInt (int (bk_Shard bk (cmd_key cmd))))]))
                   (if sc_Invalidations cfg \<and> namespaceCacheable cfg (cmd_key cmd)
                    then [''/v1/cache/'' @ cmd_key cmd] else [])
             | STATUS_VERSION_MISMATCH \<Rightarrow>
                 out (writeJSON h 412 (JObj [(''error'', JStr ''version_mismatch''),
                        (''current_version'', JInt (uint (res_version res)))])) []
             | STATUS_NOT_FOUND \<Rightarrow> out (writeError h 404 ''not_found'') []
             | STATUS_OTHER _ \<Rightarrow> out \<lparr>hr_code = 200, hr_header = h, hr_body = None\<rparr> [])"

text \<open>The cache policy of a PUT: the TTL, or \<open>None\<close> for a refusal. \<open>Some None\<close>: not cacheable.\<close>

definition put_ttl :: "ServerConfig \<Rightarrow> string \<Rightarrow> cache_policy option \<Rightarrow> u32 option option" where
  "put_ttl cfg key pol =
     (case pol of
        Some p \<Rightarrow>
          if cp_Cacheable p
          then if \<not> namespaceCacheable cfg key then None
               else Some (Some (if cp_TTLSeconds p = 0 then sc_DefaultTTLSeconds cfg
                                else min (max (cp_TTLSeconds p) 1) (sc_MaxTTLSeconds cfg)))
          else Some None
      | None \<Rightarrow> Some None)"

text \<open>The command of a PUT, or the refusal.\<close>

definition put_command :: "ServerConfig \<Rightarrow> string \<Rightarrow> string \<Rightarrow> HttpRequest \<Rightarrow> HttpResponse + Command" where
  "put_command cfg newID key r =
     (if bd_length (rq_body r) > maxBodyBytes then Inl (writeError Map.empty 413 ''body_too_large'')
      else case unmarshal_put (rq_body r) of
        None \<Rightarrow> Inl (writeError Map.empty 400 ''bad_json'')
      | Some req \<Rightarrow>
          let cmd = zero_command\<lparr>cmd_op := OP_PUT, cmd_key := key, cmd_value := key_bytes (pr_Value req),
                cmd_requestId := firstNonEmpty [pr_RequestID req, hdr_Get (rq_header r) headerRequestID, newID]\<rparr>;
              ev = query_Get r ''expectedVersion''
          in if ev \<noteq> [] \<and> ParseUint 64 ev = None
             then Inl (writeError Map.empty 400 ''bad_expected_version'')
             else
               let cmd1 = (if ev \<noteq> [] then cmd\<lparr>cmd_hasExpectedVersion := True,
                             cmd_expectedVersion := of_nat (the (ParseUint 64 ev))\<rparr> else cmd)
               in case put_ttl cfg key (pr_CachePolicy req) of
                    None \<Rightarrow> Inl (writeError Map.empty 400 ''namespace_not_cacheable'')
                  | Some None \<Rightarrow> Inr cmd1
                  | Some (Some ttl) \<Rightarrow> Inr (cmd1\<lparr>cmd_cacheable := True, cmd_ttlSeconds := ttl\<rparr>))"

definition handlePut :: "ServerConfig \<Rightarrow> Backend \<Rightarrow> (string \<Rightarrow> HttpRequest \<Rightarrow> do_result) \<Rightarrow> string
    \<Rightarrow> string \<Rightarrow> HttpRequest \<Rightarrow> Served" where
  "handlePut cfg bk do newID key r =
     (case put_command cfg newID key r of
        Inl refusal \<Rightarrow> respond refusal
      | Inr cmd \<Rightarrow> write_cmd cfg bk do r (rq_body r) cmd)"

definition delete_command :: "string \<Rightarrow> string \<Rightarrow> HttpRequest \<Rightarrow> Command" where
  "delete_command newID key r = zero_command\<lparr>cmd_op := OP_DELETE, cmd_key := key,
     cmd_requestId := firstNonEmpty [query_Get r ''request_id'', hdr_Get (rq_header r) headerRequestID, newID]\<rparr>"

definition handleDelete :: "ServerConfig \<Rightarrow> Backend \<Rightarrow> (string \<Rightarrow> HttpRequest \<Rightarrow> do_result) \<Rightarrow> string
    \<Rightarrow> string \<Rightarrow> HttpRequest \<Rightarrow> Served" where
  "handleDelete cfg bk do newID key r =
     write_cmd cfg bk do r empty_body (delete_command newID key r)"

section \<open>Reads\<close>

text \<open>\<open>read\<close>: the entry and the header so far, or what has been served already.\<close>

definition read_entry :: "ServerConfig \<Rightarrow> Backend \<Rightarrow> (string \<Rightarrow> HttpRequest \<Rightarrow> do_result) \<Rightarrow> header
    \<Rightarrow> HttpRequest \<Rightarrow> string \<Rightarrow> Served + (StoreEntry \<times> header)" where
  "read_entry cfg bk do h0 r key =
     (let h = hdr_Set h0 headerShard (FormatUint (bk_Shard bk key)) in
      case bk_Get bk key of
        Inr e \<Rightarrow> Inr (e, hdr_Set h headerServedBy (sc_NodeID cfg))
      | Inl err \<Rightarrow>
          if err = ErrNotFound
          then Inl (respond (writeError (hdr_Set h headerServedBy (sc_NodeID cfg)) 404 ''not_found''))
          else Inl (handleRaftError cfg bk do h r empty_body key [] err))"

definition handleGet :: "ServerConfig \<Rightarrow> Backend \<Rightarrow> (string \<Rightarrow> HttpRequest \<Rightarrow> do_result) \<Rightarrow> string
    \<Rightarrow> HttpRequest \<Rightarrow> Served" where
  "handleGet cfg bk do key r =
     (case read_entry cfg bk do (hdr_Set Map.empty ''Cache-Control'' ''no-store'') r key of
        Inl served \<Rightarrow> served
      | Inr (e, h) \<Rightarrow>
          respond (writeJSON (hdr_Set (hdr_Set h ''ETag'' (etag (en_Version e)))
              headerVersion (FormatUint (unat (en_Version e)))) 200 (toReadResponse key e)))"

text \<open>The \<open>Cache-Control\<close> of a cacheable entry; \<open>None\<close>: the version asked for is not the current
  one.\<close>

definition cache_control :: "string \<Rightarrow> StoreEntry \<Rightarrow> string option" where
  "cache_control v e =
     (if v \<noteq> []
      then if ParseUint 64 v = Some (unat (en_Version e))
           then Some ''public, max-age=31536000, immutable'' else None
      else Some (''public, max-age='' @ FormatUint (unat (en_TTLSeconds e))))"

definition handleCacheGet :: "ServerConfig \<Rightarrow> Backend \<Rightarrow> (string \<Rightarrow> HttpRequest \<Rightarrow> do_result) \<Rightarrow> string
    \<Rightarrow> HttpRequest \<Rightarrow> Served" where
  "handleCacheGet cfg bk do key r =
     (let h0 = hdr_Set Map.empty ''Cache-Control'' ''no-store'' in
      if \<not> namespaceCacheable cfg key then respond (writeError h0 403 ''not_cacheable'')
      else case read_entry cfg bk do h0 r key of
        Inl served \<Rightarrow> served
      | Inr (e, h) \<Rightarrow>
          if \<not> en_Cacheable e then respond (writeError h 403 ''not_cacheable'')
          else case cache_control (query_Get r ''v'') e of
            None \<Rightarrow> respond (writeError h 404 ''version_not_found'')
          | Some cc \<Rightarrow>
              let h1 = hdr_Set (hdr_Set (hdr_Set (hdr_Set h ''Cache-Control'' cc) ''ETag'' (etag (en_Version e)))
                         headerVersion (FormatUint (unat (en_Version e))))
                         ''Last-Modified'' (http_time (en_UpdatedUnixMs e));
                  match = hdr_Get (rq_header r) ''If-None-Match''
              in if match \<noteq> [] \<and> match = etag (en_Version e)
                 then respond \<lparr>hr_code = 304, hr_header = h1, hr_body = None\<rparr>
                 else respond (writeJSON h1 200 (toReadResponse key e)))"

section \<open>The routes\<close>

text \<open>The patterns registered in \<open>New\<close> for the key-value API and for health; a GET pattern also
  serves HEAD. A path of the API with another method is answered 405, any other path 404.\<close>

definition ServeHTTP :: "ServerConfig \<Rightarrow> Backend \<Rightarrow> (string \<Rightarrow> HttpRequest \<Rightarrow> do_result) \<Rightarrow> string
    \<Rightarrow> HttpRequest \<Rightarrow> Served" where
  "ServeHTTP cfg bk do newID r =
     (let get = (rq_method r = ''GET'' \<or> rq_method r = ''HEAD'');
          none = (\<lambda>code. respond \<lparr>hr_code = code, hr_header = Map.empty, hr_body = None\<rparr>)
      in case CutPrefix (rq_path r) ''/v1/kv/'' of
           Some key \<Rightarrow>
             if rq_method r = ''PUT'' then handlePut cfg bk do newID key r
             else if get then handleGet cfg bk do key r
             else if rq_method r = ''DELETE'' then handleDelete cfg bk do newID key r
             else none 405
         | None \<Rightarrow>
             (case CutPrefix (rq_path r) ''/v1/cache/'' of
                Some key \<Rightarrow> if get then handleCacheGet cfg bk do key r else none 405
              | None \<Rightarrow> if rq_path r = ''/healthz'' then none (if get then 200 else 405) else none 404))"

section \<open>Header names\<close>

lemma canon [simp]:
  "CanonicalHeaderKey headerForwarded = ''X-Edgekv-Forwarded''"
  "CanonicalHeaderKey headerNoForward = ''X-Edgekv-No-Forward''"
  "CanonicalHeaderKey headerRequestID = ''X-Request-Id''"
  "CanonicalHeaderKey headerVersion = ''X-Edgekv-Version''"
  "CanonicalHeaderKey headerServedBy = ''X-Edgekv-Served-By''"
  "CanonicalHeaderKey headerShard = ''X-Edgekv-Shard''"
  "CanonicalHeaderKey ''Content-Type'' = ''Content-Type''"
  "CanonicalHeaderKey ''If-None-Match'' = ''If-None-Match''"
  "CanonicalHeaderKey ''Cache-Control'' = ''Cache-Control''"
  "CanonicalHeaderKey ''ETag'' = ''Etag''"
  "CanonicalHeaderKey ''Last-Modified'' = ''Last-Modified''"
  "CanonicalHeaderKey ''Retry-After'' = ''Retry-After''"
  by code_simp+

section \<open>What a handler hands on\<close>

lemma respond_simps [simp]:
  "sv_resp (respond x) = x" "sv_commands (respond x) = []" "sv_enqueued (respond x) = []" "sv_forwards (respond x) = []"
  by (simp_all add: respond_def)

lemma handleRaftError_parts:
  "sv_commands (handleRaftError cfg bk do h r body key rid err) = []"
  "sv_enqueued (handleRaftError cfg bk do h r body key rid err) = []"
  "(u, out) \<in> set (sv_forwards (handleRaftError cfg bk do h r body key rid err)) \<Longrightarrow>
     out = forward_request cfg r body rid \<and> hdr_Get (rq_header r) headerForwarded = []"
  by (auto simp: handleRaftError_def forward_def Let_def split: go_error.splits if_splits)

lemma write_cmd_commands [simp]: "sv_commands (write_cmd cfg bk do r body cmd) = [cmd]"
  by (simp add: write_cmd_def Let_def split: sum.split Status.split)

lemma write_cmd_forwards:
  "(u, out) \<in> set (sv_forwards (write_cmd cfg bk do r body cmd)) \<Longrightarrow>
     out = forward_request cfg r body (cmd_requestId cmd) \<and> hdr_Get (rq_header r) headerForwarded = []"
  using handleRaftError_parts(3) [of u out cfg bk do Map.empty r body "cmd_key cmd" "cmd_requestId cmd"]
  by (auto simp: write_cmd_def Let_def split: sum.splits Status.splits)

lemma read_entry_forwards:
  "read_entry cfg bk do h r key = Inl s \<Longrightarrow> (u, out) \<in> set (sv_forwards s) \<Longrightarrow>
     out = forward_request cfg r empty_body [] \<and> hdr_Get (rq_header r) headerForwarded = [] \<and> sv_commands s = []"
  using handleRaftError_parts(3) [of u out cfg bk do "hdr_Set h headerShard (FormatUint (bk_Shard bk key))" r empty_body key "[]"]
  by (auto simp: handleRaftError_parts(1) read_entry_def Let_def split: sum.splits if_splits)

lemma forward_request_fields [simp]:
  "rq_method (forward_request cfg r body rid) = rq_method r" "rq_path (forward_request cfg r body rid) = rq_path r"
  "rq_query (forward_request cfg r body rid) = rq_query r" "rq_body (forward_request cfg r body rid) = body"
  "query_Get (forward_request cfg r body rid) k = query_Get r k"
  by (simp_all add: forward_request_def query_Get_def Let_def)

lemma forward_request_headers:
  "hdr_Get (rq_header (forward_request cfg r body rid)) headerForwarded = sc_NodeID cfg"
  "hdr_Get (rq_header (forward_request cfg r body rid)) headerRequestID = rid"
  "hdr_Get (rq_header (forward_request cfg r body rid)) ''If-None-Match'' = hdr_Get (rq_header r) ''If-None-Match''"
  by (simp_all add: forward_request_def Let_def hdr_Get_Set)

lemma firstNonEmpty_again:
  "firstNonEmpty [a, b, c] \<noteq> [] \<Longrightarrow> firstNonEmpty [a, firstNonEmpty [a, b, c], d] = firstNonEmpty [a, b, c]"
  by (auto split: if_splits)

lemma handlePut_forwards:
  assumes "(u, out) \<in> set (sv_forwards (handlePut cfg bk do newID key r))"
  shows "\<exists>cmd. put_command cfg newID key r = Inr cmd \<and>
    out = forward_request cfg r (rq_body r) (cmd_requestId cmd) \<and> hdr_Get (rq_header r) headerForwarded = []"
  using assms by (auto simp: handlePut_def dest: write_cmd_forwards split: sum.splits)

lemma handleDelete_forwards:
  assumes "(u, out) \<in> set (sv_forwards (handleDelete cfg bk do newID key r))"
  shows "out = forward_request cfg r empty_body (cmd_requestId (delete_command newID key r)) \<and>
    hdr_Get (rq_header r) headerForwarded = []"
  using assms by (auto simp: handleDelete_def dest: write_cmd_forwards)

lemma read_forwards:
  "(u, out) \<in> set (sv_forwards (handleGet cfg bk do key r)) \<Longrightarrow>
     out = forward_request cfg r empty_body [] \<and> hdr_Get (rq_header r) headerForwarded = []"
  "(u, out) \<in> set (sv_forwards (handleCacheGet cfg bk do key r)) \<Longrightarrow>
     out = forward_request cfg r empty_body [] \<and> hdr_Get (rq_header r) headerForwarded = []"
  by (auto simp: handleGet_def handleCacheGet_def Let_def dest: read_entry_forwards
      split: sum.splits option.splits if_splits)

lemma ServeHTTP_forwards:
  assumes "(u, out) \<in> set (sv_forwards (ServeHTTP cfg bk do newID r))"
  shows "\<exists>body rid. out = forward_request cfg r body rid \<and> hdr_Get (rq_header r) headerForwarded = []"
  using assms unfolding ServeHTTP_def Let_def
  by (auto dest!: handlePut_forwards handleDelete_forwards read_forwards split: option.splits if_splits)

text \<open>C24. A request is forwarded at most once: whatever a node forwards, the node that receives it
  answers itself, so a request can never travel in a loop.\<close>

theorem forwarded_once:
  assumes "(url, out) \<in> set (sv_forwards (ServeHTTP cfg bk do newID r))" and "sc_NodeID cfg \<noteq> ''''"
  shows "sv_forwards (ServeHTTP cfg' bk' do' newID' out) = []"
proof -
  obtain body rid where out: "out = forward_request cfg r body rid" using ServeHTTP_forwards [OF assms(1)] by blast
  have "p \<notin> set (sv_forwards (ServeHTTP cfg' bk' do' newID' out))" for p
    using ServeHTTP_forwards [of "fst p" "snd p" cfg' bk' do' newID' out] assms(2)
    by (auto simp: out forward_request_headers)
  then show ?thesis by (metis list.set_intros(1) neq_Nil_conv)
qed

lemma put_request_id: "put_command cfg newID key r = Inr cmd \<Longrightarrow> newID \<noteq> [] \<Longrightarrow> cmd_requestId cmd \<noteq> []"
  by (auto simp: put_command_def Let_def split: option.splits if_splits)

lemma put_command_forward:
  assumes "put_command cfg newID key r = Inr cmd" and "cmd_requestId cmd \<noteq> []"
    and "put_ttl cfg' key = put_ttl cfg key"
  shows "put_command cfg' newID' key (forward_request cfg r (rq_body r) (cmd_requestId cmd)) = Inr cmd"
proof -
  obtain req where len: "\<not> bd_length (rq_body r) > maxBodyBytes" and req: "unmarshal_put (rq_body r) = Some req"
    using assms(1) by (auto simp: put_command_def split: option.splits if_splits)
  have id: "cmd_requestId cmd = firstNonEmpty [pr_RequestID req, hdr_Get (rq_header r) headerRequestID, newID]"
    using assms(1) len req by (auto simp: put_command_def Let_def split: option.splits if_splits)
  have "firstNonEmpty [pr_RequestID req, cmd_requestId cmd, newID'] =
      firstNonEmpty [pr_RequestID req, hdr_Get (rq_header r) headerRequestID, newID]"
    using firstNonEmpty_again assms(2) unfolding id by blast
  then have "put_command cfg' newID' key (forward_request cfg r (rq_body r) (cmd_requestId cmd)) = put_command cfg newID key r"
    unfolding put_command_def forward_request_fields forward_request_headers assms(3) req option.case by simp
  then show ?thesis using assms(1) by simp
qed

lemma delete_command_forward:
  "cmd_requestId (delete_command newID key r) \<noteq> [] \<Longrightarrow>
     delete_command newID' key (forward_request cfg r body (cmd_requestId (delete_command newID key r))) =
     delete_command newID key r"
  by (auto simp: delete_command_def forward_request_headers split: if_splits)

lemma put_ttl_config:
  assumes "sc_CacheableNamespaces cfg' = sc_CacheableNamespaces cfg"
    and "sc_DefaultTTLSeconds cfg' = sc_DefaultTTLSeconds cfg" and "sc_MaxTTLSeconds cfg' = sc_MaxTTLSeconds cfg"
  shows "put_ttl cfg' key = put_ttl cfg key"
  using assms by (simp add: put_ttl_def namespaceCacheable_def fun_eq_iff split: option.split)

lemma read_commands [simp]: "sv_commands (handleGet cfg bk do key r) = []" "sv_commands (handleCacheGet cfg bk do key r) = []"
  by (auto simp: handleGet_def handleCacheGet_def read_entry_def handleRaftError_parts(1) Let_def
      split: sum.splits option.splits if_splits)

text \<open>C25. What a node forwards is the write it tried itself: the node that receives the request
  hands the very same command to its replica, with the same request ID, generated or not. So the
  attempt here, which may have been committed after all, and the attempt there count as one
  operation for the deduplication table. Reads forward no command.\<close>

theorem forwarded_same_command:
  assumes "(url, out) \<in> set (sv_forwards (ServeHTTP cfg bk do newID r))" and "newID \<noteq> ''''"
    and "sc_CacheableNamespaces cfg' = sc_CacheableNamespaces cfg"
    and "sc_DefaultTTLSeconds cfg' = sc_DefaultTTLSeconds cfg" and "sc_MaxTTLSeconds cfg' = sc_MaxTTLSeconds cfg"
  shows "sv_commands (ServeHTTP cfg' bk' do' newID' out) = sv_commands (ServeHTTP cfg bk do newID r)"
proof -
  have put: "sv_commands (handlePut cfg' bk' do' newID' key out) = sv_commands (handlePut cfg bk do newID key r)"
    if "(url, out) \<in> set (sv_forwards (handlePut cfg bk do newID key r))" for key
    using handlePut_forwards [OF that] put_request_id [OF _ assms(2)] put_command_forward put_ttl_config [OF assms(3-5)]
    by (fastforce simp: handlePut_def)
  have del: "sv_commands (handleDelete cfg' bk' do' newID' key out) = sv_commands (handleDelete cfg bk do newID key r)"
    if "(url, out) \<in> set (sv_forwards (handleDelete cfg bk do newID key r))" for key
  proof -
    have "cmd_requestId (delete_command newID key r) \<noteq> []" using assms(2) by (simp add: delete_command_def)
    then show ?thesis using handleDelete_forwards [OF that] delete_command_forward by (simp add: handleDelete_def)
  qed
  obtain body rid where out: "out = forward_request cfg r body rid" using ServeHTTP_forwards [OF assms(1)] by blast
  then have "rq_method out = rq_method r" "rq_path out = rq_path r" by simp_all
  then show ?thesis
    using assms(1) put del by (auto simp: ServeHTTP_def Let_def split: option.splits)
qed

lemma put_command_cache:
  assumes "put_command cfg newID key r = Inr cmd" and "cmd_cacheable cmd"
  shows "cmd_key cmd = key \<and> namespaceCacheable cfg key \<and>
    (cmd_ttlSeconds cmd = sc_DefaultTTLSeconds cfg \<or> cmd_ttlSeconds cmd \<le> sc_MaxTTLSeconds cfg)"
  using assms
  by (auto simp: put_command_def Let_def put_ttl_def zero_command_def split: option.splits if_splits)

text \<open>C26. No request can make a key cacheable outside the configured namespaces, and no request can
  give a key a lifetime above both configured bounds.\<close>

theorem only_namespaces_cacheable:
  assumes "cmd \<in> set (sv_commands (ServeHTTP cfg bk do newID r))" and "cmd_cacheable cmd"
  shows "namespaceCacheable cfg (cmd_key cmd) \<and>
    cmd_ttlSeconds cmd \<le> max (sc_DefaultTTLSeconds cfg) (sc_MaxTTLSeconds cfg)"
proof -
  obtain key where "put_command cfg newID key r = Inr cmd"
    using assms
    by (auto simp: ServeHTTP_def Let_def handlePut_def handleDelete_def delete_command_def zero_command_def
        split: option.splits sum.splits if_splits)
  from put_command_cache [OF this assms(2)] show ?thesis by (auto simp: le_max_iff_disj)
qed

section \<open>What may be cached\<close>

abbreviation cc_of :: "HttpResponse \<Rightarrow> string" where
  "cc_of resp \<equiv> hdr_Get (hr_header resp) ''Cache-Control''"

lemma writeJSON_cc [simp]: "cc_of (writeJSON h code v) = hdr_Get h ''Cache-Control''"
  by (simp add: writeJSON_def hdr_Get_Set)

lemma writeError_cc [simp]: "cc_of (writeError h code kind) = hdr_Get h ''Cache-Control''"
  by (simp add: writeError_def)

lemma handleRaftError_cc:
  "sv_forwards (handleRaftError cfg bk do h r body key rid err) = [] \<Longrightarrow>
     cc_of (sv_resp (handleRaftError cfg bk do h r body key rid err)) = hdr_Get h ''Cache-Control''"
  by (auto simp: handleRaftError_def forward_def unavailable_def hdr_Get_Set Let_def split: go_error.splits if_splits)

lemma write_cmd_cc:
  "sv_forwards (write_cmd cfg bk do r body cmd) = [] \<Longrightarrow> cc_of (sv_resp (write_cmd cfg bk do r body cmd)) = []"
  by (auto simp: write_cmd_def handleRaftError_cc hdr_Get_Set Let_def split: sum.splits Status.splits)

lemma read_entry_cc:
  assumes "read_entry cfg bk do h r key = x"
  shows "case x of Inl s \<Rightarrow> sv_forwards s = [] \<longrightarrow> cc_of (sv_resp s) = hdr_Get h ''Cache-Control''
    | Inr (e, h') \<Rightarrow> bk_Get bk key = Inr e \<and> hdr_Get h' ''Cache-Control'' = hdr_Get h ''Cache-Control''"
  using assms by (auto simp: read_entry_def handleRaftError_cc hdr_Get_Set Let_def split: sum.splits if_splits)

lemma handleGet_cc:
  "sv_forwards (handleGet cfg bk do key r) = [] \<Longrightarrow> cc_of (sv_resp (handleGet cfg bk do key r)) = ''no-store''"
  using read_entry_cc [of cfg bk do "hdr_Set Map.empty ''Cache-Control'' ''no-store''" r key, OF refl]
  by (auto simp: handleGet_def hdr_Get_Set split: sum.splits)

text \<open>A response of the cache path that does not forbid storing it.\<close>

definition cache_answer :: "ServerConfig \<Rightarrow> Backend \<Rightarrow> HttpRequest \<Rightarrow> string \<Rightarrow> HttpResponse \<Rightarrow> bool" where
  "cache_answer cfg bk r key resp \<longleftrightarrow> (\<exists>e. namespaceCacheable cfg key \<and> bk_Get bk key = Inr e \<and> en_Cacheable e \<and>
     hdr_Get (hr_header resp) ''ETag'' = etag (en_Version e) \<and>
     (hr_code resp = 200 \<and> hr_body resp = Some (toReadResponse key e) \<or>
      hr_code resp = 304 \<and> hdr_Get (rq_header r) ''If-None-Match'' = etag (en_Version e)) \<and>
     (if query_Get r ''v'' = [] then cc_of resp = ''public, max-age='' @ FormatUint (unat (en_TTLSeconds e))
      else ParseUint 64 (query_Get r ''v'') = Some (unat (en_Version e)) \<and>
        cc_of resp = ''public, max-age=31536000, immutable''))"

lemma handleCacheGet_cc:
  assumes "sv_forwards (handleCacheGet cfg bk do key r) = []"
    and "cc_of (sv_resp (handleCacheGet cfg bk do key r)) \<noteq> ''no-store''"
  shows "cache_answer cfg bk r key (sv_resp (handleCacheGet cfg bk do key r))"
proof -
  let ?h0 = "hdr_Set Map.empty ''Cache-Control'' ''no-store''"
  have ns: "namespaceCacheable cfg key"
    using assms by (auto simp: handleCacheGet_def hdr_Get_Set Let_def split: if_splits)
  obtain e h where rd: "read_entry cfg bk do ?h0 r key = Inr (e, h)"
    using assms ns read_entry_cc [of cfg bk do ?h0 r key, OF refl]
    by (auto simp: handleCacheGet_def hdr_Get_Set split: sum.splits)
  have e: "bk_Get bk key = Inr e" "hdr_Get h ''Cache-Control'' = ''no-store''"
    using read_entry_cc [OF rd] by (simp_all add: hdr_Get_Set)
  have c: "en_Cacheable e" using assms ns rd e(2) by (auto simp: handleCacheGet_def split: if_splits)
  obtain cc where cc: "cache_control (query_Get r ''v'') e = Some cc"
    using assms ns rd c e(2) by (auto simp: handleCacheGet_def split: option.splits)
  show ?thesis
    using ns rd c cc e(1)
    by (auto simp: handleCacheGet_def cache_answer_def cache_control_def hdr_Get_Set writeJSON_def Let_def
        split: if_splits)
qed


section \<open>Witnesses\<close>

text \<open>A follower of the shard asked to write a cacheable key, and a leader asked for it.\<close>

definition ex_server :: "node_id \<Rightarrow> ServerConfig" where
  "ex_server n = server_New \<lparr>sc_NodeID = n, sc_PeerHTTP = [''n1'' \<mapsto> ''http://n1'', ''n2'' \<mapsto> ''http://n2''],
     sc_CacheableNamespaces = [''config:''], sc_DefaultTTLSeconds = 0, sc_MaxTTLSeconds = 0, sc_Invalidations = True\<rparr>"

definition ex_follower_node :: Backend where
  "ex_follower_node = \<lparr>bk_Write = (\<lambda>_. Inl (NotLeaderError ''n2'')), bk_Get = (\<lambda>_. Inl (NotLeaderError ''n2'')), bk_Shard = (\<lambda>_. 0)\<rparr>"

definition ex_cached_entry :: StoreEntry where
  "ex_cached_entry = \<lparr>en_Value = [120], en_Version = 7, en_Cacheable = True, en_TTLSeconds = 60, en_UpdatedUnixMs = 1760000000120\<rparr>"

definition ex_leader_node :: Backend where
  "ex_leader_node = \<lparr>bk_Write = (\<lambda>_. Inr \<lparr>res_status = STATUS_OK, res_version = 8\<rparr>), bk_Get = (\<lambda>_. Inr ex_cached_entry), bk_Shard = (\<lambda>_. 0)\<rparr>"

definition ex_put_request :: HttpRequest where
  "ex_put_request = \<lparr>rq_method = ''PUT'', rq_path = ''/v1/kv/config:a'', rq_uri = ''/v1/kv/config:a'', rq_query = Map.empty,
     rq_header = Map.empty, rq_body = \<lparr>bd_length = 74, bd_json = Some (JObj [(''value'', JStr ''x''),
       (''cache_policy'', JObj [(''cacheable'', JBool True), (''ttl_seconds'', JInt 900)])])\<rparr>\<rparr>"

definition ex_cache_request :: HttpRequest where
  "ex_cache_request = \<lparr>rq_method = ''GET'', rq_path = ''/v1/cache/config:a'', rq_uri = ''/v1/cache/config:a'', rq_query = Map.empty,
     rq_header = Map.empty, rq_body = empty_body\<rparr>"

abbreviation ex_forwarding :: Served where
  "ex_forwarding \<equiv> ServeHTTP (ex_server ''n1'') ex_follower_node (\<lambda>_ _. DoFailed) ''id1'' ex_put_request"

definition ex_cmd :: Command where
  "ex_cmd = zero_command\<lparr>cmd_op := OP_PUT, cmd_key := ''config:a'', cmd_value := [120], cmd_requestId := ''id1'',
     cmd_cacheable := True, cmd_ttlSeconds := 300\<rparr>"

lemma ex_put_command: "put_command (ex_server ''n1'') ''id1'' ''config:a'' ex_put_request = Inr ex_cmd"
proof -
  have "unmarshal_put (rq_body ex_put_request) = Some \<lparr>pr_RequestID = [], pr_Value = ''x'',
      pr_CachePolicy = Some \<lparr>cp_Cacheable = True, cp_TTLSeconds = 900\<rparr>\<rparr>"
    and "namespaceCacheable (ex_server ''n1'') ''config:a''" and "key_bytes ''x'' = [120]"
    and "sc_MaxTTLSeconds (ex_server ''n1'') = 300"
    by code_simp+
  then show ?thesis
    by (simp add: put_command_def put_ttl_def ex_cmd_def query_Get_def Let_def ex_put_request_def maxBodyBytes_def)
qed

lemma ex_forwarding_eq:
  "ex_forwarding = write_cmd (ex_server ''n1'') ex_follower_node (\<lambda>_ _. DoFailed) ex_put_request (rq_body ex_put_request) ex_cmd"
proof -
  have "CutPrefix (rq_path ex_put_request) ''/v1/kv/'' = Some ''config:a''" by code_simp
  then show ?thesis using ex_put_command by (simp add: ServeHTTP_def handlePut_def) (simp add: ex_put_request_def)
qed

lemma ex_forwards: "\<exists>out. sv_forwards ex_forwarding = [(''http://n2'', out)]"
proof -
  have "get0 (sc_PeerHTTP (ex_server ''n1'')) [] ''n2'' = ''http://n2''" "sc_NodeID (ex_server ''n1'') = ''n1''"
    by code_simp+
  then show ?thesis
    unfolding ex_forwarding_eq
    by (simp add: write_cmd_def handleRaftError_def forward_def ex_follower_node_def ex_put_request_def Let_def)
qed

theorem forwarded_once_witness:
  "\<exists>out. sv_forwards ex_forwarding = [(''http://n2'', out)] \<and>
     sv_forwards (ServeHTTP (ex_server ''n2'') ex_follower_node (\<lambda>_ _. DoFailed) ''id2'' out) = []"
proof -
  obtain out where out: "sv_forwards ex_forwarding = [(''http://n2'', out)]" using ex_forwards by blast
  have "sc_NodeID (ex_server ''n1'') \<noteq> ''''" by code_simp
  from forwarded_once [OF _ this, of "''http://n2''" out ex_follower_node "\<lambda>_ _. DoFailed" "''id1''" ex_put_request
      "ex_server ''n2''" ex_follower_node "\<lambda>_ _. DoFailed" "''id2''"]
  show ?thesis using out by simp
qed

theorem forwarded_same_command_witness:
  "\<exists>out. sv_forwards ex_forwarding = [(''http://n2'', out)] \<and>
     sv_commands (ServeHTTP (ex_server ''n2'') ex_leader_node (\<lambda>_ _. DoFailed) ''id2'' out) = sv_commands ex_forwarding"
proof -
  obtain out where out: "sv_forwards ex_forwarding = [(''http://n2'', out)]" using ex_forwards by blast
  have "sv_commands (ServeHTTP (ex_server ''n2'') ex_leader_node (\<lambda>_ _. DoFailed) ''id2'' out) = sv_commands ex_forwarding"
    by (rule forwarded_same_command [where url = "''http://n2''"])
       (use out in \<open>simp_all add: ex_server_def server_New_def\<close>)
  then show ?thesis using out by blast
qed

theorem only_namespaces_cacheable_witness:
  "\<exists>cmd. sv_commands ex_forwarding = [cmd] \<and> cmd_cacheable cmd \<and>
     namespaceCacheable (ex_server ''n1'') (cmd_key cmd) \<and> cmd_ttlSeconds cmd \<le> 300"
proof -
  have c: "sv_commands ex_forwarding = [ex_cmd]" "cmd_cacheable ex_cmd"
    unfolding ex_forwarding_eq by (simp_all add: ex_cmd_def)
  from only_namespaces_cacheable [of ex_cmd "ex_server ''n1''" ex_follower_node "\<lambda>_ _. DoFailed" "''id1''" ex_put_request] c
  show ?thesis by (simp add: ex_server_def server_New_def)
qed


end
