(* ===== verification/EK_Edge.thy ===== *)
theory EK_Edge
  imports EK_Server
begin

text \<open>
  \<open>cmd/edgekv-edge/main.go\<close>: the caching reverse proxy. \<open>handle\<close> works without the lock while
  it talks to the origin, so it is two steps: \<open>edge_lookup\<close> up to the request to the origin, and
  \<open>edge_finish\<close> with the answer. A cache slot holds a pointer to an entry, and a renewed entry is
  changed in place even if the slot has been emptied or filled again in the meantime: \<open>eg_cache\<close>
  maps keys to addresses and \<open>eg_heap\<close> holds the entries. What the origin returns is an argument.
  Times are nanoseconds. The statistics page and the process start-up are left out.
\<close>

section \<open>State\<close>

record edge_entry =
  ee_status :: nat
  ee_header :: header
  ee_body :: "json option"
  ee_etag :: string
  ee_fetched :: time
  ee_expires :: time

record Edge =
  eg_origins :: "string list"
  eg_next :: u64
  eg_delay :: time
  eg_failInval :: bool
  eg_cache :: "string \<rightharpoonup> nat"
  eg_heap :: "nat \<Rightarrow> edge_entry"
  eg_alloc :: nat \<comment> \<open>addresses from here on are free\<close>
  eg_delayed :: "string list list" \<comment> \<open>invalidations that have not taken effect yet\<close>
  eg_hits :: nat
  eg_misses :: nat
  eg_refreshHits :: nat
  eg_originRequests :: nat
  eg_invalidations :: nat
  eg_failedInvalidations :: nat

section \<open>Helpers\<close>

text \<open>\<open>time.Duration(n) * time.Second\<close> on \<open>int64\<close>.\<close>

definition wrap64 :: "int \<Rightarrow> int" where
  "wrap64 x = (x + 2 ^ 63) mod 2 ^ 64 - 2 ^ 63"

fun max_age_parts :: "string list \<Rightarrow> int" where
  "max_age_parts [] = 0"
| "max_age_parts (part # parts) =
     (case CutPrefix (TrimSpace part) ''max-age='' of
        None \<Rightarrow> max_age_parts parts
      | Some v \<Rightarrow> (case Atoi v of None \<Rightarrow> max_age_parts parts | Some n \<Rightarrow> wrap64 (n * 1000000000)))"

definition maxAge :: "header \<Rightarrow> int" where
  "maxAge h = max_age_parts (str_Split CHR '','' (hdr_Get h ''Cache-Control''))"

definition copyHeader :: "header \<Rightarrow> header \<Rightarrow> header" where
  "copyHeader dst src = dst ++ src"

definition Itoa :: "int \<Rightarrow> string" where
  "Itoa n = (if n < 0 then CHR ''-'' # FormatUint (nat (- n)) else FormatUint (nat n))"

definition seconds :: "int \<Rightarrow> int" where
  "seconds d = (if d < 0 then - ((- d) div 1000000000) else d div 1000000000)"

definition serve :: "edge_entry \<Rightarrow> string \<Rightarrow> time \<Rightarrow> HttpResponse" where
  "serve ent result now =
     \<lparr>hr_code = ee_status ent,
      hr_header = hdr_Set (hdr_Set (copyHeader Map.empty (ee_header ent)) ''X-Cache'' result)
        ''Age'' (Itoa (seconds (now - ee_fetched ent))),
      hr_body = ee_body ent\<rparr>"

text \<open>\<open>fetch\<close>: the origin it picks and the request it sends.\<close>

definition edge_fetch :: "Edge \<Rightarrow> HttpRequest \<Rightarrow> header \<Rightarrow> go_error + (Edge \<times> string \<times> HttpRequest)" where
  "edge_fetch e r extra =
     (let e1 = e\<lparr>eg_originRequests := eg_originRequests e + 1, eg_next := eg_next e + 1\<rparr> in
      if eg_origins e = [] then Inl (Panic ''integer divide by zero'')
      else Inr (e1, eg_origins e ! (unat (eg_next e1) mod length (eg_origins e)),
        r\<lparr>rq_header := hdr_Del (copyHeader (copyHeader Map.empty (rq_header r)) extra) headerNoForward\<rparr>))"

section \<open>Serving\<close>

text \<open>What \<open>handle\<close> does next: answer, or ask the origin with some extra headers; the address of
  the entry it holds, if any, is kept until the answer arrives.\<close>

datatype edge_next = Answer HttpResponse | Ask "nat option" header | PassThrough

definition edge_cacheable :: "HttpRequest \<Rightarrow> bool" where
  "edge_cacheable r \<longleftrightarrow> rq_method r = ''GET'' \<and> HasPrefix (rq_path r) ''/v1/cache/''"

definition edge_lookup :: "Edge \<Rightarrow> HttpRequest \<Rightarrow> time \<Rightarrow> Edge \<times> edge_next" where
  "edge_lookup e r now =
     (if \<not> edge_cacheable r then (e, PassThrough)
      else case eg_cache e (rq_uri r) of
          None \<Rightarrow> (e, Ask None Map.empty)
        | Some a \<Rightarrow>
            let ent = eg_heap e a in
            if now < ee_expires ent then (e\<lparr>eg_hits := eg_hits e + 1\<rparr>, Answer (serve ent ''Hit'' now))
            else (e, Ask (Some a) (if ee_etag ent \<noteq> [] then [''If-None-Match'' \<mapsto> [ee_etag ent]] else Map.empty)))"

definition bad_gateway :: HttpResponse where
  "bad_gateway = \<lparr>hr_code = 502, hr_header = Map.empty, hr_body = None\<rparr>"

text \<open>The rest of \<open>handle\<close>, with the answer of the origin (\<open>None\<close>: it was not reached).\<close>

definition edge_finish :: "Edge \<Rightarrow> HttpRequest \<Rightarrow> time \<Rightarrow> nat option \<Rightarrow> HttpResponse option \<Rightarrow> Edge \<times> HttpResponse" where
  "edge_finish e r now held answer =
     (case answer of
        None \<Rightarrow> (case held of Some a \<Rightarrow> (e, serve (eg_heap e a) ''Stale'' now) | None \<Rightarrow> (e, bad_gateway))
      | Some resp \<Rightarrow>
          if hr_code resp = 304 \<and> held \<noteq> None
          then let a = the held;
                   t = maxAge (hr_header resp);
                   ttl = (if t = 0 then maxAge (ee_header (eg_heap e a)) else t);
                   ent = (eg_heap e a)\<lparr>ee_fetched := now, ee_expires := now + ttl\<rparr>
               in (e\<lparr>eg_heap := (eg_heap e)(a := ent), eg_refreshHits := eg_refreshHits e + 1\<rparr>,
                   serve ent ''RefreshHit'' now)
          else
            let e1 = e\<lparr>eg_misses := eg_misses e + 1\<rparr>;
                ttl = maxAge (hr_header resp)
            in if hr_code resp = 200 \<and> ttl > 0 \<and>
                  \<not> str_Contains (hdr_Get (hr_header resp) ''Cache-Control'') ''no-store''
               then let ent = \<lparr>ee_status = hr_code resp, ee_header = hr_header resp, ee_body = hr_body resp,
                          ee_etag = hdr_Get (hr_header resp) ''ETag'', ee_fetched = now, ee_expires = now + ttl\<rparr>;
                        a = eg_alloc e
                    in (e1\<lparr>eg_heap := (eg_heap e)(a := ent), eg_alloc := a + 1, eg_cache := (eg_cache e)(rq_uri r \<mapsto> a)\<rparr>,
                        serve ent ''Miss'' now)
               else (e1, resp\<lparr>hr_header := hdr_Set (copyHeader Map.empty (hr_header resp)) ''X-Cache'' ''Miss''\<rparr>))"

definition edge_proxy :: "HttpResponse option \<Rightarrow> HttpResponse" where
  "edge_proxy answer =
     (case answer of None \<Rightarrow> bad_gateway
      | Some resp \<Rightarrow> resp\<lparr>hr_header := hdr_Set (copyHeader Map.empty (hr_header resp)) ''X-Cache'' ''Pass''\<rparr>)"

section \<open>Invalidation\<close>

definition invalidates :: "string \<Rightarrow> string \<Rightarrow> bool" where
  "invalidates p key \<longleftrightarrow> key = p \<or> HasPrefix key (p @ ''?'')"

definition edge_apply :: "string list \<Rightarrow> Edge \<Rightarrow> Edge" where
  "edge_apply paths e =
     e\<lparr>eg_cache := (\<lambda>key. if list_ex (\<lambda>p. invalidates p key) paths then None else eg_cache e key)\<rparr>"

text \<open>\<open>paths\<close> is the decoded body, \<open>None\<close> if it is malformed; the result is the status code.\<close>

definition handleInvalidate :: "Edge \<Rightarrow> string list option \<Rightarrow> Edge \<times> nat" where
  "handleInvalidate e paths =
     (if eg_failInval e then (e\<lparr>eg_failedInvalidations := eg_failedInvalidations e + 1\<rparr>, 503)
      else case paths of
        None \<Rightarrow> (e, 400)
      | Some ps \<Rightarrow>
          let e1 = e\<lparr>eg_invalidations := eg_invalidations e + 1\<rparr>
          in (if eg_delay e > 0 then e1\<lparr>eg_delayed := eg_delayed e @ [ps]\<rparr> else edge_apply ps e1, 202))"

definition edge_flush :: "Edge \<Rightarrow> Edge" where
  "edge_flush e = e\<lparr>eg_cache := Map.empty\<rparr>"

section \<open>The lifetime that the server announces\<close>

lemma wrap64_id: "- (2 ^ 63) \<le> x \<Longrightarrow> x < 2 ^ 63 \<Longrightarrow> wrap64 x = x"
  by (simp add: wrap64_def)

lemma FormatUint_chars: "c \<in> set (FormatUint n) \<Longrightarrow> is_digit c"
  using FormatUint_digits [of n] by (simp add: list_all_iff)

lemma maxAge_server:
  assumes "hdr_Get h ''Cache-Control'' = ''public, max-age='' @ FormatUint n" and "n < 2 ^ 32"
  shows "maxAge h = int n * 1000000000"
proof -
  have nc: "CHR '','' \<notin> set (FormatUint n)" using FormatUint_chars is_digit_plain by blast
  then have split: "str_Split CHR '','' (''public, max-age='' @ FormatUint n) = [''public'', '' max-age='' @ FormatUint n]"
    by (simp add: str_Split_plain)
  have "FormatUint n \<noteq> []" "\<not> is_space (last (FormatUint n))"
    using FormatUint_digits [of n] is_digit_plain [of "last (FormatUint n)"] by (auto simp: list_all_iff)
  then have trim: "TrimSpace ('' max-age='' @ FormatUint n) = ''max-age='' @ FormatUint n"
    by (simp add: TrimSpace_space) (rule TrimSpace_id, simp add: is_space_def)
  have pub: "CutPrefix (TrimSpace ''public'') ''max-age='' = None" by code_simp
  have "Atoi (FormatUint n) = Some (int n)" using assms(2) by (intro Atoi_FormatUint) simp
  moreover have "wrap64 (int n * 1000000000) = int n * 1000000000"
    using assms(2) by (intro wrap64_id) simp_all
  moreover have "CutPrefix (''max-age='' @ FormatUint n) ''max-age='' = Some (FormatUint n)"
    by (simp add: CutPrefix_def HasPrefix_def)
  ultimately show ?thesis by (simp add: maxAge_def assms(1) split pub trim del: append.simps)
qed

section \<open>Invalidation\<close>

lemma invalidates_iff: "invalidates p key \<longleftrightarrow> key = p \<or> (\<exists>q. key = p @ CHR ''?'' # q)"
  by (auto simp: invalidates_def HasPrefix_iff)

text \<open>C30. An invalidation that takes effect removes from the cache exactly the named paths, with every
  query string, so that the next read of such a URL goes to the origin and carries no tag of the
  removed copy; every other URL stays cached. A rejected or malformed one changes nothing.\<close>

theorem invalidation_evicts:
  assumes "handleInvalidate e paths = (e', code)" and "eg_delay e = 0"
  shows "(code = 202 \<longrightarrow> (\<exists>ps. paths = Some ps \<and> (\<forall>r now. edge_cacheable r \<longrightarrow>
      (\<exists>p \<in> set ps. rq_uri r = p \<or> (\<exists>q. rq_uri r = p @ CHR ''?'' # q)) \<longrightarrow>
        edge_lookup e' r now = (e', Ask None Map.empty)) \<and>
      (\<forall>u. (\<forall>p \<in> set ps. u \<noteq> p \<and> (\<forall>q. u \<noteq> p @ CHR ''?'' # q)) \<longrightarrow> eg_cache e' u = eg_cache e u))) \<and>
    (code \<noteq> 202 \<longrightarrow> eg_cache e' = eg_cache e \<and> code \<in> {400, 503})"
proof (cases "eg_failInval e \<or> paths = None")
  case True
  then show ?thesis using assms by (auto simp: handleInvalidate_def split: if_splits)
next
  case False
  then obtain ps where ps: "paths = Some ps" "e' = edge_apply ps (e\<lparr>eg_invalidations := eg_invalidations e + 1\<rparr>)" "code = 202"
    using assms by (auto simp: handleInvalidate_def Let_def)
  then have cache: "eg_cache e' u = (if \<exists>p \<in> set ps. invalidates p u then None else eg_cache e u)" for u
    by (simp add: edge_apply_def list_ex_iff)
  show ?thesis using ps(1,3) by (auto simp: cache edge_lookup_def invalidates_iff)
qed

lemma PathEscape_hex:
  assumes "c \<in> set (PathEscape s)"
  shows "path_plain c \<or> c = CHR ''%'' \<or> (\<exists>d < 16. c = hex_digit d)"
proof -
  obtain x where x: "path_plain x \<and> c = x \<or> c \<in> {CHR ''%'', hex_digit (of_char x div 16), hex_digit (of_char x mod 16)}"
    using assms by (auto simp: PathEscape_def split: if_splits)
  have "of_char x div 16 < (16 :: nat)" "of_char x mod 16 < (16 :: nat)"
    using nat_of_char_less_256 [of x] by linarith+
  then show ?thesis using x by blast
qed

lemma PathEscape_no_query: "CHR ''?'' \<notin> set (PathEscape s)"
proof
  assume "CHR ''?'' \<in> set (PathEscape s)"
  from PathEscape_hex [OF this] obtain d where d: "d < 16" "CHR ''?'' = hex_digit d" by auto
  moreover have "(of_char (hex_digit d) :: nat) = (if d < 10 then 48 + d else 55 + d)" using d(1) by (simp add: hex_digit_def)
  moreover have "(of_char CHR ''?'' :: nat) = 63" by simp
  ultimately show False by (simp split: if_splits)
qed

lemma PathEscape_length: "length s \<le> length (PathEscape s)" "\<not> list_all path_plain s \<Longrightarrow> length s < length (PathEscape s)"
proof -
  show le: "length s \<le> length (PathEscape s)" for s by (induction s) (auto simp: PathEscape_def)
  show "\<not> list_all path_plain s \<Longrightarrow> length s < length (PathEscape s)"
  proof (induction s)
    case (Cons x s)
    then show ?case using le [of s] by (auto simp: PathEscape_def)
  qed simp
qed


section \<open>Witnesses\<close>

definition ex_edge :: Edge where
  "ex_edge = \<lparr>eg_origins = [''http://n1'', ''http://n2''], eg_next = 0, eg_delay = 0, eg_failInval = False,
     eg_cache = Map.empty, eg_heap = (\<lambda>_. \<lparr>ee_status = 200, ee_header = Map.empty, ee_body = None, ee_etag = [],
       ee_fetched = 0, ee_expires = 0\<rparr>), eg_alloc = 0, eg_delayed = [], eg_hits = 0, eg_misses = 0, eg_refreshHits = 0,
     eg_originRequests = 0, eg_invalidations = 0, eg_failedInvalidations = 0\<rparr>"

theorem invalidation_evicts_witness:
  "\<exists>e'. handleInvalidate (ex_edge\<lparr>eg_cache := [''/v1/cache/config:a'' \<mapsto> 0, ''/v1/cache/config:b'' \<mapsto> 1]\<rparr>) (Some [''/v1/cache/config:a'']) = (e', 202) \<and>
     edge_lookup e' ex_cache_request 7 = (e', Ask None Map.empty) \<and> eg_cache e' ''/v1/cache/config:b'' = Some 1"
proof -
  let ?e = "ex_edge\<lparr>eg_cache := [''/v1/cache/config:a'' \<mapsto> 0, ''/v1/cache/config:b'' \<mapsto> 1]\<rparr>"
  obtain e' where e': "handleInvalidate ?e (Some [''/v1/cache/config:a'']) = (e', 202)"
    by (simp add: handleInvalidate_def ex_edge_def Let_def)
  have "edge_cacheable ex_cache_request" "rq_uri ex_cache_request = ''/v1/cache/config:a''"
    by code_simp+
  then show ?thesis
    using invalidation_evicts [OF e'] e' by (simp add: ex_edge_def)
qed


end
