(* ===== verification/EK_Staleness.thy ===== *)
theory EK_Staleness
  imports EK_Edge
begin

text \<open>
  Bounded staleness: the edge cache in front of an origin whose answers change over time. The
  transition system interleaves any number of requests, answers, failures and invalidations; an
  answer of the origin was given at some moment between the request and its arrival. The locale
  \<open>cache_origin\<close> is what the cache relies on, and the gateway over a history of stores is such an
  origin.
\<close>

section \<open>The edge and its origin\<close>

text \<open>\<open>orig u t resp\<close>: at time \<open>t\<close> the origin may answer \<open>resp\<close> to an unconditional GET of \<open>u\<close>. A
  conditional request whose tag is the current one is answered 304.\<close>

definition conditional :: "HttpRequest \<Rightarrow> HttpResponse \<Rightarrow> HttpResponse" where
  "conditional q full =
     (let m = hdr_Get (rq_header q) ''If-None-Match'' in
      if m \<noteq> [] \<and> hr_code full = 200 \<and> m = hdr_Get (hr_header full) ''ETag''
      then \<lparr>hr_code = 304, hr_header = hdr_Del (hr_header full) ''Content-Type'', hr_body = None\<rparr> else full)"

record flight =
  fl_viewer :: HttpRequest
  fl_sent :: HttpRequest
  fl_start :: time
  fl_held :: "nat option"

record edge_sys =
  es_edge :: Edge
  es_clock :: time
  es_flights :: "flight list"

inductive edge_step :: "(string \<Rightarrow> time \<Rightarrow> HttpResponse \<Rightarrow> bool) \<Rightarrow> edge_sys \<Rightarrow> edge_sys \<Rightarrow> bool"
  for orig :: "string \<Rightarrow> time \<Rightarrow> HttpResponse \<Rightarrow> bool" where
  e_time: "es_clock s \<le> t \<Longrightarrow> edge_step orig s (s\<lparr>es_clock := t\<rparr>)"
| e_answer: "edge_lookup (es_edge s) r (es_clock s) = (e, Answer resp) \<Longrightarrow> edge_step orig s (s\<lparr>es_edge := e\<rparr>)"
| e_ask: "edge_lookup (es_edge s) r (es_clock s) = (e, Ask held extra) \<Longrightarrow> edge_fetch e r extra = Inr (e', url, q) \<Longrightarrow>
    edge_step orig s (s\<lparr>es_edge := e',
      es_flights := \<lparr>fl_viewer = r, fl_sent = q, fl_start = es_clock s, fl_held = held\<rparr> # es_flights s\<rparr>)"
| e_reply: "f \<in> set (es_flights s) \<Longrightarrow> fl_start f \<le> t \<Longrightarrow> t \<le> es_clock s \<Longrightarrow> orig (rq_uri (fl_sent f)) t full \<Longrightarrow>
    edge_finish (es_edge s) (fl_viewer f) (fl_start f) (fl_held f) (Some (conditional (fl_sent f) full)) = (e, out) \<Longrightarrow>
    edge_step orig s (s\<lparr>es_edge := e, es_flights := remove1 f (es_flights s)\<rparr>)"
| e_lost: "f \<in> set (es_flights s) \<Longrightarrow>
    edge_finish (es_edge s) (fl_viewer f) (fl_start f) (fl_held f) None = (e, out) \<Longrightarrow>
    edge_step orig s (s\<lparr>es_edge := e, es_flights := remove1 f (es_flights s)\<rparr>)"
| e_invalidate: "handleInvalidate (es_edge s) paths = (e, code) \<Longrightarrow> edge_step orig s (s\<lparr>es_edge := e\<rparr>)"
| e_delayed: "eg_delayed (es_edge s) = xs @ ps # ys \<Longrightarrow>
    edge_step orig s (s\<lparr>es_edge := edge_apply ps ((es_edge s)\<lparr>eg_delayed := xs @ ys\<rparr>)\<rparr>)"
| e_flush: "edge_step orig s (s\<lparr>es_edge := edge_flush (es_edge s)\<rparr>)"

inductive edge_reach :: "(string \<Rightarrow> time \<Rightarrow> HttpResponse \<Rightarrow> bool) \<Rightarrow> edge_sys \<Rightarrow> bool"
  for orig :: "string \<Rightarrow> time \<Rightarrow> HttpResponse \<Rightarrow> bool" where
  edge_start: "eg_cache (es_edge s) = Map.empty \<Longrightarrow> eg_alloc (es_edge s) = 0 \<Longrightarrow> es_flights s = [] \<Longrightarrow> edge_reach orig s"
| edge_more: "edge_reach orig s \<Longrightarrow> edge_step orig s s' \<Longrightarrow> edge_reach orig s'"

section \<open>What the cache relies on\<close>

lemma conditional_cc [simp]:
  "cc_of (conditional q full) = cc_of full" "maxAge (hr_header (conditional q full)) = maxAge (hr_header full)"
  by (simp_all add: conditional_def Let_def hdr_Get_Del maxAge_def)

locale cache_origin =
  fixes orig :: "string \<Rightarrow> time \<Rightarrow> HttpResponse \<Rightarrow> bool" and bound :: "string \<Rightarrow> int"
  assumes tag_present: "orig u t resp \<Longrightarrow> hr_code resp = 200 \<Longrightarrow> maxAge (hr_header resp) > 0 \<Longrightarrow>
      hdr_Get (hr_header resp) ''ETag'' \<noteq> []"
    and tag_names_body: "orig u t resp \<Longrightarrow> orig u t' resp' \<Longrightarrow> hr_code resp = 200 \<Longrightarrow> hr_code resp' = 200 \<Longrightarrow>
      hdr_Get (hr_header resp) ''ETag'' = hdr_Get (hr_header resp') ''ETag'' \<Longrightarrow>
      hdr_Get (hr_header resp) ''ETag'' \<noteq> [] \<Longrightarrow> hr_body resp = hr_body resp'"
    and age_bounded: "orig u t resp \<Longrightarrow> maxAge (hr_header resp) \<le> bound u"
    and not_conditional: "orig u t resp \<Longrightarrow> hr_code resp \<noteq> 304"
begin

definition fresh_at :: "string \<Rightarrow> time \<Rightarrow> edge_entry \<Rightarrow> bool" where
  "fresh_at u T ent \<longleftrightarrow> (\<exists>t resp. ee_fetched ent \<le> t \<and> t \<le> T \<and> orig u t resp \<and> hr_code resp = 200 \<and>
     ee_body ent = hr_body resp \<and> ee_etag ent = hdr_Get (hr_header resp) ''ETag'') \<and> ee_etag ent \<noteq> [] \<and>
     maxAge (ee_header ent) \<le> bound u \<and> ee_expires ent \<le> ee_fetched ent + bound u"

definition flight_ok :: "(nat \<Rightarrow> string) \<Rightarrow> edge_sys \<Rightarrow> flight \<Rightarrow> bool" where
  "flight_ok own s f \<longleftrightarrow> rq_uri (fl_sent f) = rq_uri (fl_viewer f) \<and> fl_start f \<le> es_clock s \<and>
     (\<forall>a. fl_held f = Some a \<longrightarrow> a < eg_alloc (es_edge s) \<and> own a = rq_uri (fl_viewer f) \<and>
        hdr_Get (rq_header (fl_sent f)) ''If-None-Match'' = ee_etag (eg_heap (es_edge s) a))"

text \<open>\<open>own a\<close> is the URL whose entry is at address \<open>a\<close>.\<close>

definition edge_inv :: "(nat \<Rightarrow> string) \<Rightarrow> edge_sys \<Rightarrow> bool" where
  "edge_inv own s \<longleftrightarrow>
     (\<forall>a < eg_alloc (es_edge s). fresh_at (own a) (es_clock s) (eg_heap (es_edge s) a)) \<and>
     (\<forall>u a. eg_cache (es_edge s) u = Some a \<longrightarrow> a < eg_alloc (es_edge s) \<and> own a = u) \<and>
     (\<forall>f \<in> set (es_flights s). flight_ok own s f)"

lemma fresh_at_later: "fresh_at u T ent \<Longrightarrow> T \<le> T' \<Longrightarrow> fresh_at u T' ent"
  by (fastforce simp: fresh_at_def)

text \<open>A step may add entries and change others, as long as their tags stay.\<close>

lemma inv_update:
  assumes inv: "edge_inv own s"
    and tags: "\<And>a. a < eg_alloc (es_edge s) \<Longrightarrow> ee_etag (eg_heap e a) = ee_etag (eg_heap (es_edge s) a) \<and> own' a = own a"
    and alloc: "eg_alloc (es_edge s) \<le> eg_alloc e"
    and fresh: "\<And>a. a < eg_alloc e \<Longrightarrow> fresh_at (own' a) (es_clock s) (eg_heap e a)"
    and cache: "\<And>u a. eg_cache e u = Some a \<Longrightarrow> a < eg_alloc e \<and> own' a = u"
    and flights: "set fs \<subseteq> set (es_flights s)"
  shows "edge_inv own' (s\<lparr>es_edge := e, es_flights := fs\<rparr>)"
proof -
  have "flight_ok own' (s\<lparr>es_edge := e, es_flights := fs\<rparr>) f" if "f \<in> set fs" for f
  proof -
    have "flight_ok own s f" using inv flights that by (auto simp: edge_inv_def)
    then show ?thesis using tags alloc by (fastforce simp: flight_ok_def)
  qed
  then show ?thesis using fresh cache by (simp add: edge_inv_def)
qed

lemma inv_fresh: "edge_inv own s \<Longrightarrow> a < eg_alloc (es_edge s) \<Longrightarrow> fresh_at (own a) (es_clock s) (eg_heap (es_edge s) a)"
  by (simp add: edge_inv_def)

lemma inv_cache: "edge_inv own s \<Longrightarrow> eg_cache (es_edge s) u = Some a \<Longrightarrow> a < eg_alloc (es_edge s) \<and> own a = u"
  by (simp add: edge_inv_def)

lemma inv_same_heap:
  assumes inv: "edge_inv own s" and "eg_heap e = eg_heap (es_edge s)" and "eg_alloc e = eg_alloc (es_edge s)"
    and "\<And>u. eg_cache e u = None \<or> eg_cache e u = eg_cache (es_edge s) u" and "set fs \<subseteq> set (es_flights s)"
  shows "edge_inv own (s\<lparr>es_edge := e, es_flights := fs\<rparr>)"
proof (rule inv_update [OF inv])
  fix u a assume "eg_cache e u = Some a"
  then show "a < eg_alloc e \<and> own a = u" using assms(4) [of u] inv_cache [OF inv, of u a] assms(3) by simp
qed (use assms inv_fresh [OF inv] in simp_all)

lemma inv_renew:
  assumes inv: "edge_inv own s" and f: "f \<in> set (es_flights s)" "fl_held f = Some a"
    and t: "fl_start f \<le> t" "t \<le> es_clock s" and o: "orig (rq_uri (fl_sent f)) t full"
    and m: "hr_code (conditional (fl_sent f) full) = 304" and ttl: "ttl \<le> bound (rq_uri (fl_sent f))"
  shows "edge_inv own (s\<lparr>es_edge := (es_edge s)\<lparr>eg_heap := (eg_heap (es_edge s))
      (a := (eg_heap (es_edge s) a)\<lparr>ee_fetched := fl_start f, ee_expires := fl_start f + ttl\<rparr>), eg_refreshHits := n\<rparr>,
    es_flights := remove1 f (es_flights s)\<rparr>)"
proof -
  let ?ent = "eg_heap (es_edge s) a" and ?u = "rq_uri (fl_sent f)"
  have fo: "flight_ok own s f" using inv f(1) by (simp add: edge_inv_def)
  then have a: "a < eg_alloc (es_edge s)" "own a = ?u" using f(2) by (simp_all add: flight_ok_def)
  then have fr: "fresh_at ?u (es_clock s) ?ent" using inv_fresh [OF inv] by metis
  have "hr_code full \<noteq> 304" by (rule not_conditional [OF o])
  then have full: "hr_code full = 200" "hdr_Get (hr_header full) ''ETag'' = ee_etag ?ent"
    using m fo f(2) by (auto simp: conditional_def flight_ok_def Let_def split: if_splits)
  obtain t0 resp where r: "orig ?u t0 resp" "hr_code resp = 200" "ee_body ?ent = hr_body resp"
      "ee_etag ?ent = hdr_Get (hr_header resp) ''ETag''" "ee_etag ?ent \<noteq> []"
    using fr by (auto simp: fresh_at_def)
  then have "ee_body ?ent = hr_body full" using tag_names_body [OF r(1) o r(2) full(1)] full(2) by simp
  moreover have "maxAge (ee_header ?ent) \<le> bound ?u" using fr by (simp add: fresh_at_def)
  ultimately have new: "fresh_at ?u (es_clock s) (?ent\<lparr>ee_fetched := fl_start f, ee_expires := fl_start f + ttl\<rparr>)"
    using full o t ttl r(5) unfolding fresh_at_def by (intro conjI exI [of _ t] exI [of _ full]) simp_all
  show ?thesis
    using new a inv_fresh [OF inv] inv_cache [OF inv]
    by (intro inv_update [OF inv]) (auto intro: set_remove1_subset [THEN subsetD])
qed

lemma inv_store:
  assumes inv: "edge_inv own s" and f: "f \<in> set (es_flights s)"
    and t: "fl_start f \<le> t" "t \<le> es_clock s" and o: "orig (rq_uri (fl_sent f)) t full"
    and c: "hr_code full = 200" "maxAge (hr_header full) > 0" and a: "a = eg_alloc (es_edge s)"
    and ent: "ent = \<lparr>ee_status = 200, ee_header = hr_header full, ee_body = hr_body full,
      ee_etag = hdr_Get (hr_header full) ''ETag'', ee_fetched = fl_start f, ee_expires = fl_start f + maxAge (hr_header full)\<rparr>"
  shows "edge_inv (own(a := rq_uri (fl_sent f))) (s\<lparr>es_edge := (es_edge s)\<lparr>eg_misses := n,
      eg_heap := (eg_heap (es_edge s))(a := ent), eg_alloc := a + 1,
      eg_cache := (eg_cache (es_edge s))(rq_uri (fl_viewer f) \<mapsto> a)\<rparr>, es_flights := remove1 f (es_flights s)\<rparr>)"
proof -
  let ?u = "rq_uri (fl_sent f)"
  have u: "rq_uri (fl_viewer f) = ?u" using inv f by (simp add: edge_inv_def flight_ok_def)
  have "fresh_at ?u (es_clock s) ent"
    using o c t tag_present [OF o] age_bounded [OF o] by (auto simp: ent fresh_at_def)
  then show ?thesis
    using inv_fresh [OF inv] inv_cache [OF inv] u a
    by (intro inv_update [OF inv]) (auto simp: less_Suc_eq intro: set_remove1_subset [THEN subsetD] split: if_splits)
qed

lemma inv_reply:
  assumes inv: "edge_inv own s" and f: "f \<in> set (es_flights s)"
    and t: "fl_start f \<le> t" "t \<le> es_clock s" and o: "orig (rq_uri (fl_sent f)) t full"
    and fin: "edge_finish (es_edge s) (fl_viewer f) (fl_start f) (fl_held f) (Some (conditional (fl_sent f) full)) = (e, out)"
  shows "\<exists>own'. edge_inv own' (s\<lparr>es_edge := e, es_flights := remove1 f (es_flights s)\<rparr>)"
proof -
  let ?resp = "conditional (fl_sent f) full" and ?u = "rq_uri (fl_sent f)" and ?e = "es_edge s"
  consider (renew) a where "hr_code ?resp = 304" "fl_held f = Some a"
    | (store) "\<not> (hr_code ?resp = 304 \<and> fl_held f \<noteq> None)" "hr_code ?resp = 200" "maxAge (hr_header full) > 0"
        "\<not> str_Contains (hdr_Get (hr_header full) ''Cache-Control'') ''no-store''"
    | (pass) "\<not> (hr_code ?resp = 304 \<and> fl_held f \<noteq> None)"
        "\<not> (hr_code ?resp = 200 \<and> maxAge (hr_header full) > 0 \<and>
           \<not> str_Contains (hdr_Get (hr_header full) ''Cache-Control'') ''no-store'')"
    by blast
  then show ?thesis
  proof cases
    case (renew a)
    have "flight_ok own s f" using inv f by (simp add: edge_inv_def)
    then have "maxAge (ee_header (eg_heap ?e a)) \<le> bound ?u"
      using inv_fresh [OF inv, of a] renew(2) by (auto simp: flight_ok_def fresh_at_def)
    then have "(if maxAge (hr_header full) = 0 then maxAge (ee_header (eg_heap ?e a)) else maxAge (hr_header full)) \<le> bound ?u"
      using age_bounded [OF o] by simp
    from inv_renew [OF inv f renew(2) t o renew(1) this] show ?thesis
      using fin renew by (auto simp: edge_finish_def Let_def)
  next
    case store
    then have full: "?resp = full" by (auto simp: conditional_def Let_def split: if_splits)
    then show ?thesis
      using inv_store [OF inv f t o _ store(3) refl refl] fin store by (auto simp: edge_finish_def Let_def)
  next
    case pass
    then have "e = ?e\<lparr>eg_misses := eg_misses ?e + 1\<rparr>" using fin
      by (auto simp: edge_finish_def Let_def split: if_splits)
    then have "edge_inv own (s\<lparr>es_edge := e, es_flights := remove1 f (es_flights s)\<rparr>)"
      by (intro inv_same_heap [OF inv]) (simp_all add: set_remove1_subset)
    then show ?thesis by blast
  qed
qed

lemma inv_ask:
  assumes inv: "edge_inv own s" and l: "edge_lookup (es_edge s) r (es_clock s) = (e, Ask held extra)"
    and q: "edge_fetch e r extra = Inr (e', url, q)"
  shows "edge_inv own (s\<lparr>es_edge := e',
    es_flights := \<lparr>fl_viewer = r, fl_sent = q, fl_start = es_clock s, fl_held = held\<rparr> # es_flights s\<rparr>)"
proof -
  let ?f = "\<lparr>fl_viewer = r, fl_sent = q, fl_start = es_clock s, fl_held = held\<rparr>"
  have e: "e = es_edge s" using l by (auto simp: edge_lookup_def Let_def split: if_splits option.splits)
  then have e': "eg_heap e' = eg_heap (es_edge s)" "eg_alloc e' = eg_alloc (es_edge s)" "eg_cache e' = eg_cache (es_edge s)"
      "rq_uri q = rq_uri r" "rq_header q = hdr_Del (rq_header r ++ extra) headerNoForward"
    using q by (auto simp: edge_fetch_def copyHeader_def Let_def split: if_splits)
  have "flight_ok own (s\<lparr>es_edge := e', es_flights := ?f # es_flights s\<rparr>) ?f"
  proof (cases held)
    case (Some a)
    then have a: "eg_cache (es_edge s) (rq_uri r) = Some a"
        "extra = (if ee_etag (eg_heap (es_edge s) a) \<noteq> [] then [''If-None-Match'' \<mapsto> [ee_etag (eg_heap (es_edge s) a)]] else Map.empty)"
      using l by (auto simp: edge_lookup_def Let_def split: if_splits option.splits)
    note ac = inv_cache [OF inv a(1)]
    then have "ee_etag (eg_heap (es_edge s) a) \<noteq> []" using inv_fresh [OF inv, of a] by (simp add: fresh_at_def)
    then show ?thesis using a ac e' Some by (simp add: flight_ok_def hdr_Get_Del) (simp add: hdr_Get_def)
  qed (simp add: flight_ok_def e')
  moreover have "edge_inv own (s\<lparr>es_edge := e', es_flights := es_flights s\<rparr>)"
    using e' by (intro inv_same_heap [OF inv]) simp_all
  ultimately show ?thesis by (simp add: edge_inv_def flight_ok_def)
qed

lemma edge_step_inv:
  assumes "edge_step orig s s'" and inv: "edge_inv own s"
  shows "\<exists>own'. edge_inv own' s'"
  using assms(1)
proof cases
  case (e_time t)
  have "edge_inv own s'"
    using inv e_time fresh_at_later by (fastforce simp: edge_inv_def flight_ok_def)
  then show ?thesis by blast
next
  case (e_answer r e resp)
  then have "e = (es_edge s)\<lparr>eg_hits := eg_hits (es_edge s) + 1\<rparr>"
    by (auto simp: edge_lookup_def Let_def split: if_splits option.splits)
  then have "edge_inv own (s\<lparr>es_edge := e, es_flights := es_flights s\<rparr>)" by (intro inv_same_heap [OF inv]) simp_all
  then show ?thesis using e_answer by auto
next
  case (e_ask r e held extra e' url q)
  then show ?thesis using inv_ask [OF inv] by blast
next
  case (e_reply f t full e out)
  then show ?thesis using inv_reply [OF inv] by blast
next
  case (e_lost f e out)
  then have "e = es_edge s" by (auto simp: edge_finish_def split: option.splits)
  then have "edge_inv own (s\<lparr>es_edge := e, es_flights := remove1 f (es_flights s)\<rparr>)"
    by (intro inv_same_heap [OF inv]) (simp_all add: set_remove1_subset)
  then show ?thesis using e_lost by auto
next
  case (e_invalidate paths e code)
  have "edge_inv own (s\<lparr>es_edge := e, es_flights := es_flights s\<rparr>)"
    using e_invalidate(2)
    by (intro inv_same_heap [OF inv]) (auto simp: handleInvalidate_def edge_apply_def Let_def split: if_splits option.splits)
  then show ?thesis using e_invalidate by auto
next
  case (e_delayed xs ps ys)
  have "edge_inv own (s\<lparr>es_edge := edge_apply ps ((es_edge s)\<lparr>eg_delayed := xs @ ys\<rparr>), es_flights := es_flights s\<rparr>)"
    by (intro inv_same_heap [OF inv]) (auto simp: edge_apply_def)
  then show ?thesis using e_delayed by auto
next
  case e_flush
  have "edge_inv own (s\<lparr>es_edge := edge_flush (es_edge s), es_flights := es_flights s\<rparr>)"
    by (intro inv_same_heap [OF inv]) (auto simp: edge_flush_def)
  then show ?thesis using e_flush by auto
qed

lemma edge_reach_inv: "edge_reach orig s \<Longrightarrow> \<exists>own. edge_inv own s"
proof (induction rule: edge_reach.induct)
  case (edge_start s)
  then show ?case by (simp add: edge_inv_def)
next
  case (edge_more s s')
  then show ?case using edge_step_inv by blast
qed

text \<open>A hit was the answer of the origin less than the bound ago.\<close>

lemma hit_bounded:
  assumes "edge_reach orig s" and "edge_lookup (es_edge s) r (es_clock s) = (e, Answer resp)"
  shows "\<exists>t full. es_clock s - bound (rq_uri r) < t \<and> t \<le> es_clock s \<and> orig (rq_uri r) t full \<and>
    hr_code full = 200 \<and> hr_body resp = hr_body full"
proof -
  obtain own where inv: "edge_inv own s" using edge_reach_inv [OF assms(1)] by blast
  obtain a where a: "eg_cache (es_edge s) (rq_uri r) = Some a" "es_clock s < ee_expires (eg_heap (es_edge s) a)"
      "resp = serve (eg_heap (es_edge s) a) ''Hit'' (es_clock s)"
    using assms(2) by (auto simp: edge_lookup_def Let_def split: if_splits option.splits)
  have "fresh_at (rq_uri r) (es_clock s) (eg_heap (es_edge s) a)"
    using inv_cache [OF inv a(1)] inv_fresh [OF inv] by metis
  then obtain t full where t: "ee_fetched (eg_heap (es_edge s) a) \<le> t" "t \<le> es_clock s" "orig (rq_uri r) t full"
      "hr_code full = 200" "ee_body (eg_heap (es_edge s) a) = hr_body full"
      "ee_expires (eg_heap (es_edge s) a) \<le> ee_fetched (eg_heap (es_edge s) a) + bound (rq_uri r)"
    by (auto simp: fresh_at_def)
  then show ?thesis using a by (intro exI [of _ t] exI [of _ full]) (simp add: serve_def)
qed

end

end
