(* ===== verification/EK_Origin.thy ===== *)
theory EK_Origin
  imports EK_Staleness
begin

text \<open>
  The gateway as the origin of the edge cache. Each key has the log of its shard, of commands that
  the gateways issued; a read is answered from the store that some prefix of this log produces,
  by the node itself or by the leader it forwards to, or with an error.
\<close>

section \<open>The gateways over a history of commands\<close>

text \<open>\<open>hist k\<close> is the log of the shard of \<open>k\<close>, and \<open>pos k t\<close> the length of the prefix that a read
  of \<open>k\<close> at time \<open>t\<close> sees. \<open>Node.Write\<close> stamps a command with the time.\<close>

definition gateway_history :: "ServerConfig set \<Rightarrow> (string \<Rightarrow> (u64 \<times> Command) list) \<Rightarrow> bool" where
  "gateway_history C hist \<longleftrightarrow> (\<forall>k i c. (i, c) \<in> set (hist k) \<longrightarrow>
     (\<exists>cfg \<in> C. \<exists>bk do newID r c0 ts. c0 \<in> set (sv_commands (ServeHTTP cfg bk do newID r)) \<and>
        c = c0\<lparr>cmd_timestampUnixMs := ts\<rparr>)) \<and> (\<forall>k. length (hist k) < 2 ^ 64)"

definition ttl_limits :: "u32 \<Rightarrow> ServerConfig set \<Rightarrow> bool" where
  "ttl_limits B C \<longleftrightarrow> (\<forall>cfg \<in> C. sc_DefaultTTLSeconds cfg \<le> B \<and> sc_MaxTTLSeconds cfg \<le> B)"

definition stored :: "(string \<Rightarrow> (u64 \<times> Command) list) \<Rightarrow> (string \<Rightarrow> time \<Rightarrow> nat) \<Rightarrow> time \<Rightarrow> string
    \<Rightarrow> go_error + StoreEntry \<Rightarrow> bool" where
  "stored hist pos t k x \<longleftrightarrow>
     (\<exists>s rs. run New (take (pos k t) (hist k)) = Inr (s, rs) \<and> Get s k = x) \<or>
     (\<exists>err. x = Inl err)"

definition node_answers :: "(string \<Rightarrow> (u64 \<times> Command) list) \<Rightarrow> (string \<Rightarrow> time \<Rightarrow> nat) \<Rightarrow> ServerConfig \<Rightarrow> time
    \<Rightarrow> HttpRequest \<Rightarrow> HttpResponse \<Rightarrow> bool" where
  "node_answers hist pos cfg t r resp \<longleftrightarrow>
     (\<exists>bk do newID. (\<forall>k. stored hist pos t k (bk_Get bk k)) \<and>
        sv_forwards (ServeHTTP cfg bk do newID r) = [] \<and> resp = sv_resp (ServeHTTP cfg bk do newID r))"

definition gateway_answers :: "ServerConfig set \<Rightarrow> (string \<Rightarrow> (u64 \<times> Command) list) \<Rightarrow> (string \<Rightarrow> time \<Rightarrow> nat) \<Rightarrow> time
    \<Rightarrow> HttpRequest \<Rightarrow> HttpResponse \<Rightarrow> bool" where
  "gateway_answers C hist pos t r resp \<longleftrightarrow>
     (\<exists>cfg \<in> C. node_answers hist pos cfg t r resp \<or>
        (\<exists>bk do newID url out. sv_forwards (ServeHTTP cfg bk do newID r) = [(url, out)] \<and>
           (case do url out of DoResp resp' \<Rightarrow> \<exists>cfg' \<in> C. node_answers hist pos cfg' t out resp' | _ \<Rightarrow> True) \<and>
           resp = sv_resp (ServeHTTP cfg bk do newID r)))"

text \<open>A GET of the cache path, its path and query parsed from the URI.\<close>

definition cache_request :: "HttpRequest \<Rightarrow> bool" where
  "cache_request r \<longleftrightarrow> rq_method r = ''GET'' \<and> HasPrefix (rq_path r) ''/v1/cache/'' \<and>
     unescape False (fst (uri_parts (rq_uri r))) = Some (rq_path r) \<and>
     rq_query r = ParseQuery (snd (uri_parts (rq_uri r)))"

definition gateway_origin :: "u32 \<Rightarrow> ServerConfig set \<Rightarrow> (string \<Rightarrow> (u64 \<times> Command) list) \<Rightarrow> (string \<Rightarrow> time \<Rightarrow> nat)
    \<Rightarrow> string \<Rightarrow> time \<Rightarrow> HttpResponse \<Rightarrow> bool" where
  "gateway_origin B C hist pos u t resp \<longleftrightarrow> ttl_limits B C \<and> gateway_history C hist \<and>
     (\<exists>r. cache_request r \<and> rq_uri r = u \<and> hdr_Get (rq_header r) ''If-None-Match'' = [] \<and>
        gateway_answers C hist pos t r resp)"

text \<open>The longest lifetime that the gateways announce for a URL: a year for a fixed version.\<close>

definition age_bound :: "u32 \<Rightarrow> string \<Rightarrow> int" where
  "age_bound B u = (if get0 (ParseQuery (snd (uri_parts u))) [] ''v'' = [] then int (unat B) else 31536000) * 1000000000"

section \<open>Lifetimes in the store\<close>

definition ttl_ok :: "u32 \<Rightarrow> Store \<Rightarrow> bool" where
  "ttl_ok B s \<longleftrightarrow> (\<forall>k r. data s k = Some r \<and> r_cacheable r \<longrightarrow> r_ttlSeconds r \<le> B)"

lemma ttl_ok_cong: "data s' = data s \<Longrightarrow> ttl_ok B s' = ttl_ok B s"
  by (simp add: ttl_ok_def)

lemma applyLocked_ttl:
  assumes "applyLocked s c = Inr (s', r)" and "ttl_ok B s" and "cmd_cacheable c \<Longrightarrow> cmd_ttlSeconds c \<le> B"
  shows "ttl_ok B s'"
  using assms by (auto simp: applyLocked_def Let_def ttl_ok_def split: if_splits Op.splits option.splits)

lemma applyCommand_ttl:
  assumes "applyCommand s i c = Inr (s', r)" and "ttl_ok B s" and "cmd_cacheable c \<Longrightarrow> cmd_ttlSeconds c \<le> B"
  shows "ttl_ok B s'"
proof -
  have "ttl_ok B (evictDedupLocked s i)" using assms(2) by (simp add: ttl_ok_def)
  then show ?thesis
    using applyCommand_data [OF assms(1)] applyLocked_ttl assms(2,3) ttl_ok_cong by metis
qed

lemma run_ttl:
  assumes "run s cs = Inr (s', rs)" and "ttl_ok B s"
    and "\<And>i c. (i, c) \<in> set cs \<Longrightarrow> cmd_cacheable c \<Longrightarrow> cmd_ttlSeconds c \<le> B"
  shows "ttl_ok B s'"
  using assms
proof (induction cs arbitrary: s rs)
  case (Cons x cs)
  obtain i c where x: "x = (i, c)" by (cases x)
  then obtain t r rs' where t: "applyCommand s i c = Inr (t, r)" "run t cs = Inr (s', rs')"
    using Cons.prems(1) by (auto simp: bind_res_eq_Inr)
  have "ttl_ok B t" using applyCommand_ttl [OF t(1)] Cons.prems(2,3) x by auto
  then show ?case using Cons.IH [OF t(2)] Cons.prems(3) by auto
qed simp

lemma gateway_command_ttl:
  assumes "c \<in> set (sv_commands (ServeHTTP cfg bk do newID r))" and "cmd_cacheable c"
    and "sc_DefaultTTLSeconds cfg \<le> B" and "sc_MaxTTLSeconds cfg \<le> B"
  shows "cmd_ttlSeconds c \<le> B"
proof -
  obtain key where "put_command cfg newID key r = Inr c"
    using assms(1,2) by (auto simp: ServeHTTP_def Let_def handlePut_def handleDelete_def delete_command_def zero_command_def
        split: option.splits sum.splits if_splits)
  from put_command_cache [OF this assms(2)] assms(3,4) show ?thesis by auto
qed

lemma history_ttl:
  assumes "gateway_history C hist" and "ttl_limits B C" and "run New (take n (hist k)) = Inr (s, rs)"
    and "Get s k = Inr e" and "en_Cacheable e"
  shows "en_TTLSeconds e \<le> B"
proof -
  have "cmd_ttlSeconds c \<le> B" if ic: "(i, c) \<in> set (take n (hist k))" "cmd_cacheable c" for i c
  proof -
    obtain cfg bk do newID r c0 ts where c: "cfg \<in> C" "c0 \<in> set (sv_commands (ServeHTTP cfg bk do newID r))"
        "c = c0\<lparr>cmd_timestampUnixMs := ts\<rparr>"
      using assms(1) in_set_takeD [OF ic(1)] unfolding gateway_history_def by blast
    then show ?thesis using gateway_command_ttl [OF c(2), of B] assms(2) ic(2) by (auto simp: ttl_limits_def)
  qed
  moreover have "ttl_ok B New" by (simp add: ttl_ok_def New_def)
  ultimately have "ttl_ok B s" using run_ttl [OF assms(3)] by blast
  then show ?thesis using assms(4,5) by (auto simp: Get_def ttl_ok_def split: option.splits if_splits)
qed

section \<open>What the gateways answer\<close>

text \<open>The answer to an unconditional cache read: the entry of the store, or an error that no cache
  keeps.\<close>

definition entry_answer :: "(string \<Rightarrow> (u64 \<times> Command) list) \<Rightarrow> (string \<Rightarrow> time \<Rightarrow> nat) \<Rightarrow> time \<Rightarrow> HttpRequest \<Rightarrow> HttpResponse
    \<Rightarrow> StoreEntry \<Rightarrow> bool" where
  "entry_answer hist pos t r resp e \<longleftrightarrow>
     (let k = drop 10 (rq_path r) in
      (\<exists>s rs. run New (take (pos k t) (hist k)) = Inr (s, rs) \<and> Get s k = Inr e) \<and> en_Cacheable e \<and>
      hr_code resp = 200 \<and> hr_body resp = Some (toReadResponse k e) \<and>
      hdr_Get (hr_header resp) ''ETag'' = etag (en_Version e) \<and>
      cc_of resp = (if query_Get r ''v'' = [] then ''public, max-age='' @ FormatUint (unat (en_TTLSeconds e))
        else ''public, max-age=31536000, immutable'') \<and>
      (query_Get r ''v'' = [] \<or> ParseUint 64 (query_Get r ''v'') = Some (unat (en_Version e))))"

definition error_answer :: "HttpResponse \<Rightarrow> bool" where
  "error_answer resp \<longleftrightarrow> hr_code resp \<noteq> 200 \<and> hr_code resp \<noteq> 304 \<and> cc_of resp \<in> {'''', ''no-store''}"

lemma cache_route:
  assumes "rq_method r = ''GET''" and "HasPrefix (rq_path r) ''/v1/cache/''"
  shows "ServeHTTP cfg bk do newID r = handleCacheGet cfg bk do (drop 10 (rq_path r)) r"
proof -
  obtain t where t: "rq_path r = ''/v1/cache/'' @ t" using assms(2) by (auto elim: HasPrefixE)
  then have "CutPrefix (rq_path r) ''/v1/kv/'' = None" by (simp add: CutPrefix_def HasPrefix_def)
  then show ?thesis using assms t by (simp add: ServeHTTP_def CutPrefix_def Let_def)
qed

lemma raft_error_code:
  "sv_forwards (handleRaftError cfg bk do h r body key rid err) = [] \<Longrightarrow>
     hr_code (sv_resp (handleRaftError cfg bk do h r body key rid err)) \<in> {421, 503}"
  by (auto simp: handleRaftError_def forward_def unavailable_def writeJSON_def Let_def split: go_error.splits if_splits)

lemma read_entry_code:
  assumes "read_entry cfg bk do h r key = Inl s" and "sv_forwards s = []"
  shows "hr_code (sv_resp s) \<in> {404, 421, 503}"
  using assms raft_error_code [of cfg bk do _ r empty_body key "[]"]
  by (auto simp: read_entry_def writeError_def writeJSON_def Let_def split: sum.splits if_splits)

lemma cache_get_no_store:
  assumes "sv_forwards (handleCacheGet cfg bk do key r) = []"
    and "cc_of (sv_resp (handleCacheGet cfg bk do key r)) = ''no-store''"
  shows "hr_code (sv_resp (handleCacheGet cfg bk do key r)) \<notin> {200, 304}"
proof -
  let ?init = "hdr_Set Map.empty ''Cache-Control'' ''no-store''"
  consider (closed) "\<not> namespaceCacheable cfg key"
    | (served) s where "namespaceCacheable cfg key" "read_entry cfg bk do ?init r key = Inl s"
    | (entry) e h where "namespaceCacheable cfg key" "read_entry cfg bk do ?init r key = Inr (e, h)"
    by (cases "read_entry cfg bk do ?init r key") auto
  then show ?thesis
  proof cases
    case closed
    then show ?thesis by (simp add: handleCacheGet_def writeError_def writeJSON_def)
  next
    case served
    then have "handleCacheGet cfg bk do key r = s" by (simp add: handleCacheGet_def)
    then show ?thesis using assms(1) read_entry_code [OF served(2)] by auto
  next
    case entry
    then show ?thesis using assms(2)
      by (auto simp: handleCacheGet_def writeError_def writeJSON_def cache_control_def hdr_Get_Set Let_def
          split: option.splits if_splits)
  qed
qed

lemma etag_nonempty [simp]: "etag v \<noteq> []"
  by (simp add: etag_def)

lemma node_answer_cases:
  assumes "node_answers hist pos cfg t r resp" and "rq_method r = ''GET''" and "HasPrefix (rq_path r) ''/v1/cache/''"
    and "hdr_Get (rq_header r) ''If-None-Match'' = []"
  shows "error_answer resp \<or> (\<exists>e. entry_answer hist pos t r resp e)"
proof -
  let ?k = "drop 10 (rq_path r)"
  obtain bk do where bk: "\<And>k. stored hist pos t k (bk_Get bk k)"
      and fw: "sv_forwards (handleCacheGet cfg bk do ?k r) = []" and resp: "resp = sv_resp (handleCacheGet cfg bk do ?k r)"
    using assms(1) unfolding node_answers_def cache_route [OF assms(2,3)] by blast
  show ?thesis
  proof (cases "cc_of resp = ''no-store''")
    case True
    then show ?thesis using cache_get_no_store [OF fw] by (simp add: resp error_answer_def)
  next
    case False
    then have "cache_answer cfg bk r ?k resp" using handleCacheGet_cc [OF fw] resp by simp
    then obtain e where e: "bk_Get bk ?k = Inr e" "en_Cacheable e" "hr_code resp = 200"
        "hr_body resp = Some (toReadResponse ?k e)" "hdr_Get (hr_header resp) ''ETag'' = etag (en_Version e)"
        "cc_of resp = (if query_Get r ''v'' = [] then ''public, max-age='' @ FormatUint (unat (en_TTLSeconds e))
          else ''public, max-age=31536000, immutable'')"
        "query_Get r ''v'' = [] \<or> ParseUint 64 (query_Get r ''v'') = Some (unat (en_Version e))"
      using assms(4) by (auto simp: cache_answer_def etag_nonempty [symmetric] simp del: etag_nonempty split: if_splits)
    moreover have "\<exists>s rs. run New (take (pos ?k t) (hist ?k)) = Inr (s, rs) \<and> Get s ?k = Inr e"
      using bk [of ?k] e(1) by (auto simp: stored_def)
    ultimately show ?thesis unfolding entry_answer_def Let_def by metis
  qed
qed

lemma hdr_Get_add:
  "hdr_Get (h ++ h') k = (if h' (CanonicalHeaderKey k) = None then hdr_Get h k else hdr_Get h' k)"
  by (auto simp: hdr_Get_def map_add_def split: option.splits)

lemma hdr_Get_add_set: "hdr_Get h' k \<noteq> [] \<Longrightarrow> hdr_Get (h ++ h') k = hdr_Get h' k"
  by (auto simp: hdr_Get_add) (simp add: hdr_Get_def)

text \<open>A forwarded answer carries the headers of the leader over those already set.\<close>

lemma cache_get_forwarded:
  assumes "sv_forwards (handleCacheGet cfg bk do key r) = [(url, out)]"
  shows "\<exists>h. cc_of \<lparr>hr_code = 0, hr_header = h, hr_body = None\<rparr> = ''no-store'' \<and> hdr_Get h ''ETag'' = [] \<and>
    sv_resp (handleCacheGet cfg bk do key r) = (case do url out of
        DoBadURL \<Rightarrow> writeError h 500 ''forward_failed''
      | DoFailed \<Rightarrow> unavailable h
      | DoResp resp \<Rightarrow> resp\<lparr>hr_header := h ++ hr_header resp\<rparr>)"
proof -
  let ?init = "hdr_Set Map.empty ''Cache-Control'' ''no-store''"
  let ?h = "hdr_Set ?init headerShard (FormatUint (bk_Shard bk key))"
  have ns: "namespaceCacheable cfg key"
    using assms by (cases "namespaceCacheable cfg key") (simp_all add: handleCacheGet_def)
  obtain err where "read_entry cfg bk do ?init r key = Inl (handleRaftError cfg bk do ?h r empty_body key [] err)"
  proof (cases "read_entry cfg bk do ?init r key")
    case (Inl s)
    then have "sv_forwards s \<noteq> []" using ns assms by (auto simp: handleCacheGet_def)
    then show ?thesis using that Inl by (auto simp: read_entry_def Let_def split: sum.splits if_splits)
  next
    case (Inr p)
    then have "sv_forwards (handleCacheGet cfg bk do key r) = []"
      using ns by (simp add: handleCacheGet_def Let_def split: prod.split option.split)
    then show ?thesis using assms by simp
  qed
  then have err: "handleCacheGet cfg bk do key r = handleRaftError cfg bk do ?h r empty_body key [] err"
    using ns by (simp add: handleCacheGet_def)
  have f: "sv_resp (handleRaftError cfg bk do ?h r empty_body key [] err) = (case do url out of
        DoBadURL \<Rightarrow> writeError ?h 500 ''forward_failed''
      | DoFailed \<Rightarrow> unavailable ?h
      | DoResp resp \<Rightarrow> resp\<lparr>hr_header := ?h ++ hr_header resp\<rparr>)"
    using assms unfolding err
    by (auto simp: handleRaftError_def forward_def Let_def split: go_error.splits if_splits)
  show ?thesis unfolding err by (rule exI [of _ ?h]) (simp add: f hdr_Get_Set)
qed

lemma entry_answer_header:
  assumes "entry_answer hist pos t r resp e" and "rq_path r' = rq_path r" and "query_Get r' ''v'' = query_Get r ''v''"
  shows "entry_answer hist pos t r' (resp\<lparr>hr_header := h ++ hr_header resp\<rparr>) e"
proof -
  have "hdr_Get (hr_header resp) ''ETag'' \<noteq> []" "cc_of resp \<noteq> []"
    using assms(1) by (auto simp: entry_answer_def Let_def)
  then show ?thesis using assms by (simp add: entry_answer_def Let_def hdr_Get_add_set)
qed

lemma error_answer_header:
  assumes "error_answer resp" and "hdr_Get h ''Cache-Control'' = ''no-store''"
  shows "error_answer (resp\<lparr>hr_header := h ++ hr_header resp\<rparr>)"
  using assms by (auto simp: error_answer_def hdr_Get_add)

lemma gateway_answer_cases:
  assumes "gateway_answers C hist pos t r resp" and r: "rq_method r = ''GET''" "HasPrefix (rq_path r) ''/v1/cache/''"
    and "hdr_Get (rq_header r) ''If-None-Match'' = []"
  shows "error_answer resp \<or> (\<exists>e. entry_answer hist pos t r resp e)"
proof -
  let ?k = "drop 10 (rq_path r)"
  consider cfg where "node_answers hist pos cfg t r resp"
    | (fwd) cfg bk do newID url out where "sv_forwards (ServeHTTP cfg bk do newID r) = [(url, out)]"
        "case do url out of DoResp resp' \<Rightarrow> \<exists>cfg' \<in> C. node_answers hist pos cfg' t out resp' | _ \<Rightarrow> True"
        "resp = sv_resp (ServeHTTP cfg bk do newID r)"
    using assms(1) by (auto simp: gateway_answers_def)
  then show ?thesis
  proof cases
    case fwd
    note f = fwd [unfolded cache_route [OF r]]
    obtain h where h: "hdr_Get h ''Cache-Control'' = ''no-store''" "resp = (case do url out of
          DoBadURL \<Rightarrow> writeError h 500 ''forward_failed'' | DoFailed \<Rightarrow> unavailable h
        | DoResp resp \<Rightarrow> resp\<lparr>hr_header := h ++ hr_header resp\<rparr>)"
      using cache_get_forwarded [OF f(1)] f(3) by auto
    have "out = forward_request cfg r empty_body []" using read_forwards(2) [of url out cfg bk do ?k r] f(1) by simp
    then have o: "rq_method out = ''GET''" "rq_path out = rq_path r" "query_Get out ''v'' = query_Get r ''v''"
        "hdr_Get (rq_header out) ''If-None-Match'' = []"
      using assms(2,4) by (simp_all add: forward_request_headers)
    show ?thesis
    proof (cases "do url out")
      case (DoResp resp')
      then obtain cfg' where "node_answers hist pos cfg' t out resp'" using f(2) by auto
      from node_answer_cases [OF this] have "error_answer resp' \<or> (\<exists>e. entry_answer hist pos t out resp' e)"
        using o assms(3) by simp
      then show ?thesis
        using h DoResp o entry_answer_header [of hist pos t out resp' _ r h] error_answer_header [of resp' h] by auto
    qed (use h in \<open>simp_all add: error_answer_def unavailable_def writeError_def writeJSON_def hdr_Get_Set\<close>)
  qed (use node_answer_cases assms in blast)
qed

section \<open>The gateways are an origin\<close>

lemma run_append:
  "run s (xs @ ys) = bind_res (run s xs) (\<lambda>(s', rs). bind_res (run s' ys) (\<lambda>(s'', rs'). Inr (s'', rs @ rs')))"
proof (induction xs arbitrary: s)
  case Nil
  then show ?case by (auto simp: bind_res_def split: sum.split)
next
  case (Cons x xs)
  then show ?case by (cases x) (auto simp: bind_res_def split: sum.split)
qed

lemma prefix_same_entry:
  assumes "run New (take m h) = Inr (s, rs)" and "run New (take n h) = Inr (s', rs')" and "m \<le> n" and "length h < 2 ^ 64"
    and "Get s k = Inr e" and "Get s' k = Inr e'" and "en_Version e = en_Version e'"
  shows "e = e'"
proof -
  have "take n h = take m h @ drop m (take n h)"
    using assms(3) by (metis append_take_drop_id min.absorb1 take_take)
  with assms(1,2) obtain rs'' where r: "run s (drop m (take n h)) = Inr (s', rs'')"
    using run_append [of New "take m h" "drop m (take n h)"] by (cases "run s (drop m (take n h))") auto
  have "writes New k = 0" by (simp add: writes_def New_def)
  then have "writes s k \<le> length (take m h)"
    using run_version [OF assms(1), of k] assms(4) by auto
  moreover have "writes s k = unat (en_Version e)"
    using assms(5) by (auto simp: Get_def writes_def split: option.splits if_splits)
  ultimately have "unat (en_Version e) + length (drop m (take n h)) < 2 ^ 64"
    using assms(3,4) by auto
  from same_version_same_entry [OF r assms(5-7) this] show ?thesis .
qed

lemma entry_answer_parts:
  assumes "entry_answer hist pos t r resp e"
  shows "hr_body resp = Some (toReadResponse (drop 10 (rq_path r)) e)" "hr_code resp = 200"
    "hdr_Get (hr_header resp) ''ETag'' = etag (en_Version e)"
  using assms by (simp_all add: entry_answer_def Let_def)

lemma etag_inj: "etag v = etag w \<Longrightarrow> v = w"
  by (auto simp: etag_def unat_u64_eq dest!: FormatUint_inj)

lemma entry_answers_agree:
  assumes "gateway_history C hist" and "entry_answer hist pos t r resp e" and "entry_answer hist pos t' r' resp' e'"
    and "rq_path r' = rq_path r" and "en_Version e = en_Version e'"
  shows "e = e'"
proof -
  let ?k = "drop 10 (rq_path r)"
  obtain s rs s' rs' where r: "run New (take (pos ?k t) (hist ?k)) = Inr (s, rs)" "Get s ?k = Inr e"
      "run New (take (pos ?k t') (hist ?k)) = Inr (s', rs')" "Get s' ?k = Inr e'"
    using assms(2-4) by (auto simp: entry_answer_def Let_def)
  have "length (hist ?k) < 2 ^ 64" using assms(1) by (simp add: gateway_history_def)
  then show ?thesis
    using prefix_same_entry [OF r(1,3) _ _ r(2,4)] prefix_same_entry [OF r(3,1) _ _ r(4,2)] assms(5)
    by (metis nat_le_linear)
qed

lemma gateway_originE:
  assumes "gateway_origin B C hist pos u t resp"
  obtains "error_answer resp"
  | r e where "cache_request r" "rq_uri r = u" "entry_answer hist pos t r resp e" "en_TTLSeconds e \<le> B"
      "gateway_history C hist"
proof -
  obtain r where r: "cache_request r" "rq_uri r = u" "gateway_answers C hist pos t r resp"
      "hdr_Get (rq_header r) ''If-None-Match'' = []" and h: "gateway_history C hist" "ttl_limits B C"
    using assms by (auto simp: gateway_origin_def)
  from gateway_answer_cases [OF r(3) _ _ r(4)] r(1) consider "error_answer resp" | e where "entry_answer hist pos t r resp e"
    by (auto simp: cache_request_def)
  then show thesis
  proof cases
    case (2 e)
    then have "en_TTLSeconds e \<le> B" using history_ttl [OF h] by (auto simp: entry_answer_def Let_def)
    then show thesis using that(2) r 2 h by blast
  qed (rule that(1))
qed

lemma maxAge_error:
  assumes "error_answer resp"
  shows "maxAge (hr_header resp) = 0"
proof -
  have "max_age_parts (str_Split CHR '','' ''no-store'') = 0" "max_age_parts (str_Split CHR '','' []) = 0" by code_simp+
  then show ?thesis using assms by (auto simp: error_answer_def maxAge_def)
qed

lemma maxAge_entry:
  assumes "entry_answer hist pos t r resp e"
  shows "maxAge (hr_header resp) =
    (if query_Get r ''v'' = [] then int (unat (en_TTLSeconds e)) else 31536000) * 1000000000"
proof (cases "query_Get r ''v'' = []")
  case True
  have "unat (en_TTLSeconds e) < 2 ^ 32" using unsigned_less [of "en_TTLSeconds e", where ?'a = nat] by simp
  then show ?thesis using assms True maxAge_server [of "hr_header resp"] by (simp add: entry_answer_def Let_def)
next
  case False
  have "str_Split CHR '','' ''public, max-age=31536000, immutable'' = [''public'', '' max-age=31536000'', '' immutable'']"
    "CutPrefix (TrimSpace ''public'') ''max-age='' = None"
    "CutPrefix (TrimSpace '' max-age=31536000'') ''max-age='' = Some ''31536000''" by code_simp+
  moreover have "Atoi ''31536000'' = Some 31536000" by (simp add: Atoi_def digits_val_def is_digit_def)
  moreover have "wrap64 31536000000000000 = 31536000000000000" by (rule wrap64_id) simp_all
  ultimately have "max_age_parts (str_Split CHR '','' ''public, max-age=31536000, immutable'') = 31536000000000000" by simp
  then show ?thesis using assms False by (simp add: entry_answer_def Let_def maxAge_def)
qed

lemma same_uri_same_request:
  assumes "cache_request r" and "cache_request r'" and "rq_uri r' = rq_uri r"
  shows "rq_path r' = rq_path r \<and> query_Get r' k = query_Get r k"
  using assms by (auto simp: cache_request_def query_Get_def)

interpretation gw: cache_origin "gateway_origin B C hist pos" "age_bound B" for B C hist pos
proof unfold_locales
  fix u t resp t' resp'
  assume o: "gateway_origin B C hist pos u t resp"
  from o show "hr_code resp \<noteq> 304"
    by (cases rule: gateway_originE) (auto simp: error_answer_def entry_answer_parts)
  from o show "hr_code resp = 200 \<Longrightarrow> hdr_Get (hr_header resp) ''ETag'' \<noteq> []"
    by (cases rule: gateway_originE) (auto simp: error_answer_def entry_answer_parts)
  from o show "maxAge (hr_header resp) \<le> age_bound B u"
  proof (cases rule: gateway_originE)
    case (2 r e)
    then have "query_Get r ''v'' = get0 (ParseQuery (snd (uri_parts u))) [] ''v''"
      by (auto simp: query_Get_def cache_request_def)
    moreover have "unat (en_TTLSeconds e) \<le> unat B" using 2 by (simp add: word_le_nat_alt)
    then have "int (unat (en_TTLSeconds e)) \<le> int (unat B)" by (simp only: of_nat_le_iff)
    ultimately show ?thesis using maxAge_entry [OF 2(3)] by (simp add: age_bound_def)
  qed (simp add: maxAge_error age_bound_def)
  assume o': "gateway_origin B C hist pos u t' resp'" and c: "hr_code resp = 200" "hr_code resp' = 200"
    and tag: "hdr_Get (hr_header resp) ''ETag'' = hdr_Get (hr_header resp') ''ETag''"
  from o c obtain r e where r: "cache_request r" "rq_uri r = u" "entry_answer hist pos t r resp e" "gateway_history C hist"
    by (cases rule: gateway_originE) (auto simp: error_answer_def)
  from o' c obtain r' e' where r': "cache_request r'" "rq_uri r' = u" "entry_answer hist pos t' r' resp' e'"
    by (cases rule: gateway_originE) (auto simp: error_answer_def)
  have p: "rq_path r' = rq_path r" using same_uri_same_request r r' by metis
  have "en_Version e = en_Version e'"
    using tag entry_answer_parts(3) [OF r(3)] entry_answer_parts(3) [OF r'(3)] etag_inj by metis
  from entry_answers_agree [OF r(4,3) r'(3) p this] show "hr_body resp = hr_body resp'"
    using entry_answer_parts(1) [OF r(3)] entry_answer_parts(1) [OF r'(3)] p by simp
qed

text \<open>C2. Bounded staleness, from the store to the viewer. In every run of the edge cache in front of
  the gateways, with any number of requests in flight, lost answers and invalidations, also
  failed, delayed or none at all, a hit at time \<open>T\<close> shows the entry that the key had in the store
  at some time \<open>t\<close> with \<open>T - bound < t \<le> T\<close>. The bound is the larger of the configured default and
  maximal TTL; for a URL with \<open>?v=N\<close> it is a year, and the version of the entry is \<open>N\<close>.\<close>

theorem cached_read_staleness:
  assumes "edge_reach (gateway_origin B C hist pos) s" and "cache_request r"
    and "edge_lookup (es_edge s) r (es_clock s) = (e, Answer resp)" and "k = drop 10 (rq_path r)"
  shows "\<exists>t store rs ent. es_clock s - age_bound B (rq_uri r) < t \<and> t \<le> es_clock s \<and>
    run New (take (pos k t) (hist k)) = Inr (store, rs) \<and> Get store k = Inr ent \<and> en_Cacheable ent \<and>
    hr_body resp = Some (toReadResponse k ent) \<and>
    (query_Get r ''v'' = [] \<or> ParseUint 64 (query_Get r ''v'') = Some (unat (en_Version ent)))"
proof -
  obtain t full where t: "es_clock s - age_bound B (rq_uri r) < t" "t \<le> es_clock s" "hr_code full = 200"
      "gateway_origin B C hist pos (rq_uri r) t full" "hr_body resp = hr_body full"
    using gw.hit_bounded [OF assms(1,3)] by blast
  from t(4,3) obtain r' ent where r': "cache_request r'" "rq_uri r' = rq_uri r" "entry_answer hist pos t r' full ent"
    by (cases rule: gateway_originE) (auto simp: error_answer_def)
  have "rq_path r' = rq_path r" "query_Get r' ''v'' = query_Get r ''v''"
    using same_uri_same_request [OF assms(2) r'(1,2)] by blast+
  then show ?thesis using t r'(3) assms(4) by (auto simp: entry_answer_def Let_def)
qed

section \<open>Conditional reads\<close>

lemma content_type_last:
  assumes "h ''Content-Type'' = None"
  shows "hdr_Del (hdr_Set (hdr_Set (hdr_Set (hdr_Set (hdr_Set h ''Cache-Control'' a) ''ETag'' b) headerVersion c)
      ''Last-Modified'' d) ''Content-Type'' x) ''Content-Type'' =
    hdr_Set (hdr_Set (hdr_Set (hdr_Set h ''Cache-Control'' a) ''ETag'' b) headerVersion c) ''Last-Modified'' d"
  using assms by (auto simp: hdr_Set_def hdr_Del_def)

lemma read_entry_unconditional:
  assumes "read_entry cfg bk do h r key = x" and "\<And>s. x = Inl s \<Longrightarrow> sv_forwards s = []"
    and "r' = r\<lparr>rq_header := hdr_Del (rq_header r) ''If-None-Match''\<rparr>"
  shows "read_entry cfg bk do h r' key = x"
proof -
  have "hdr_Get (rq_header r') headerForwarded = hdr_Get (rq_header r) headerForwarded"
    "hdr_Get (rq_header r') headerNoForward = hdr_Get (rq_header r) headerNoForward"
    by (simp_all add: assms(3) hdr_Get_Del)
  then show ?thesis
    using assms(1,2)
    by (auto simp: read_entry_def handleRaftError_def forward_def Let_def split: sum.splits go_error.splits if_splits)
qed

text \<open>C28. Revalidation agrees with reading. What a node answers itself to a conditional cache read is
  determined by its answer to the same read without the tag: 304 with the same headers but the content type exactly if
  that is a 200 whose \<open>ETag\<close> is the tag sent, and that very answer otherwise.\<close>

theorem conditional_read:
  assumes "sv_forwards (handleCacheGet cfg bk do key r) = []"
  shows "sv_resp (handleCacheGet cfg bk do key r) =
    conditional r (sv_resp (handleCacheGet cfg bk do key (r\<lparr>rq_header := hdr_Del (rq_header r) ''If-None-Match''\<rparr>)))"
proof -
  let ?init = "hdr_Set Map.empty ''Cache-Control'' ''no-store''"
  let ?r = "r\<lparr>rq_header := hdr_Del (rq_header r) ''If-None-Match''\<rparr>"
  have q: "query_Get ?r k = query_Get r k" for k by (simp add: query_Get_def)
  consider (closed) "\<not> namespaceCacheable cfg key"
    | (served) s where "namespaceCacheable cfg key" "read_entry cfg bk do ?init r key = Inl s"
    | (entry) e h where "namespaceCacheable cfg key" "read_entry cfg bk do ?init r key = Inr (e, h)"
    by (cases "read_entry cfg bk do ?init r key") auto
  then show ?thesis
  proof cases
    case closed
    then show ?thesis by (simp add: handleCacheGet_def conditional_def writeError_def writeJSON_def)
  next
    case served
    then have s: "handleCacheGet cfg bk do key r = s" by (simp add: handleCacheGet_def)
    with assms have f: "sv_forwards s = []" by simp
    have "read_entry cfg bk do ?init ?r key = Inl s" by (rule read_entry_unconditional [OF served(2)]) (use f in auto)
    then have "handleCacheGet cfg bk do key ?r = s" using served(1) by (simp add: handleCacheGet_def)
    then show ?thesis using s read_entry_code [OF served(2) f] by (auto simp: conditional_def Let_def)
  next
    case entry
    then have "read_entry cfg bk do ?init ?r key = Inr (e, h)" by (intro read_entry_unconditional [OF entry(2)]) auto
    moreover have "h ''Content-Type'' = None"
      using entry(2) by (auto simp: read_entry_def hdr_Set_def Let_def split: sum.splits if_splits)
    ultimately show ?thesis using entry
      by (cases "cache_control (query_Get r ''v'') e")
         (simp_all add: handleCacheGet_def conditional_def q writeError_def writeJSON_def hdr_Get_Set hdr_Get_Del
            content_type_last Let_def)
  qed
qed

section \<open>A run of the cache\<close>

text \<open>The key \<open>config:a\<close> is written twice, at time 0 and at time 1 ns; the edge fetches the first
  version at time 0.\<close>

definition ex_history :: "string \<Rightarrow> (u64 \<times> Command) list" where
  "ex_history k = [(1, ex_cmd), (2, ex_cmd\<lparr>cmd_requestId := ''id2''\<rparr>)]"

definition ex_pos :: "string \<Rightarrow> time \<Rightarrow> nat" where
  "ex_pos k t = (if t < 1 then 1 else 2)"

definition ex_read :: "u64 \<Rightarrow> StoreEntry" where
  "ex_read v = \<lparr>en_Value = [120], en_Version = v, en_Cacheable = True, en_TTLSeconds = 300, en_UpdatedUnixMs = 0\<rparr>"

definition ex_store_node :: Backend where
  "ex_store_node = \<lparr>bk_Write = (\<lambda>_. Inl ErrContext), bk_Get = (\<lambda>k. if k = ''config:a'' then Inr (ex_read 1) else Inl ErrContext), bk_Shard = (\<lambda>_. 0)\<rparr>"

definition ex_full :: HttpResponse where
  "ex_full = sv_resp (ServeHTTP (ex_server ''n1'') ex_store_node (\<lambda>_ _. DoFailed) [] ex_cache_request)"

abbreviation ex_origin :: "string \<Rightarrow> time \<Rightarrow> HttpResponse \<Rightarrow> bool" where
  "ex_origin \<equiv> gateway_origin 300 {ex_server ''n1''} ex_history ex_pos"

lemma ex_history_reads:
  "\<exists>s rs. run New (take (ex_pos k t) (ex_history k)) = Inr (s, rs) \<and> Get s ''config:a'' = Inr (ex_read (if t < 1 then 1 else 2))"
proof -
  have "case run New [(1, ex_cmd)] of Inr (s, rs) \<Rightarrow> Get s ''config:a'' = Inr (ex_read 1) | Inl _ \<Rightarrow> False"
    "case run New [(1, ex_cmd), (2, ex_cmd\<lparr>cmd_requestId := ''id2''\<rparr>)] of Inr (s, rs) \<Rightarrow> Get s ''config:a'' = Inr (ex_read 2) | Inl _ \<Rightarrow> False"
    by code_simp+
  then show ?thesis by (auto simp: ex_history_def ex_pos_def split: sum.splits)
qed

lemma ex_gateway_history: "gateway_history {ex_server ''n1''} ex_history"
proof -
  have "\<exists>bk do newID r c0 ts. c0 \<in> set (sv_commands (ServeHTTP (ex_server ''n1'') bk do newID r)) \<and>
      ex_cmd\<lparr>cmd_requestId := i\<rparr> = c0\<lparr>cmd_timestampUnixMs := ts\<rparr>" if "i \<noteq> []" for i
  proof -
    have "unmarshal_put (rq_body ex_put_request) = Some \<lparr>pr_RequestID = [], pr_Value = ''x'',
        pr_CachePolicy = Some \<lparr>cp_Cacheable = True, cp_TTLSeconds = 900\<rparr>\<rparr>"
      and "namespaceCacheable (ex_server ''n1'') ''config:a''" and "key_bytes ''x'' = [120]"
      and "sc_MaxTTLSeconds (ex_server ''n1'') = 300" and p: "CutPrefix (rq_path ex_put_request) ''/v1/kv/'' = Some ''config:a''"
      by code_simp+
    then have "put_command (ex_server ''n1'') i ''config:a'' ex_put_request = Inr (ex_cmd\<lparr>cmd_requestId := i\<rparr>)"
      using that by (simp add: put_command_def put_ttl_def ex_cmd_def query_Get_def Let_def ex_put_request_def maxBodyBytes_def)
    moreover have "rq_method ex_put_request = ''PUT''" by (simp add: ex_put_request_def)
    ultimately have "sv_commands (ServeHTTP (ex_server ''n1'') bk do i ex_put_request) = [ex_cmd\<lparr>cmd_requestId := i\<rparr>]" for bk do
      using p by (simp add: ServeHTTP_def handlePut_def)
    then show ?thesis
      by (intro exI [of _ ex_follower_node] exI [of _ "\<lambda>_ _. DoFailed"] exI [of _ i] exI [of _ ex_put_request]
            exI [of _ "ex_cmd\<lparr>cmd_requestId := i\<rparr>"] exI [of _ 0]) (simp add: ex_cmd_def zero_command_def)
  qed
  note issued = this
  have "ex_cmd\<lparr>cmd_requestId := ''id1''\<rparr> = ex_cmd" by (simp add: ex_cmd_def zero_command_def)
  with issued [of "''id1''"] issued [of "''id2''"] show ?thesis
    unfolding gateway_history_def by (auto simp: ex_history_def)
qed

lemma ex_cache_request_ok: "cache_request ex_cache_request" "edge_cacheable ex_cache_request"
proof -
  have "HasPrefix (rq_path ex_cache_request) ''/v1/cache/''" "rq_method ex_cache_request = ''GET''"
    "unescape False (fst (uri_parts (rq_uri ex_cache_request))) = Some (rq_path ex_cache_request)"
    "str_Split CHR ''&'' (snd (uri_parts (rq_uri ex_cache_request))) = [[]]"
    by code_simp+
  then show "cache_request ex_cache_request" "edge_cacheable ex_cache_request"
    by (simp_all add: cache_request_def edge_cacheable_def ParseQuery_def query_part_def) (simp add: ex_cache_request_def)
qed

lemma ex_full_eq:
  "hr_code ex_full = 200" "hr_body ex_full = Some (toReadResponse ''config:a'' (ex_read 1))"
  "cc_of ex_full = ''public, max-age='' @ FormatUint 300" "hdr_Get (hr_header ex_full) ''ETag'' = etag 1"
  "sv_forwards (ServeHTTP (ex_server ''n1'') ex_store_node (\<lambda>_ _. DoFailed) [] ex_cache_request) = []"
proof -
  have "drop 10 (rq_path ex_cache_request) = ''config:a''" "namespaceCacheable (ex_server ''n1'') ''config:a''"
    by code_simp+
  then show "hr_code ex_full = 200" "hr_body ex_full = Some (toReadResponse ''config:a'' (ex_read 1))"
    "cc_of ex_full = ''public, max-age='' @ FormatUint 300" "hdr_Get (hr_header ex_full) ''ETag'' = etag 1"
    "sv_forwards (ServeHTTP (ex_server ''n1'') ex_store_node (\<lambda>_ _. DoFailed) [] ex_cache_request) = []"
    using ex_cache_request_ok(1)
    by (simp_all add: ex_full_def cache_route cache_request_def handleCacheGet_def read_entry_def cache_control_def
        ex_store_node_def ex_read_def query_Get_def ParseQuery_def hdr_Get_Set writeJSON_def Let_def)
      (simp_all add: ex_cache_request_def uri_parts_def query_part_def)
qed

lemma ex_origin_answers: "ex_origin ''/v1/cache/config:a'' 0 ex_full"
proof -
  have "stored ex_history ex_pos 0 k (bk_Get ex_store_node k)" for k
    using ex_history_reads [of k 0] by (auto simp: stored_def ex_store_node_def)
  then have "node_answers ex_history ex_pos (ex_server ''n1'') 0 ex_cache_request ex_full"
    unfolding node_answers_def ex_full_def using ex_full_eq(5) by blast
  moreover have "ttl_limits 300 {ex_server ''n1''}" by (simp add: ttl_limits_def ex_server_def server_New_def)
  moreover have "rq_uri ex_cache_request = ''/v1/cache/config:a''" "hdr_Get (rq_header ex_cache_request) ''If-None-Match'' = []"
    by (simp_all add: ex_cache_request_def)
  ultimately show ?thesis
    using ex_gateway_history ex_cache_request_ok(1) unfolding gateway_origin_def gateway_answers_def by blast
qed

text \<open>The state after the fetch, and the clock moved to \<open>T\<close>.\<close>

abbreviation ex_u :: string where
  "ex_u \<equiv> ''/v1/cache/config:a''"

definition ex_fetched :: Edge where
  "ex_fetched = fst (edge_finish (ex_edge\<lparr>eg_originRequests := 1, eg_next := 1\<rparr>) ex_cache_request 0 None (Some ex_full))"

lemma ex_max_age: "maxAge (hr_header ex_full) = 300000000000"
  using maxAge_server [OF ex_full_eq(3)] by simp

lemma ex_cc: "\<not> str_Contains (cc_of ex_full) ''no-store''"
proof -
  have "FormatUint 300 = ''300''" by (simp add: FormatUint.simps digit_def char_of_def bit_0)
  moreover have "\<not> str_Contains ''public, max-age=300'' ''no-store''" by code_simp
  ultimately show ?thesis by (simp add: ex_full_eq(3))
qed

lemma ex_fetched_eq:
  "eg_cache ex_fetched ex_u = Some 0" "eg_origins ex_fetched = [''http://n1'', ''http://n2'']"
  "eg_heap ex_fetched 0 = \<lparr>ee_status = 200, ee_header = hr_header ex_full, ee_body = hr_body ex_full, ee_etag = etag 1,
     ee_fetched = 0, ee_expires = 300000000000\<rparr>"
proof -
  have "rq_uri ex_cache_request = ex_u" by (simp add: ex_cache_request_def)
  then show "eg_cache ex_fetched ex_u = Some 0" "eg_origins ex_fetched = [''http://n1'', ''http://n2'']"
    "eg_heap ex_fetched 0 = \<lparr>ee_status = 200, ee_header = hr_header ex_full, ee_body = hr_body ex_full, ee_etag = etag 1,
       ee_fetched = 0, ee_expires = 300000000000\<rparr>"
    using ex_cc by (simp_all add: ex_fetched_def edge_finish_def Let_def ex_full_eq ex_max_age ex_edge_def)
qed

lemma ex_reach:
  assumes "0 \<le> T"
  shows "edge_reach ex_origin \<lparr>es_edge = ex_fetched, es_clock = T, es_flights = []\<rparr>"
proof -
  let ?q = "ex_cache_request\<lparr>rq_header := hdr_Del (copyHeader (copyHeader Map.empty (rq_header ex_cache_request)) Map.empty) headerNoForward\<rparr>"
  let ?f = "\<lparr>fl_viewer = ex_cache_request, fl_sent = ?q, fl_start = 0, fl_held = None\<rparr>"
  let ?e = "ex_edge\<lparr>eg_originRequests := 1, eg_next := 1\<rparr>"
  let ?s = "\<lparr>es_edge = ex_edge, es_clock = 0, es_flights = []\<rparr>"
  let ?t = "\<lparr>es_edge = ?e, es_clock = 0, es_flights = [?f]\<rparr>"
  have "edge_reach ex_origin ?s" by (rule edge_start) (simp_all add: ex_edge_def)
  moreover have l: "edge_lookup ex_edge ex_cache_request 0 = (ex_edge, Ask None Map.empty)"
    using ex_cache_request_ok(2) by (simp add: edge_lookup_def ex_edge_def)
  have q: "edge_fetch ex_edge ex_cache_request Map.empty = Inr (?e, ''http://n2'', ?q)"
    by (simp add: edge_fetch_def ex_edge_def Let_def)
  have "edge_step ex_origin ?s (?s\<lparr>es_edge := ?e,
      es_flights := \<lparr>fl_viewer = ex_cache_request, fl_sent = ?q, fl_start = es_clock ?s, fl_held = None\<rparr> # es_flights ?s\<rparr>)"
    by (rule e_ask [OF _ q]) (simp add: l)
  ultimately have "edge_reach ex_origin ?t" using edge_more by fastforce
  moreover have "hdr_Get (rq_header ?q) ''If-None-Match'' = []"
    by (simp add: hdr_Get_Del copyHeader_def ex_cache_request_def)
  then have c: "conditional ?q ex_full = ex_full" by (simp add: conditional_def)
  have o: "ex_origin (rq_uri (fl_sent ?f)) 0 ex_full" using ex_origin_answers by (simp add: ex_cache_request_def)
  have "edge_step ex_origin ?t (?t\<lparr>es_edge := ex_fetched, es_flights := remove1 ?f (es_flights ?t)\<rparr>)"
    by (rule e_reply [where f = ?f and t = 0 and full = ex_full]) (use o in \<open>simp_all add: c ex_fetched_def prod_eq_iff\<close>)
  then have "edge_step ex_origin ?t \<lparr>es_edge = ex_fetched, es_clock = 0, es_flights = []\<rparr>" by simp
  ultimately have "edge_reach ex_origin \<lparr>es_edge = ex_fetched, es_clock = 0, es_flights = []\<rparr>" by (rule edge_more)
  from edge_more [OF this e_time [of _ T]] assms show ?thesis by simp
qed

theorem cached_read_staleness_witness:
  "\<exists>e resp t store rs ent. edge_lookup ex_fetched ex_cache_request 5 = (e, Answer resp) \<and>
     5 - age_bound 300 ex_u < t \<and> t \<le> 5 \<and>
     run New (take (ex_pos ''config:a'' t) (ex_history ''config:a'')) = Inr (store, rs) \<and>
     Get store ''config:a'' = Inr ent \<and> hr_body resp = Some (toReadResponse ''config:a'' ent)"
proof -
  have u: "rq_uri ex_cache_request = ex_u" and k: "''config:a'' = drop 10 (rq_path ex_cache_request)"
    by (simp_all add: ex_cache_request_def)
  obtain e resp where l: "edge_lookup ex_fetched ex_cache_request 5 = (e, Answer resp)"
    using ex_cache_request_ok(2) by (simp add: edge_lookup_def u ex_fetched_eq)
  from cached_read_staleness [OF ex_reach [of 5] ex_cache_request_ok(1) _ k, of e resp] l u show ?thesis by auto
qed

theorem conditional_read_witness:
  "sv_resp (handleCacheGet (ex_server ''n1'') ex_store_node (\<lambda>_ _. DoFailed) ''config:a''
       (ex_cache_request\<lparr>rq_header := [''If-None-Match'' \<mapsto> [etag 1]]\<rparr>)) =
     conditional (ex_cache_request\<lparr>rq_header := [''If-None-Match'' \<mapsto> [etag 1]]\<rparr>)
       (sv_resp (handleCacheGet (ex_server ''n1'') ex_store_node (\<lambda>_ _. DoFailed) ''config:a'' ex_cache_request))"
proof -
  let ?r = "ex_cache_request\<lparr>rq_header := [''If-None-Match'' \<mapsto> [etag 1]]\<rparr>"
  have "namespaceCacheable (ex_server ''n1'') ''config:a''" by code_simp
  then have "sv_forwards (handleCacheGet (ex_server ''n1'') ex_store_node (\<lambda>_ _. DoFailed) ''config:a'' ?r) = []"
    by (simp add: handleCacheGet_def read_entry_def ex_store_node_def ex_read_def cache_control_def query_Get_def
        ex_cache_request_def Let_def)
  moreover have "?r\<lparr>rq_header := hdr_Del (rq_header ?r) ''If-None-Match''\<rparr> = ex_cache_request"
    by (simp add: hdr_Del_def ex_cache_request_def)
  ultimately show ?thesis using conditional_read [of "ex_server ''n1''" ex_store_node "\<lambda>_ _. DoFailed" "''config:a''" ?r] by simp
qed

section \<open>Stale answers while the origin is down\<close>

text \<open>C29. No bound holds for the answers marked \<open>Stale\<close>. For every duration \<open>D\<close> there is a run in which
  the edge, not reaching the origin, answers a read with status 200 and a version of the key
  that no read of the store during the last \<open>D\<close> nanoseconds would have returned.\<close>

theorem stale_answer_unbounded:
  "\<exists>hist pos s f e out v. edge_reach (gateway_origin 300 {ex_server ''n1''} hist pos) s \<and> f \<in> set (es_flights s) \<and>
     fl_viewer f = ex_cache_request \<and> fl_start f = es_clock s \<and>
     edge_finish (es_edge s) (fl_viewer f) (fl_start f) (fl_held f) None = (e, out) \<and> hr_code out = 200 \<and>
     hr_body out = Some (toReadResponse ''config:a'' (ex_read v)) \<and>
     {es_clock s - D .. es_clock s} \<subseteq>
        {t. \<exists>store rs w. run New (take (pos ''config:a'' t) (hist ''config:a'')) = Inr (store, rs) \<and>
           Get store ''config:a'' = Inr (ex_read w) \<and> w \<noteq> v}"
proof -
  define T where "T = max 0 D + 300000000001"
  let ?s = "\<lparr>es_edge = ex_fetched, es_clock = T, es_flights = []\<rparr>"
  have u: "rq_uri ex_cache_request = ex_u" by (simp add: ex_cache_request_def)
  have expired: "\<not> T < 300000000000" by (simp add: T_def)
  have r: "edge_reach ex_origin ?s" by (rule ex_reach) (simp add: T_def)
  obtain extra where l: "edge_lookup (es_edge ?s) ex_cache_request (es_clock ?s) = (ex_fetched, Ask (Some 0) extra)"
    using ex_cache_request_ok(2) expired by (simp add: edge_lookup_def u ex_fetched_eq Let_def)
  obtain e' url q where q: "edge_fetch ex_fetched ex_cache_request extra = Inr (e', url, q)" "eg_heap e' = eg_heap ex_fetched"
    by (simp add: edge_fetch_def ex_fetched_eq Let_def)
  let ?f = "\<lparr>fl_viewer = ex_cache_request, fl_sent = q, fl_start = es_clock ?s, fl_held = Some 0\<rparr>"
  let ?t = "?s\<lparr>es_edge := e', es_flights := ?f # es_flights ?s\<rparr>"
  have "edge_reach ex_origin ?t" by (rule edge_more [OF r e_ask [OF l q(1)]])
  moreover have "edge_finish (es_edge ?t) (fl_viewer ?f) (fl_start ?f) (fl_held ?f) None = (e', serve (eg_heap ex_fetched 0) ''Stale'' T)"
    by (simp add: edge_finish_def q(2))
  moreover have "\<exists>store rs w. run New (take (ex_pos ''config:a'' t) (ex_history ''config:a'')) = Inr (store, rs) \<and>
      Get store ''config:a'' = Inr (ex_read w) \<and> w \<noteq> 1" if "T - D \<le> t" for t
  proof -
    have "\<not> t < 1" "(2 :: u64) \<noteq> 1" using that by (simp_all add: T_def)
    then show ?thesis using ex_history_reads [of "''config:a''" t] by (simp only: if_False) blast
  qed
  ultimately show ?thesis
    by (intro exI [of _ ex_history] exI [of _ ex_pos] exI [of _ ?t] exI [of _ ?f] exI [of _ e']
          exI [of _ "serve (eg_heap ex_fetched 0) ''Stale'' T"] exI [of _ 1])
       (simp add: serve_def ex_fetched_eq ex_full_eq subset_iff)
qed

end
