(* ===== verification/EK_Client.thy ===== *)
theory EK_Client
  imports EK_Edge
begin

text \<open>
  Package \<open>pkg/client\<close>: the leader-aware client. A request is built once and sent by \<open>do_loop\<close>
  to one node after another. What happens in the \<open>n\<close>-th attempt is the argument \<open>env n\<close>: the
  answer of \<open>http.Client.Do\<close> (a failure to read the body counts as a failed call), and whether the
  context has ended after the call or ends during the pause. The text of \<open>updated_at\<close> is not parsed
  into a time, and the sizes of the pauses are left out.
\<close>

section \<open>State and errors\<close>

text \<open>\<open>CPanic\<close>: an index out of range; \<open>CGiveUp\<close> carries the error that it wraps, if any.\<close>

datatype client_error = CNotFound | CVersionMismatch | CNotCacheable | CRedirect u32 string
  | CRefused string | CStatus nat | CTransport | CDecode | CContext | CGiveUp int "client_error option" | CPanic

record ClientEntry =
  ce_Value :: string
  ce_Version :: u64
  ce_UpdatedAt :: string
  ce_FromCache :: bool
  ce_CacheAge :: int

record Client =
  cl_nodes :: "string list"
  cl_edge :: string
  cl_retries :: int
  cl_leaders :: "u32 \<rightharpoonup> string"
  cl_shardOf :: "string \<rightharpoonup> u32"

definition WithEdge :: "string \<Rightarrow> Client \<Rightarrow> Client" where
  "WithEdge baseURL c = c\<lparr>cl_edge := baseURL\<rparr>"

definition WithRetries :: "int \<Rightarrow> Client \<Rightarrow> Client" where
  "WithRetries n c = c\<lparr>cl_retries := n\<rparr>"

definition client_New :: "string list \<Rightarrow> (Client \<Rightarrow> Client) list \<Rightarrow> Client" where
  "client_New nodes opts = foldl (\<lambda>c opt. opt c)
     \<lparr>cl_nodes = nodes, cl_edge = [], cl_retries = 8, cl_leaders = Map.empty, cl_shardOf = Map.empty\<rparr> opts"

section \<open>The leader cache\<close>

definition setLeader :: "Client \<Rightarrow> string \<Rightarrow> u32 \<Rightarrow> string \<Rightarrow> Client" where
  "setLeader c key shard leaderURL =
     (let c1 = c\<lparr>cl_shardOf := (cl_shardOf c)(key \<mapsto> shard)\<rparr> in
      if leaderURL \<noteq> [] then c1\<lparr>cl_leaders := (cl_leaders c)(shard \<mapsto> leaderURL)\<rparr>
      else c1\<lparr>cl_leaders := (cl_leaders c)(shard := None)\<rparr>)"

definition forget :: "Client \<Rightarrow> string \<Rightarrow> Client" where
  "forget c key = (case cl_shardOf c key of
     Some shard \<Rightarrow> c\<lparr>cl_leaders := (cl_leaders c)(shard := None)\<rparr> | None \<Rightarrow> c)"

definition learn :: "Client \<Rightarrow> string \<Rightarrow> header \<Rightarrow> string \<Rightarrow> Client" where
  "learn c key hdr target =
     (let shard = hdr_Get hdr ''X-Edgekv-Shard'' in
      if shard = [] then c
      else case ParseUint 32 shard of Some n \<Rightarrow> setLeader c key (of_nat n) target | None \<Rightarrow> c)"

text \<open>\<open>None\<close>: there is no node, and \<open>c.nodes[0]\<close> panics.\<close>

definition pickNode :: "Client \<Rightarrow> string \<Rightarrow> string option" where
  "pickNode c key =
     (case Option.bind (cl_shardOf c key) (cl_leaders c) of
        Some leader \<Rightarrow> Some leader
      | None \<Rightarrow> (if cl_nodes c = [] then None else Some (cl_nodes c ! 0)))"

section \<open>Decoding answers\<close>

text \<open>\<open>json.Unmarshal\<close> into a struct, field by field; \<open>True\<close> is an error. What was stored before
  the error stays.\<close>

definition unmarshal_into :: "('o \<times> bool \<Rightarrow> string \<times> json \<Rightarrow> 'o \<times> bool) \<Rightarrow> json option \<Rightarrow> 'o \<Rightarrow> 'o \<times> bool" where
  "unmarshal_into fld j old =
     (case j of
        Some (JObj fs) \<Rightarrow> foldl fld (old, False) fs
      | Some JNull \<Rightarrow> (old, False)
      | _ \<Rightarrow> (old, True))"

definition store_u64 :: "json \<Rightarrow> u64 \<Rightarrow> u64 \<times> bool" where
  "store_u64 j old =
     (case j of JInt n \<Rightarrow> if 0 \<le> n \<and> n < 2 ^ 64 then (word_of_int n, False) else (old, True)
      | JNull \<Rightarrow> (old, False) | _ \<Rightarrow> (old, True))"

definition version_field :: "u64 \<times> bool \<Rightarrow> string \<times> json \<Rightarrow> u64 \<times> bool" where
  "version_field = (\<lambda>(v, bad) (k, j).
     if field_is k ''version'' then let (v', e) = store_u64 j v in (v', bad \<or> e) else (v, bad))"

record readBody =
  rb_Value :: string
  rb_Version :: u64
  rb_UpdatedAt :: string

definition read_field :: "readBody \<times> bool \<Rightarrow> string \<times> json \<Rightarrow> readBody \<times> bool" where
  "read_field = (\<lambda>(b, bad) (k, j).
     if field_is k ''value'' then let (s, e) = store_string j (rb_Value b) in (b\<lparr>rb_Value := s\<rparr>, bad \<or> e)
     else if field_is k ''version'' then let (v, e) = store_u64 j (rb_Version b) in (b\<lparr>rb_Version := v\<rparr>, bad \<or> e)
     else if field_is k ''updated_at'' then let (s, e) = store_string j (rb_UpdatedAt b) in (b\<lparr>rb_UpdatedAt := s\<rparr>, bad \<or> e)
     else (b, bad))"

definition error_field :: "string \<times> bool \<Rightarrow> string \<times> json \<Rightarrow> string \<times> bool" where
  "error_field = (\<lambda>(s, bad) (k, j).
     if field_is k ''Error'' then let (s', e) = store_string j s in (s', bad \<or> e) else (s, bad))"

definition redirect_field :: "(u32 \<times> string) \<times> bool \<Rightarrow> string \<times> json \<Rightarrow> (u32 \<times> string) \<times> bool" where
  "redirect_field = (\<lambda>((sh, url), bad) (k, j).
     if field_is k ''shard'' then let (n, e) = store_u32 j sh in ((n, url), bad \<or> e)
     else if field_is k ''leader_url'' then let (s, e) = store_string j url in ((sh, s), bad \<or> e)
     else ((sh, url), bad))"

definition read_entry_of :: "readBody \<Rightarrow> ClientEntry" where
  "read_entry_of b = \<lparr>ce_Value = rb_Value b, ce_Version = rb_Version b, ce_UpdatedAt = rb_UpdatedAt b,
     ce_FromCache = False, ce_CacheAge = 0\<rparr>"

section \<open>One request\<close>

text \<open>The request that \<open>request\<close> builds. \<open>body = None\<close> is a nil body; an override without a value
  removes the header. The path and the query are what a server parses from the URI.\<close>

definition client_request :: "string \<Rightarrow> string \<Rightarrow> http_body option \<Rightarrow> (string \<times> string list option) list \<Rightarrow> HttpRequest" where
  "client_request method uri body override =
     (let h1 = hdr_Set Map.empty ''X-Edgekv-No-Forward'' ''1'';
          h2 = foldl (\<lambda>h (k, v). case v of None \<Rightarrow> hdr_Del h k | Some vs \<Rightarrow> h(k \<mapsto> vs)) h1 override;
          h3 = (if body \<noteq> None then hdr_Set h2 ''Content-Type'' ''application/json'' else h2)
      in \<lparr>rq_method = method, rq_path = (case unescape False (fst (uri_parts uri)) of Some p \<Rightarrow> p | None \<Rightarrow> []),
          rq_uri = uri, rq_query = ParseQuery (snd (uri_parts uri)), rq_header = h3,
          rq_body = (case body of None \<Rightarrow> empty_body | Some b \<Rightarrow> b)\<rparr>)"

definition classify :: "('o \<times> bool \<Rightarrow> string \<times> json \<Rightarrow> 'o \<times> bool) \<Rightarrow> HttpResponse \<Rightarrow> 'o \<Rightarrow> client_error option \<times> 'o" where
  "classify fld resp out =
     (if hr_code resp = 200
      then let (out', bad) = unmarshal_into fld (hr_body resp) out in (if bad then Some CDecode else None, out')
      else if hr_code resp = 404 then (Some CNotFound, out)
      else if hr_code resp = 412 then (Some CVersionMismatch, out)
      else if hr_code resp = 403 \<or> hr_code resp = 400
      then let (e, bad) = unmarshal_into error_field (hr_body resp) [] in
           (Some (if e = ''not_cacheable'' \<or> e = ''namespace_not_cacheable'' then CNotCacheable else CRefused e), out)
      else if hr_code resp = 421
      then let ((sh, url), bad) = unmarshal_into redirect_field (hr_body resp) (0, []) in (Some (CRedirect sh url), out)
      else (Some (CStatus (hr_code resp)), out))"

definition request :: "('o \<times> bool \<Rightarrow> string \<times> json \<Rightarrow> 'o \<times> bool) \<Rightarrow> (string \<Rightarrow> HttpRequest \<Rightarrow> do_result) \<Rightarrow> string
    \<Rightarrow> HttpRequest \<Rightarrow> 'o \<Rightarrow> header \<times> client_error option \<times> 'o" where
  "request fld do base req out =
     (case do base req of
        DoResp resp \<Rightarrow> (hr_header resp, classify fld resp out)
      | _ \<Rightarrow> (Map.empty, Some CTransport, out))"

section \<open>The retry loop\<close>

record attempt_env =
  at_do :: "string \<Rightarrow> HttpRequest \<Rightarrow> do_result"
  at_ctx :: bool
  at_ctx_pause :: bool

record 'o Done =
  dn_client :: Client
  dn_sent :: "(string \<times> HttpRequest) list"
  dn_header :: header
  dn_out :: 'o
  dn_err :: "client_error option"

definition finished :: "Client \<Rightarrow> header \<Rightarrow> 'o \<Rightarrow> client_error option \<Rightarrow> 'o Done" where
  "finished c hdr out err = \<lparr>dn_client = c, dn_sent = [], dn_header = hdr, dn_out = out, dn_err = err\<rparr>"

definition definitive :: "client_error \<Rightarrow> bool" where
  "definitive e \<longleftrightarrow> e \<in> {CNotFound, CVersionMismatch, CNotCacheable}"

text \<open>\<open>k\<close> attempts are left; \<open>lastErr\<close> as in the code.\<close>

fun do_loop :: "('o \<times> bool \<Rightarrow> string \<times> json \<Rightarrow> 'o \<times> bool) \<Rightarrow> (nat \<Rightarrow> attempt_env) \<Rightarrow> string \<Rightarrow> HttpRequest
    \<Rightarrow> nat \<Rightarrow> nat \<Rightarrow> Client \<Rightarrow> string \<Rightarrow> client_error option \<Rightarrow> header \<Rightarrow> 'o \<Rightarrow> 'o Done" where
  "do_loop fld env key req 0 attempt c target lastErr hdr out = finished c hdr out (Some (CGiveUp (cl_retries c) lastErr))"
| "do_loop fld env key req (Suc k) attempt c target lastErr hdr out =
     (let (hdr', err, out') = request fld (at_do (env attempt)) target req out;
          again = (\<lambda>c1. let c2 = forget c1 key in
            if cl_nodes c2 = [] then finished c2 hdr' out' (Some CPanic)
            else if at_ctx_pause (env attempt) then finished c2 hdr' out' (Some CContext)
            else do_loop fld env key req k (attempt + 1) c2 (cl_nodes c2 ! (attempt mod length (cl_nodes c2))) err hdr' out');
          rest = (case err of
              None \<Rightarrow> finished (learn c key hdr' target) hdr' out' None
            | Some (CRedirect shard url) \<Rightarrow>
                let c1 = setLeader c key shard url in
                if url \<noteq> [] then do_loop fld env key req k (attempt + 1) c1 url lastErr hdr' out' else again c1
            | Some e \<Rightarrow>
                if definitive e then finished c hdr' out' (Some e)
                else if at_ctx (env attempt) then finished c hdr' out' (Some CContext)
                else again c)
      in rest\<lparr>dn_sent := (target, req) # dn_sent rest\<rparr>)"

definition client_do :: "('o \<times> bool \<Rightarrow> string \<times> json \<Rightarrow> 'o \<times> bool) \<Rightarrow> (nat \<Rightarrow> attempt_env) \<Rightarrow> Client \<Rightarrow> string \<Rightarrow> HttpRequest
    \<Rightarrow> 'o \<Rightarrow> 'o Done" where
  "client_do fld env c key req out =
     (case pickNode c key of
        None \<Rightarrow> finished c Map.empty out (Some CPanic)
      | Some target \<Rightarrow> do_loop fld env key req (nat (cl_retries c)) 0 c target None Map.empty out)"

section \<open>Operations\<close>

text \<open>\<open>json.Marshal\<close> of a map writes its keys in order; \<open>len\<close> is the length of the text.\<close>

definition put_body :: "(json \<Rightarrow> nat) \<Rightarrow> string \<Rightarrow> string \<Rightarrow> cache_policy option \<Rightarrow> http_body" where
  "put_body len reqID val policy =
     (let j = JObj ((case policy of None \<Rightarrow> []
            | Some p \<Rightarrow> [(''cache_policy'', JObj [(''cacheable'', JBool (cp_Cacheable p)), (''ttl_seconds'', JInt (uint (cp_TTLSeconds p)))])])
          @ [(''request_id'', JStr reqID), (''value'', JStr val)])
      in \<lparr>bd_length = len j, bd_json = Some j\<rparr>)"

definition put_uri :: "string \<Rightarrow> u64 option \<Rightarrow> string" where
  "put_uri key expected = ''/v1/kv/'' @ PathEscape key @
     (case expected of None \<Rightarrow> [] | Some v \<Rightarrow> ''?expectedVersion='' @ FormatUint (unat v))"

definition put_request :: "(json \<Rightarrow> nat) \<Rightarrow> string \<Rightarrow> string \<Rightarrow> string \<Rightarrow> cache_policy option \<Rightarrow> u64 option \<Rightarrow> HttpRequest" where
  "put_request len reqID key val policy expected =
     client_request ''PUT'' (put_uri key expected) (Some (put_body len reqID val policy)) []"

definition version_result :: "u64 Done \<Rightarrow> Client \<times> (client_error + u64)" where
  "version_result d = (dn_client d, case dn_err d of Some e \<Rightarrow> Inl e | None \<Rightarrow> Inr (dn_out d))"

definition client_put :: "(json \<Rightarrow> nat) \<Rightarrow> (nat \<Rightarrow> attempt_env) \<Rightarrow> string \<Rightarrow> Client \<Rightarrow> string \<Rightarrow> string \<Rightarrow> cache_policy option
    \<Rightarrow> u64 option \<Rightarrow> Client \<times> (client_error + u64)" where
  "client_put len env reqID c key val policy expected =
     version_result (client_do version_field env c key (put_request len reqID key val policy expected) 0)"

definition client_Put where
  "client_Put len env reqID c key val policy = client_put len env reqID c key val policy None"

definition client_CAS where
  "client_CAS len env reqID c key val expected policy = client_put len env reqID c key val policy (Some expected)"

definition client_Delete :: "(nat \<Rightarrow> attempt_env) \<Rightarrow> string \<Rightarrow> Client \<Rightarrow> string \<Rightarrow> Client \<times> (client_error + u64)" where
  "client_Delete env reqID c key = version_result (client_do version_field env c key
     (client_request ''DELETE'' (''/v1/kv/'' @ PathEscape key @ ''?request_id='' @ reqID) None []) 0)"

definition zero_read :: readBody where
  "zero_read = \<lparr>rb_Value = [], rb_Version = 0, rb_UpdatedAt = []\<rparr>"

definition client_Get :: "(nat \<Rightarrow> attempt_env) \<Rightarrow> Client \<Rightarrow> string \<Rightarrow> Client \<times> (client_error + ClientEntry)" where
  "client_Get env c key =
     (let d = client_do read_field env c key (client_request ''GET'' (''/v1/kv/'' @ PathEscape key) None []) zero_read
      in (dn_client d, case dn_err d of Some e \<Rightarrow> Inl e | None \<Rightarrow> Inr (read_entry_of (dn_out d))))"

definition cache_info :: "header \<Rightarrow> ClientEntry \<Rightarrow> ClientEntry" where
  "cache_info hdr e =
     (let e1 = e\<lparr>ce_FromCache := HasPrefix (map lower (hdr_Get hdr ''X-Cache'')) ''hit''\<rparr>
      in case Atoi (hdr_Get hdr ''Age'') of Some age \<Rightarrow> e1\<lparr>ce_CacheAge := wrap64 (age * 1000000000)\<rparr> | None \<Rightarrow> e1)"

definition CachedGet :: "(nat \<Rightarrow> attempt_env) \<Rightarrow> Client \<Rightarrow> string \<Rightarrow> Client \<times> (client_error + ClientEntry)" where
  "CachedGet env c key =
     (let uri = ''/v1/cache/'' @ PathEscape key;
          (c', hdr, err, out) =
            (if cl_edge c \<noteq> []
             then let (hdr, err, out) = request read_field (at_do (env 0)) (cl_edge c)
                        (client_request ''GET'' uri None [(''X-Edgekv-No-Forward'', None)]) zero_read
                  in (c, hdr, err, out)
             else let d = client_do read_field env c key (client_request ''GET'' uri None []) zero_read
                  in (dn_client d, dn_header d, dn_err d, dn_out d))
      in (c', case err of Some e \<Rightarrow> Inl e | None \<Rightarrow> Inr (cache_info hdr (read_entry_of out))))"

section \<open>The loop ends and repeats one request\<close>

lemma finished_simps [simp]:
  "dn_client (finished c hdr out err) = c" "dn_sent (finished c hdr out err) = []" "dn_header (finished c hdr out err) = hdr"
  "dn_out (finished c hdr out err) = out" "dn_err (finished c hdr out err) = err"
  by (simp_all add: finished_def)

text \<open>What one step of the loop does: stop, or go on from another state.\<close>

lemma do_loop_step:
  assumes "do_loop fld env key req (Suc k) attempt c target lastErr hdr out = d"
    and "request fld (at_do (env attempt)) target req out = (hdr', err, out')"
  obtains (stop) c' err' where "d = (finished c' hdr' out' err')\<lparr>dn_sent := [(target, req)]\<rparr>" "err = None \<longleftrightarrow> err' = None"
  | (again) c' target' lastErr' d' where "d' = do_loop fld env key req k (attempt + 1) c' target' lastErr' hdr' out'"
      "d = d'\<lparr>dn_sent := (target, req) # dn_sent d'\<rparr>" "\<exists>e. err = Some e \<and> \<not> definitive e" "cl_retries c' = cl_retries c"
proof (cases err)
  case None
  then show thesis using assms stop by (auto simp: Let_def finished_def)
next
  case (Some e)
  have r: "cl_retries (forget c1 key) = cl_retries c1" "cl_retries (setLeader c1 key sh url) = cl_retries c1" for c1 sh url
    by (auto simp: forget_def setLeader_def Let_def split: option.split)
  note assms(1) [symmetric, unfolded do_loop.simps Let_def assms(2) prod.case Some option.case]
  then show thesis
    using stop again r Some by (cases e) (auto simp: Let_def definitive_def finished_def split: if_splits)
qed

definition stops :: "do_result \<Rightarrow> bool" where
  "stops r \<longleftrightarrow> (\<exists>resp. r = DoResp resp \<and> hr_code resp \<in> {404, 412})"

definition succeeds :: "do_result \<Rightarrow> bool" where
  "succeeds r \<longleftrightarrow> (\<exists>resp. r = DoResp resp \<and> hr_code resp = 200)"

lemma request_stops:
  "request fld do base req out = (hdr, Some e, out') \<Longrightarrow> \<not> definitive e \<Longrightarrow> \<not> stops (do base req)"
  by (auto simp: request_def stops_def classify_def definitive_def split: do_result.splits)

lemma request_succeeds: "request fld do base req out = (hdr, None, out') \<Longrightarrow> succeeds (do base req)"
  by (auto simp: request_def succeeds_def classify_def Let_def split: do_result.splits if_splits prod.splits)

lemma do_loop_sent:
  assumes "d = do_loop fld env key req k attempt c target lastErr hdr out"
  shows "length (dn_sent d) \<le> k \<and> snd ` set (dn_sent d) \<subseteq> {req} \<and>
    (\<forall>n. Suc n < length (dn_sent d) \<longrightarrow> \<not> stops (at_do (env (attempt + n)) (fst (dn_sent d ! n)) req)) \<and>
    (dn_err d = None \<longrightarrow> dn_sent d \<noteq> [] \<and>
       succeeds (at_do (env (attempt + length (dn_sent d) - 1)) (fst (last (dn_sent d))) req))"
  using assms
proof (induction k arbitrary: d attempt c target lastErr hdr out)
  case 0
  then show ?case by simp
next
  case (Suc k)
  obtain hdr' err out' where q: "request fld (at_do (env attempt)) target req out = (hdr', err, out')"
    by (cases "request fld (at_do (env attempt)) target req out")
  from Suc.prems [symmetric] q show ?case
  proof (cases rule: do_loop_step)
    case (stop c' err')
    then show ?thesis using request_succeeds q by auto
  next
    case (again c' target' lastErr' d')
    note IH = Suc.IH [OF again(1)]
    have ns: "\<not> stops (at_do (env attempt) target req)"
      using again(3) q request_stops [of fld "at_do (env attempt)" target req out hdr' _ out'] by auto
    have "\<not> stops (at_do (env (attempt + n)) (fst (dn_sent d ! n)) req)" if "Suc n < length (dn_sent d)" for n
      using IH ns that again(2) by (cases n) auto
    then show ?thesis using IH again(2) by auto
  qed
qed


section \<open>What a gateway reads from a request of the client\<close>

lemma field_names [simp]:
  "field_is ''cache_policy'' ''request_id'' = False" "field_is ''cache_policy'' ''value'' = False"
  "field_is ''cache_policy'' ''cache_policy''" "field_is ''request_id'' ''request_id''" "field_is ''value'' ''request_id'' = False"
  "field_is ''value'' ''value''" "field_is ''cacheable'' ''cacheable''" "field_is ''ttl_seconds'' ''cacheable'' = False"
  "field_is ''ttl_seconds'' ''ttl_seconds''" "field_is ''key'' ''value'' = False" "field_is ''key'' ''version'' = False"
  "field_is ''key'' ''updated_at'' = False" "field_is ''version'' ''value'' = False" "field_is ''version'' ''version''"
  "field_is ''updated_at'' ''value'' = False" "field_is ''updated_at'' ''version'' = False" "field_is ''updated_at'' ''updated_at''"
  "field_is ''shard'' ''version'' = False"
  by code_simp+

lemma store_words [simp]: "store_u32 (JInt (uint w)) old = (w, False)" "store_u64 (JInt (uint v)) old' = (v, False)"
  using uint_lt2p [of w] uint_lt2p [of v] by (simp_all add: store_u32_def store_u64_def)

lemma unmarshal_put_body:
  "unmarshal_put (put_body len reqID val policy) = Some \<lparr>pr_RequestID = reqID, pr_Value = val, pr_CachePolicy = policy\<rparr>"
  by (cases policy) (simp_all add: unmarshal_put_def put_body_def put_field_def policy_field_def store_string_def
      store_bool_def Let_def)

lemma unescape_plain: "CHR ''%'' \<notin> set s \<Longrightarrow> unescape False (s @ t) = map_option ((@) s) (unescape False t)"
  by (cases "unescape False t"; induction s) auto

lemma unescape_digits: "list_all is_digit s \<Longrightarrow> unescape True s = Some s"
  by (induction s) (auto simp: is_digit_def)

lemma uri_parts_plain: "CHR ''?'' \<notin> set p \<Longrightarrow> uri_parts p = (p, []) \<and> uri_parts (p @ CHR ''?'' # q) = (p, q)"
  using str_Cut_append [of "CHR ''?''" p q] str_Cut_None [of "CHR ''?''" p] by (simp add: uri_parts_def)

lemma ParseQuery_one:
  assumes "CHR ''&'' \<notin> set (k @ v)" "CHR '';'' \<notin> set (k @ v)" "CHR ''='' \<notin> set k" "unescape True k = Some k" "unescape True v = Some v"
  shows "ParseQuery (k @ CHR ''='' # v) = [k \<mapsto> v]"
proof -
  have "str_Split CHR ''&'' (k @ CHR ''='' # v) = [k @ CHR ''='' # v]" using assms(1) by (intro str_Split_plain) auto
  moreover have "str_Cut CHR ''='' (k @ CHR ''='' # v) = Some (k, v)" using assms(3) by (rule str_Cut_append)
  ultimately show ?thesis using assms by (simp add: ParseQuery_def query_part_def)
qed

lemma kv_path:
  "unescape False (''/v1/kv/'' @ PathEscape key) = Some (''/v1/kv/'' @ key)"
  "CHR ''?'' \<notin> set (''/v1/kv/'' @ PathEscape key)"
  using unescape_plain [of "''/v1/kv/''" "PathEscape key"] PathEscape_no_query [of key] by (simp_all add: unescape_PathEscape)

lemma put_request_parts:
  "rq_path (put_request len reqID key val policy expected) = ''/v1/kv/'' @ key"
  "query_Get (put_request len reqID key val policy expected) ''expectedVersion'' =
     (case expected of None \<Rightarrow> [] | Some v \<Rightarrow> FormatUint (unat v))"
  "rq_method (put_request len reqID key val policy expected) = ''PUT''"
  "rq_body (put_request len reqID key val policy expected) = put_body len reqID val policy"
proof -
  have d: "list_all is_digit (FormatUint n)" for n using FormatUint_digits by blast
  have q: "ParseQuery (''expectedVersion='' @ FormatUint n) = [''expectedVersion'' \<mapsto> FormatUint n]" for n
  proof -
    have "CHR ''&'' \<notin> set (FormatUint n)" "CHR '';'' \<notin> set (FormatUint n)"
      using FormatUint_chars [of "CHR ''&''" n] FormatUint_chars [of "CHR '';''" n] by (auto simp: is_digit_def)
    moreover have "unescape True ''expectedVersion'' = Some ''expectedVersion''" by code_simp
    ultimately show ?thesis using ParseQuery_one [of "''expectedVersion''" "FormatUint n"] unescape_digits [OF d [of n]] by simp
  qed
  have e: "ParseQuery [] = Map.empty" by (simp add: ParseQuery_def query_part_def)
  have u: "uri_parts (put_uri key expected) = (''/v1/kv/'' @ PathEscape key,
      case expected of None \<Rightarrow> [] | Some v \<Rightarrow> ''expectedVersion='' @ FormatUint (unat v))"
    using uri_parts_plain [OF kv_path(2)] by (simp add: put_uri_def split: option.split)
  show "rq_path (put_request len reqID key val policy expected) = ''/v1/kv/'' @ key"
    by (simp add: put_request_def client_request_def u kv_path(1) del: append.simps)
  show "query_Get (put_request len reqID key val policy expected) ''expectedVersion'' =
     (case expected of None \<Rightarrow> [] | Some v \<Rightarrow> FormatUint (unat v))"
    unfolding query_Get_def put_request_def client_request_def u
    by (cases expected) (simp_all add: q e get0_def del: append.simps)
qed (simp_all add: put_request_def client_request_def Let_def)

text \<open>The command of a client's write.\<close>

definition written_command :: "ServerConfig \<Rightarrow> string \<Rightarrow> string \<Rightarrow> string \<Rightarrow> cache_policy option \<Rightarrow> u64 option \<Rightarrow> Command" where
  "written_command cfg reqID key val policy expected =
     (let cmd = zero_command\<lparr>cmd_op := OP_PUT, cmd_key := key, cmd_value := key_bytes val, cmd_requestId := reqID,
            cmd_hasExpectedVersion := (expected \<noteq> None), cmd_expectedVersion := (case expected of None \<Rightarrow> 0 | Some v \<Rightarrow> v)\<rparr>
      in case policy of
           None \<Rightarrow> cmd
         | Some p \<Rightarrow> if cp_Cacheable p then cmd\<lparr>cmd_cacheable := True, cmd_ttlSeconds :=
               (if cp_TTLSeconds p = 0 then sc_DefaultTTLSeconds cfg else min (cp_TTLSeconds p) (sc_MaxTTLSeconds cfg))\<rparr>
             else cmd)"

lemma put_request_command:
  assumes "bd_length (put_body len reqID val policy) \<le> maxBodyBytes" and "reqID \<noteq> []"
    and "\<And>p. policy = Some p \<Longrightarrow> cp_Cacheable p \<Longrightarrow> namespaceCacheable cfg key"
  shows "put_command cfg newID key (put_request len reqID key val policy expected) = Inr (written_command cfg reqID key val policy expected)"
proof -
  have v: "ParseUint 64 (FormatUint (unat v)) = Some (unat v)" "FormatUint (unat v) \<noteq> []" for v :: u64
    using ParseUint_FormatUint [of "unat v" 64] unsigned_less [of v, where ?'a = nat] FormatUint_digits [of "unat v"] by auto
  have m: "max (t :: u32) 1 = t" if "t \<noteq> 0" for t
  proof -
    have "unat t \<noteq> 0" using that by (simp add: unat_eq_0)
    then show ?thesis by (auto simp: max_def word_le_nat_alt word_unat_eq_iff)
  qed
  have t: "put_ttl cfg key policy = Some (case policy of None \<Rightarrow> None | Some q \<Rightarrow> if cp_Cacheable q
      then Some (if cp_TTLSeconds q = 0 then sc_DefaultTTLSeconds cfg else min (cp_TTLSeconds q) (sc_MaxTTLSeconds cfg)) else None)"
    using assms(3) m by (auto simp: put_ttl_def split: option.splits)
  show ?thesis
    using assms(1,2) v t
    by (cases policy; cases expected)
       (simp_all add: put_command_def put_request_parts unmarshal_put_body written_command_def zero_command_def Let_def)
qed


section \<open>Reading\<close>

lemma get_request_parts:
  "rq_path (client_request ''GET'' (''/v1/kv/'' @ PathEscape key) None []) = ''/v1/kv/'' @ key"
  "rq_method (client_request ''GET'' (''/v1/kv/'' @ PathEscape key) None []) = ''GET''"
  using uri_parts_plain [OF kv_path(2) [of key]] kv_path(1) [of key]
  by (simp_all add: client_request_def Let_def del: append.simps)

lemma unmarshal_read: "unmarshal_into read_field (Some (toReadResponse key e)) out =
    (\<lparr>rb_Value = value_string (en_Value e), rb_Version = en_Version e, rb_UpdatedAt = rfc3339 (en_UpdatedUnixMs e)\<rparr>, False)"
  by (simp add: unmarshal_into_def toReadResponse_def read_field_def store_string_def Let_def)

lemma setLeader_pick: "leaderURL \<noteq> [] \<Longrightarrow> pickNode (setLeader c key shard leaderURL) key = Some leaderURL"
  by (simp add: pickNode_def setLeader_def Let_def)

lemma kv_get_answer:
  assumes "bk_Get bk key = Inr e" and "rq_path q = ''/v1/kv/'' @ key" and "rq_method q = ''GET''"
  shows "hr_code (sv_resp (ServeHTTP cfg bk do newID q)) = 200"
    "hr_body (sv_resp (ServeHTTP cfg bk do newID q)) = Some (toReadResponse key e)"
    "hdr_Get (hr_header (sv_resp (ServeHTTP cfg bk do newID q))) headerShard = FormatUint (bk_Shard bk key)"
proof -
  have "CutPrefix (rq_path q) ''/v1/kv/'' = Some key" by (simp add: assms(2) CutPrefix_def HasPrefix_def)
  then have "ServeHTTP cfg bk do newID q = handleGet cfg bk do key q" using assms(3) by (simp add: ServeHTTP_def)
  then show "hr_code (sv_resp (ServeHTTP cfg bk do newID q)) = 200"
    "hr_body (sv_resp (ServeHTTP cfg bk do newID q)) = Some (toReadResponse key e)"
    "hdr_Get (hr_header (sv_resp (ServeHTTP cfg bk do newID q))) headerShard = FormatUint (bk_Shard bk key)"
    by (simp_all add: handleGet_def read_entry_def assms(1) writeJSON_def hdr_Get_Set)
qed


section \<open>Redirects\<close>

lemma redirects_loop:
  assumes "\<And>n t. \<exists>resp sh url bad. at_do (env n) t req = DoResp resp \<and> hr_code resp = 421 \<and>
      unmarshal_into redirect_field (hr_body resp) (0, []) = ((sh, url), bad) \<and> url \<noteq> []"
  shows "dn_err (do_loop fld env key req k attempt c target lastErr hdr out) = Some (CGiveUp (cl_retries c) lastErr)"
proof (induction k arbitrary: attempt c target hdr out)
  case (Suc k)
  obtain resp sh url bad where r: "at_do (env attempt) target req = DoResp resp" "hr_code resp = 421"
      "unmarshal_into redirect_field (hr_body resp) (0, []) = ((sh, url), bad)" "url \<noteq> []"
    using assms by blast
  have "cl_retries (setLeader c key sh url) = cl_retries c" by (simp add: setLeader_def Let_def)
  then show ?case using r Suc by (simp add: request_def classify_def Let_def)
qed simp

text \<open>A client that is redirected in every attempt gives up without a cause: the error wraps nil,
  although each attempt failed with a redirect.\<close>

theorem redirects_lose_error:
  assumes "pickNode c key = Some target"
    and "\<And>n t. \<exists>resp sh url bad. at_do (env n) t req = DoResp resp \<and> hr_code resp = 421 \<and>
      unmarshal_into redirect_field (hr_body resp) (0, []) = ((sh, url), bad) \<and> url \<noteq> []"
  shows "dn_err (client_do fld env c key req out) = Some (CGiveUp (cl_retries c) None)"
  using redirects_loop [OF assms(2)] by (simp add: client_do_def assms(1))

section \<open>Witnesses\<close>

definition ex_client :: Client where
  "ex_client = client_New [''http://n1'', ''http://n2''] [WithRetries 3]"

text \<open>The first call fails, later ones reach a node that leads.\<close>

definition ex_attempts :: "nat \<Rightarrow> attempt_env" where
  "ex_attempts n = \<lparr>at_do = (\<lambda>_ q. if n = 0 then DoFailed else DoResp (sv_resp (ServeHTTP (ex_server ''n2'') ex_leader_node (\<lambda>_ _. DoFailed) [] q))),
     at_ctx = False, at_ctx_pause = False\<rparr>"

definition ex_json_length :: "json \<Rightarrow> nat" where
  "ex_json_length j = 100"

abbreviation ex_call :: "u64 Done" where
  "ex_call \<equiv> client_do version_field ex_attempts ex_client ''config:a'' (put_request ex_json_length ''r7'' ''config:a'' ''x'' None None) 0"

lemma ex_client_simps: "cl_nodes ex_client = [''http://n1'', ''http://n2'']" "cl_retries ex_client = 3"
  "cl_leaders ex_client = Map.empty" "cl_shardOf ex_client = Map.empty" "pickNode ex_client k = Some ''http://n1''"
  by (simp_all add: ex_client_def client_New_def WithRetries_def pickNode_def)

lemma ex_call_eq: "dn_err ex_call = None \<and> length (dn_sent ex_call) = 2"
proof -
  let ?q = "put_request ex_json_length ''r7'' ''config:a'' ''x'' None None"
  have p: "CutPrefix (rq_path ?q) ''/v1/kv/'' = Some ''config:a''" by (simp add: put_request_parts CutPrefix_def HasPrefix_def)
  have "put_command (ex_server ''n2'') [] ''config:a'' ?q = Inr (written_command (ex_server ''n2'') ''r7'' ''config:a'' ''x'' None None)"
    by (rule put_request_command) (simp_all add: put_body_def ex_json_length_def maxBodyBytes_def)
  then have "hr_code (sv_resp (ServeHTTP (ex_server ''n2'') ex_leader_node (\<lambda>_ _. DoFailed) [] ?q)) = 200"
    "\<exists>k s. hr_body (sv_resp (ServeHTTP (ex_server ''n2'') ex_leader_node (\<lambda>_ _. DoFailed) [] ?q)) =
       Some (JObj [(''key'', JStr k), (''version'', JInt (uint (8 :: u64))), (''shard'', JInt s)])"
    using p put_request_parts(3)
    by (simp_all add: ServeHTTP_def handlePut_def write_cmd_def ex_leader_node_def writeJSON_def)
  then have "\<exists>h. request version_field (at_do (ex_attempts 1)) ''http://n1'' ?q 0 = (h, None, 8)"
    by (auto simp: request_def ex_attempts_def classify_def unmarshal_into_def version_field_def store_u64_def Let_def)
  then obtain h where h: "request version_field (at_do (ex_attempts (Suc 0))) ''http://n1'' ?q 0 = (h, None, 8)" by auto
  have f: "request version_field (at_do (ex_attempts 0)) ''http://n1'' ?q 0 = (Map.empty, Some CTransport, 0)"
    by (simp add: request_def ex_attempts_def)
  have "\<not> at_ctx (ex_attempts 0)" "\<not> at_ctx_pause (ex_attempts 0)" by (simp_all add: ex_attempts_def)
  then show ?thesis
    using h f by (simp add: client_do_def ex_client_simps eval_nat_numeral forget_def definitive_def)
qed




theorem redirects_lose_error_witness:
  "dn_err (client_do version_field (\<lambda>_. \<lparr>at_do = (\<lambda>_ _. DoResp \<lparr>hr_code = 421, hr_header = Map.empty,
       hr_body = Some (JObj [(''leader_url'', JStr ''http://n2'')])\<rparr>), at_ctx = False, at_ctx_pause = False\<rparr>)
     ex_client ''k'' (put_request ex_json_length ''r7'' ''k'' ''x'' None None) 0) = Some (CGiveUp 3 None)"
proof -
  have "field_is ''leader_url'' ''shard'' = False" "field_is ''leader_url'' ''leader_url''" by code_simp+
  then show ?thesis
    by (subst redirects_lose_error [where target = "''http://n1''"])
       (auto simp: ex_client_simps unmarshal_into_def redirect_field_def store_string_def)
qed

end
