(* ===== verification/EK_Cdn.thy ===== *)
theory EK_Cdn
  imports EK_Edge
begin

text \<open>
  Package \<open>internal/cdn\<close>: the purge request to the edge caches and the queue between the writes and
  the purges (\<open>cdn.go\<close>). The queue has a worker goroutine and any number of writers. A writer adds
  its path under the lock and wakes the worker afterwards, so \<open>Enqueue\<close> is two steps; the worker
  waits, pauses, collects and tries. \<open>qu_calls\<close> lists the calls of \<open>Invalidate\<close>, the newest first,
  and \<open>qu_results\<close> those of \<open>onResult\<close>. The order of the paths in a batch is left out, and so is the
  CloudFront invalidator, a service of AWS.
\<close>

section \<open>Purging the edge caches\<close>

text \<open>The loop of \<open>HTTPPurge.Invalidate\<close>: the endpoints that got the request, and whether it returns
  an error. A malformed endpoint ends the loop.\<close>

fun purge_loop :: "(string \<Rightarrow> do_result) \<Rightarrow> string list \<Rightarrow> bool \<Rightarrow> string list \<times> bool" where
  "purge_loop do [] failed = ([], failed)"
| "purge_loop do (ep # eps) failed =
     (case do ep of
        DoBadURL \<Rightarrow> ([], True)
      | r \<Rightarrow> let bad = (case r of DoResp resp \<Rightarrow> hr_code resp \<ge> 300 | _ \<Rightarrow> True);
                 (sent, failed') = purge_loop do eps (failed \<or> bad)
             in (ep # sent, failed'))"

definition HTTPPurge_Invalidate :: "(string \<Rightarrow> do_result) \<Rightarrow> string list \<Rightarrow> string list \<times> bool" where
  "HTTPPurge_Invalidate do endpoints = purge_loop do endpoints False"

section \<open>The queue\<close>

datatype worker = Waiting | Pausing | Trying "string set" nat | Exited

record Queue =
  qu_noop :: bool \<comment> \<open>the invalidator is \<open>Noop\<close>\<close>
  qu_pending :: "string set"
  qu_wake :: bool \<comment> \<open>the channel \<open>wake\<close> holds a token\<close>
  qu_stop :: bool
  qu_worker :: worker
  qu_wakers :: nat \<comment> \<open>writers between the two steps of \<open>Enqueue\<close>\<close>
  qu_calls :: "string set list"
  qu_results :: "(bool \<times> nat) list"

definition NewQueue :: "bool \<Rightarrow> Queue" where
  "NewQueue noop = \<lparr>qu_noop = noop, qu_pending = {}, qu_wake = False, qu_stop = False, qu_worker = Waiting,
     qu_wakers = 0, qu_calls = [], qu_results = []\<rparr>"

definition enqueue_add :: "string \<Rightarrow> Queue \<Rightarrow> Queue" where
  "enqueue_add path q =
     (if qu_noop q then q else q\<lparr>qu_pending := insert path (qu_pending q), qu_wakers := qu_wakers q + 1\<rparr>)"

definition enqueue_wake :: "Queue \<Rightarrow> Queue" where
  "enqueue_wake q = (if qu_wakers q = 0 then q else q\<lparr>qu_wake := True, qu_wakers := qu_wakers q - 1\<rparr>)"

definition queue_Stop :: "Queue \<Rightarrow> Queue" where
  "queue_Stop q = q\<lparr>qu_stop := True\<rparr>"

text \<open>One step of \<open>run\<close>, when it does not see \<open>stop\<close>; \<open>ok\<close> is what \<open>Invalidate\<close> returns, if the step
  calls it.\<close>

definition worker_step :: "bool \<Rightarrow> Queue \<Rightarrow> Queue" where
  "worker_step ok q =
     (case qu_worker q of
        Waiting \<Rightarrow> if qu_wake q then q\<lparr>qu_wake := False, qu_worker := Pausing\<rparr> else q
      | Pausing \<Rightarrow> if qu_pending q = {} then q\<lparr>qu_worker := Waiting\<rparr>
                   else q\<lparr>qu_pending := {}, qu_worker := Trying (qu_pending q) 0\<rparr>
      | Trying paths attempt \<Rightarrow>
          let q1 = q\<lparr>qu_calls := paths # qu_calls q\<rparr> in
          if ok then q1\<lparr>qu_worker := Waiting, qu_results := (True, card paths) # qu_results q\<rparr>
          else if attempt + 1 < 4 then q1\<lparr>qu_worker := Trying paths (attempt + 1)\<rparr>
          else q1\<lparr>qu_worker := Waiting, qu_results := (False, card paths) # qu_results q\<rparr>
      | Exited \<Rightarrow> q)"

text \<open>The worker sees \<open>stop\<close> while it waits, pauses or backs off after a failed call.\<close>

definition worker_exit :: "Queue \<Rightarrow> Queue" where
  "worker_exit q = q\<lparr>qu_worker := Exited\<rparr>"

datatype queue_act = Add string | Wake | Work bool

fun act :: "queue_act \<Rightarrow> Queue \<Rightarrow> Queue" where
  "act (Add path) q = enqueue_add path q"
| "act Wake q = enqueue_wake q"
| "act (Work ok) q = worker_step ok q"

inductive queue_reach :: "Queue \<Rightarrow> bool" where
  q_new: "queue_reach (NewQueue noop)"
| q_act: "queue_reach q \<Longrightarrow> queue_reach (act a q)"
| q_stop: "queue_reach q \<Longrightarrow> queue_reach (queue_Stop q)"
| q_exit: "queue_reach q \<Longrightarrow> qu_stop q \<Longrightarrow> queue_reach (worker_exit q)"

section \<open>No path is forgotten\<close>

definition queue_inv :: "Queue \<Rightarrow> bool" where
  "queue_inv q \<longleftrightarrow> (qu_pending q \<noteq> {} \<longrightarrow> qu_wake q \<or> 0 < qu_wakers q \<or> qu_worker q = Pausing \<or> qu_worker q = Exited) \<and>
     (\<forall>ps n. qu_worker q = Trying ps n \<longrightarrow> n < 4 \<and> ps \<noteq> {}) \<and>
     (qu_worker q = Exited \<longrightarrow> qu_stop q) \<and> (qu_noop q \<longrightarrow> qu_pending q = {} \<and> qu_calls q = [] \<and>
        (\<forall>ps n. qu_worker q \<noteq> Trying ps n))"

lemma queue_inv_act: "queue_inv q \<Longrightarrow> queue_inv (act a q)"
proof (cases a)
  case (Work ok)
  assume "queue_inv q"
  then show ?thesis
    using Work by (cases "qu_worker q") (auto simp: queue_inv_def worker_step_def Let_def)
qed (auto simp: queue_inv_def enqueue_add_def enqueue_wake_def)

lemma queue_reach_inv: "queue_reach q \<Longrightarrow> queue_inv q"
proof (induction rule: queue_reach.induct)
  case (q_new noop)
  then show ?case by (simp add: queue_inv_def NewQueue_def)
next
  case (q_act q a)
  then show ?case by (simp add: queue_inv_act)
next
  case (q_stop q)
  then show ?case by (simp add: queue_inv_def queue_Stop_def)
next
  case (q_exit q)
  then show ?case by (auto simp: queue_inv_def worker_exit_def)
qed

text \<open>C35. No wake-up is lost. In every interleaving of writers, worker and shutdown, a pending path has
  a token in the channel, a writer about to send one, or a worker about to collect it, unless the
  worker has exited after \<open>Stop\<close>; a batch is never empty and is tried at most four times; and with
  the \<open>Noop\<close> invalidator nothing is ever queued or called.\<close>

theorem queue_no_lost_wakeup:
  assumes "queue_reach q"
  shows "(qu_pending q \<noteq> {} \<longrightarrow> qu_wake q \<or> 0 < qu_wakers q \<or> qu_worker q = Pausing \<or> (qu_worker q = Exited \<and> qu_stop q)) \<and>
    (\<forall>ps n. qu_worker q = Trying ps n \<longrightarrow> n < 4 \<and> ps \<noteq> {}) \<and> (qu_noop q \<longrightarrow> qu_pending q = {} \<and> qu_calls q = [])"
  using queue_reach_inv [OF assms] by (auto simp: queue_inv_def)

section \<open>Every path is tried\<close>

text \<open>\<open>due p q\<close>: the worker alone will get to \<open>p\<close>, after at most \<open>dist p q\<close> of its steps.\<close>

definition due :: "string \<Rightarrow> Queue \<Rightarrow> bool" where
  "due p q \<longleftrightarrow> queue_inv q \<and> qu_worker q \<noteq> Exited \<and>
     (p \<in> qu_pending q \<and> (qu_wake q \<or> qu_worker q = Pausing) \<or> (\<exists>ps. qu_worker q = Trying ps 0 \<and> p \<in> ps))"

definition dist :: "string \<Rightarrow> Queue \<Rightarrow> nat" where
  "dist p q = (case qu_worker q of Waiting \<Rightarrow> 3 | Pausing \<Rightarrow> 2 | Exited \<Rightarrow> 0
     | Trying ps n \<Rightarrow> if n = 0 \<and> p \<in> ps then 1 else 3 + (4 - n))"

fun is_work :: "queue_act \<Rightarrow> bool" where
  "is_work (Work ok) = True"
| "is_work (Add path) = False"
| "is_work Wake = False"

lemma due_work:
  assumes "due p q"
  shows "(\<exists>ps. qu_calls (worker_step ok q) = ps # qu_calls q \<and> p \<in> ps) \<or>
    due p (worker_step ok q) \<and> (\<exists>new. qu_calls (worker_step ok q) = new @ qu_calls q) \<and>
    dist p (worker_step ok q) + 1 \<le> dist p q"
proof -
  have inv: "queue_inv (worker_step ok q)" using assms queue_inv_act [of q "Work ok"] by (simp add: due_def)
  show ?thesis
  proof (cases "qu_worker q")
    case Waiting
    then have "p \<in> qu_pending q" "qu_wake q" using assms by (auto simp: due_def)
    then show ?thesis using Waiting inv by (simp add: due_def dist_def worker_step_def)
  next
    case Pausing
    then have "p \<in> qu_pending q" using assms by (auto simp: due_def)
    then show ?thesis using Pausing inv by (auto simp: due_def dist_def worker_step_def)
  next
    case (Trying ps n)
    show ?thesis
    proof (cases "n = 0 \<and> p \<in> ps")
      case True
      then show ?thesis using Trying by (auto simp: worker_step_def Let_def)
    next
      case False
      then have "p \<in> qu_pending q" "qu_wake q" "n < 4" using assms Trying by (auto simp: due_def queue_inv_def)
      then show ?thesis using False Trying inv by (auto simp: due_def dist_def worker_step_def Let_def)
    qed
  next
    case Exited
    then show ?thesis using assms by (simp add: due_def)
  qed
qed

lemma due_act:
  assumes "due p q"
  shows "(\<exists>ps. qu_calls (act a q) = ps # qu_calls q \<and> p \<in> ps) \<or>
    due p (act a q) \<and> (\<exists>new. qu_calls (act a q) = new @ qu_calls q) \<and>
    dist p (act a q) + (if is_work a then 1 else 0) \<le> dist p q"
proof (cases a)
  case (Work ok)
  then show ?thesis using due_work [OF assms, of ok] by simp
next
  case (Add x)
  have "queue_inv (enqueue_add x q)" using assms queue_inv_act [of q a] Add by (simp add: due_def)
  then show ?thesis using Add assms by (auto simp: due_def dist_def enqueue_add_def)
next
  case Wake
  have "queue_inv (enqueue_wake q)" using assms queue_inv_act [of q a] Wake by (simp add: due_def)
  then show ?thesis using Wake assms by (auto simp: due_def dist_def enqueue_wake_def)
qed

lemma due_run:
  assumes "due p q" and "dist p q \<le> length (filter is_work as)" and "0 < length (filter is_work as)"
  shows "\<exists>new ps. qu_calls (fold act as q) = new @ qu_calls q \<and> ps \<in> set new \<and> p \<in> ps"
  using assms
proof (induction as arbitrary: q)
  case Nil
  then show ?case by simp
next
  case (Cons a as)
  have grow: "\<exists>new. qu_calls (fold act bs r) = new @ qu_calls r" for bs r
  proof (induction bs arbitrary: r)
    case (Cons b bs)
    have "\<exists>new. qu_calls (act b r) = new @ qu_calls r"
      by (cases b) (auto simp: enqueue_add_def enqueue_wake_def worker_step_def Let_def split: worker.split)
    then show ?case using Cons [of "act b r"] by auto
  qed simp
  from due_act [OF Cons.prems(1), of a] show ?case
  proof
    assume "\<exists>ps. qu_calls (act a q) = ps # qu_calls q \<and> p \<in> ps"
    then show ?case using grow [of as "act a q"] by fastforce
  next
    assume d: "due p (act a q) \<and> (\<exists>new. qu_calls (act a q) = new @ qu_calls q) \<and>
      dist p (act a q) + (if is_work a then 1 else 0) \<le> dist p q"
    have "0 < dist p (act a q)" using d by (auto simp: due_def dist_def split: worker.splits)
    then have "dist p (act a q) \<le> length (filter is_work as)" "0 < length (filter is_work as)"
      using d Cons.prems(2) by (auto split: if_splits)
    from Cons.IH [OF _ this] d show ?case by fastforce
  qed
qed

text \<open>C36. Every queued path is tried. From every reachable state in which a path is pending and its
  writer is done, while the worker runs, any continuation in which the worker makes seven steps,
  interleaved with any number of further writes and whatever the calls return, makes a call of
  \<open>Invalidate\<close> with the path.\<close>

theorem queue_delivers:
  assumes "queue_reach q" and "p \<in> qu_pending q" and "qu_wakers q = 0" and "qu_worker q \<noteq> Exited"
    and "7 \<le> length (filter is_work as)"
  shows "\<exists>new ps. qu_calls (fold act as q) = new @ qu_calls q \<and> ps \<in> set new \<and> p \<in> ps"
proof (rule due_run)
  show "due p q" using queue_reach_inv [OF assms(1)] assms(2-4) by (auto simp: due_def queue_inv_def)
  have "dist p q \<le> 7" by (auto simp: dist_def split: worker.split)
  then show "dist p q \<le> length (filter is_work as)" using assms(5) by simp
  show "0 < length (filter is_work as)" using assms(5) by linarith
qed

section \<open>Purging\<close>

lemma purge_loop_ok:
  assumes "purge_loop do eps failed = (sent, False)"
  shows "\<not> failed \<and> sent = eps \<and> (\<forall>ep \<in> set eps. \<exists>resp. do ep = DoResp resp \<and> hr_code resp < 300)"
  using assms
proof (induction eps arbitrary: failed sent)
  case (Cons ep eps)
  then show ?case by (cases "do ep") (fastforce split: prod.splits)+
qed simp


section \<open>Witnesses\<close>

definition ex_queue :: Queue where
  "ex_queue = enqueue_wake (enqueue_add ''/v1/cache/config:b'' (worker_step True (worker_step True (enqueue_wake
     (enqueue_add ''/v1/cache/config:a'' (NewQueue False))))))"

lemma ex_queue_reach: "queue_reach ex_queue"
  unfolding ex_queue_def by (metis act.simps q_act q_new)

lemma ex_queue_eq: "qu_pending ex_queue = {''/v1/cache/config:b''}" "qu_wakers ex_queue = 0"
  "qu_worker ex_queue = Trying {''/v1/cache/config:a''} 0" "qu_wake ex_queue"
  by (simp_all add: ex_queue_def enqueue_wake_def enqueue_add_def worker_step_def NewQueue_def)

theorem queue_no_lost_wakeup_witness: "qu_pending ex_queue \<noteq> {} \<and> (qu_wake ex_queue \<or> qu_worker ex_queue = Pausing)"
  using queue_no_lost_wakeup [OF ex_queue_reach] ex_queue_eq by simp

theorem queue_delivers_witness:
  "\<exists>new ps. qu_calls (fold act (replicate 4 (Work False) @ [Add ''/v1/cache/config:c''] @ replicate 3 (Work True)) ex_queue) =
     new @ qu_calls ex_queue \<and> ps \<in> set new \<and> ''/v1/cache/config:b'' \<in> ps"
  by (rule queue_delivers [OF ex_queue_reach]) (simp_all add: ex_queue_eq numeral_eq_Suc)


end
