(* ===== verification/EK_Main.thy ===== *)
theory EK_Main
  imports EK_Node EK_Server EK_System "HOL-Library.AList"
begin

text \<open>
  \<open>cmd/edgekv/main.go\<close>: how the command line becomes the configuration of a node and its gateway.
  A Go map that is filled in a loop is an association list. The environment is the argument
  \<open>getenv\<close>; what \<open>flag.Parse\<close> does with the arguments is left out, so \<open>main_setup\<close> starts from the
  values of the flags. Listening, serving and shutting down are left out.
\<close>

section \<open>Parsing\<close>

definition splitNonEmpty :: "string \<Rightarrow> string list" where
  "splitNonEmpty s = filter (\<lambda>part. part \<noteq> []) (map TrimSpace (str_Split CHR '','' s))"

definition TrimRight_slash :: "string \<Rightarrow> string" where
  "TrimRight_slash = trim_right (\<lambda>c. c = CHR ''/'')"

type_synonym addresses = "(node_id \<times> string) list"

fun parse_items :: "string list \<Rightarrow> addresses \<Rightarrow> addresses \<Rightarrow> go_error + (addresses \<times> addresses)" where
  "parse_items [] raftAddrs httpURLs = Inr (raftAddrs, httpURLs)"
| "parse_items (item # items) raftAddrs httpURLs =
     (case str_Cut CHR ''='' item of
        None \<Rightarrow> Inl (ErrConfig ''want id=raftAddr|httpURL'')
      | Some (nid, rest) \<Rightarrow>
          (case str_Cut CHR ''|'' rest of
             None \<Rightarrow> Inl (ErrConfig ''want id=raftAddr|httpURL'')
           | Some (raftAddr, httpURL) \<Rightarrow>
               parse_items items (AList.update nid raftAddr raftAddrs) (AList.update nid (TrimRight_slash httpURL) httpURLs)))"

definition parseCluster :: "string \<Rightarrow> go_error + (addresses \<times> addresses)" where
  "parseCluster spec =
     bind_res (parse_items (splitNonEmpty spec) [] []) (\<lambda>(raftAddrs, httpURLs).
       if raftAddrs = [] then Inl (ErrConfig ''no nodes given'') else Inr (raftAddrs, httpURLs))"

datatype invalidator = InvNoop | InvPurge "string list" | InvCloudFront string

text \<open>\<open>load\<close>: whether the configuration of AWS can be loaded.\<close>

definition newInvalidator :: "bool \<Rightarrow> string \<Rightarrow> go_error + invalidator" where
  "newInvalidator load spec =
     (let (kind, arg) = (case str_Cut CHR '':'' spec of None \<Rightarrow> (spec, []) | Some p \<Rightarrow> p) in
      if kind = [] \<or> kind = ''none'' then Inr InvNoop
      else if kind = ''edge'' then Inr (InvPurge (splitNonEmpty arg))
      else if kind = ''cloudfront''
      then if arg = [] then Inl (ErrConfig ''cloudfront needs a distribution ID'')
           else if load then Inr (InvCloudFront arg) else Inl (ErrIO ''cdn: load AWS config'')
      else Inl (ErrConfig ''unknown invalidator''))"

definition env :: "(string \<Rightarrow> string) \<Rightarrow> string \<Rightarrow> string \<Rightarrow> string" where
  "env getenv key fallback = (if getenv key \<noteq> [] then getenv key else fallback)"

definition envInt :: "(string \<Rightarrow> string) \<Rightarrow> string \<Rightarrow> int \<Rightarrow> int" where
  "envInt getenv key fallback = (case Atoi (getenv key) of Some n \<Rightarrow> n | None \<Rightarrow> fallback)"

definition ParseBool :: "string \<Rightarrow> bool option" where
  "ParseBool s =
     (if s \<in> {''1'', ''t'', ''T'', ''TRUE'', ''true'', ''True''} then Some True
      else if s \<in> {''0'', ''f'', ''F'', ''FALSE'', ''false'', ''False''} then Some False else None)"

definition envBool :: "(string \<Rightarrow> string) \<Rightarrow> string \<Rightarrow> bool \<Rightarrow> bool" where
  "envBool getenv key fallback = (case ParseBool (getenv key) of Some b \<Rightarrow> b | None \<Rightarrow> fallback)"

section \<open>Set-up\<close>

record Flags =
  fl_id :: node_id
  fl_cluster :: string
  fl_shards :: int
  fl_fsync :: bool
  fl_snapEvery :: nat
  fl_heartbeat :: int
  fl_election :: int
  fl_rebalance :: int
  fl_namespaces :: string
  fl_invalidate :: string

definition default_flags :: "(string \<Rightarrow> string) \<Rightarrow> Flags" where
  "default_flags getenv =
     \<lparr>fl_id = env getenv ''EDGEKV_ID'' [], fl_cluster = env getenv ''EDGEKV_CLUSTER'' [],
      fl_shards = envInt getenv ''EDGEKV_SHARDS'' 3, fl_fsync = envBool getenv ''EDGEKV_FSYNC'' True,
      fl_snapEvery = nat (envInt getenv ''EDGEKV_SNAPSHOT_THRESHOLD'' 10000 mod 2 ^ 64),
      fl_heartbeat = 50000000, fl_election = 300000000, fl_rebalance = 3000000000,
      fl_namespaces = env getenv ''EDGEKV_CACHEABLE_NAMESPACES'' ''config:,feature:,agent-template:,prompt:'',
      fl_invalidate = env getenv ''EDGEKV_INVALIDATOR'' ''none''\<rparr>"

definition node_config :: "Flags \<Rightarrow> addresses \<Rightarrow> NodeConfig" where
  "node_config fl raftAddrs =
     \<lparr>nc_ID = fl_id fl, nc_Peers = sort (map fst raftAddrs), nc_NumShards = fl_shards fl, nc_Sync = fl_fsync fl,
      nc_SnapshotThreshold = fl_snapEvery fl, nc_WALSegmentSize = 0, nc_HeartbeatInterval = fl_heartbeat fl,
      nc_ElectionTimeoutMin = fl_election fl, nc_ElectionTimeoutMax = 2 * fl_election fl\<rparr>"

definition server_config :: "Flags \<Rightarrow> addresses \<Rightarrow> ServerConfig" where
  "server_config fl httpURLs =
     \<lparr>sc_NodeID = fl_id fl, sc_PeerHTTP = map_of httpURLs, sc_CacheableNamespaces = splitNonEmpty (fl_namespaces fl),
      sc_DefaultTTLSeconds = 0, sc_MaxTTLSeconds = 0, sc_Invalidations = True\<rparr>"

definition main_setup :: "bool \<Rightarrow> Flags \<Rightarrow> go_error + (NodeConfig \<times> ServerConfig \<times> invalidator)" where
  "main_setup load fl =
     bind_res (parseCluster (fl_cluster fl)) (\<lambda>(raftAddrs, httpURLs).
       if map_of raftAddrs (fl_id fl) = None then Inl (ErrConfig ''node is not listed in -cluster'')
       else bind_res (newInvalidator load (fl_invalidate fl)) (\<lambda>iv.
         Inr (node_config fl raftAddrs, server_New (server_config fl httpURLs), iv)))"

section \<open>Well-formed configurations\<close>

lemma parse_items_keys:
  assumes "parse_items items ra hu = Inr (ra', hu')" and "distinct (map fst ra)" and "map fst hu = map fst ra"
  shows "distinct (map fst ra') \<and> map fst hu' = map fst ra'"
  using assms
proof (induction items arbitrary: ra hu)
  case (Cons item items)
  have "map fst (AList.update k v hu) = map fst (AList.update k v' ra)" for k v v'
    using Cons.prems(3) by (simp add: update_keys)
  then show ?case
    using Cons by (auto simp: distinct_update split: option.splits)
qed simp

lemma parseCluster_keys:
  assumes "parseCluster spec = Inr (ra, hu)"
  shows "distinct (map fst ra) \<and> map fst hu = map fst ra \<and> ra \<noteq> []"
  using assms parse_items_keys [of "splitNonEmpty spec" "[]" "[]" ra hu]
  by (auto simp: parseCluster_def bind_res_eq_Inr split: if_splits)

lemma main_setupE:
  assumes "main_setup load fl = Inr (nc, sc, iv)"
  obtains ra hu where "parseCluster (fl_cluster fl) = Inr (ra, hu)" "nc = node_config fl ra"
    "sc = server_New (server_config fl hu)" "fl_id fl \<in> set (map fst ra)"
  using assms by (auto simp: main_setup_def bind_res_eq_Inr map_of_eq_None_iff split: if_splits)


section \<open>Printing and parsing\<close>

definition print_item :: "node_id \<times> string \<times> string \<Rightarrow> string" where
  "print_item = (\<lambda>(nid, addr, url). nid @ ''='' @ addr @ ''|'' @ url)"

fun print_cluster :: "(node_id \<times> string \<times> string) list \<Rightarrow> string" where
  "print_cluster [] = []"
| "print_cluster [x] = print_item x"
| "print_cluster (x # xs) = print_item x @ '','' @ print_cluster xs"

definition item_ok :: "node_id \<times> string \<times> string \<Rightarrow> bool" where
  "item_ok = (\<lambda>(nid, addr, url). CHR ''='' \<notin> set nid \<and> CHR ''|'' \<notin> set addr \<and> CHR '','' \<notin> set (nid @ addr @ url) \<and>
     (nid = [] \<or> \<not> is_space (hd nid)) \<and> (url = [] \<or> \<not> is_space (last url) \<and> last url \<noteq> CHR ''/''))"

lemma print_item_ok:
  assumes "item_ok x"
  shows "CHR '','' \<notin> set (print_item x)" "TrimSpace (print_item x) = print_item x" "print_item x \<noteq> []"
proof -
  obtain nid addr url where x: "x = (nid, addr, url)" by (cases x)
  have p: "print_item x = nid @ ''='' @ addr @ ''|'' @ url" by (simp add: print_item_def x)
  have sp: "\<not> is_space CHR ''=''" "\<not> is_space CHR ''|''" by (simp_all add: is_space_def)
  have "\<not> is_space (hd (nid @ ''='' @ addr @ ''|'' @ url))" "\<not> is_space (last (nid @ ''='' @ addr @ ''|'' @ url))"
    using assms sp by (auto simp: item_ok_def x hd_append)
  then show "TrimSpace (print_item x) = print_item x" unfolding p by (intro TrimSpace_id) simp
  show "CHR '','' \<notin> set (print_item x)" "print_item x \<noteq> []" using assms unfolding p by (auto simp: item_ok_def x)
qed

lemma split_print: "xs \<noteq> [] \<Longrightarrow> list_all item_ok xs \<Longrightarrow> splitNonEmpty (print_cluster xs) = map print_item xs"
proof (induction xs rule: print_cluster.induct)
  case (2 x)
  then show ?case using print_item_ok [of x] by (simp add: splitNonEmpty_def str_Split_plain)
next
  case (3 x y ys)
  then show ?case using print_item_ok [of x] by (simp add: splitNonEmpty_def str_Split_append)
qed simp

lemma parse_item_ok:
  assumes "item_ok (nid, addr, url)"
  shows "parse_items (print_item (nid, addr, url) # items) ra hu = parse_items items (AList.update nid addr ra) (AList.update nid url hu)"
proof -
  have "str_Cut CHR ''='' (nid @ CHR ''='' # (addr @ CHR ''|'' # url)) = Some (nid, addr @ CHR ''|'' # url)"
    "str_Cut CHR ''|'' (addr @ CHR ''|'' # url) = Some (addr, url)"
    using assms by (auto simp: item_ok_def intro: str_Cut_append)
  moreover have "TrimRight_slash url = url"
    unfolding TrimRight_slash_def using assms by (intro trim_right_id) (auto simp: item_ok_def)
  ultimately show ?thesis by (simp add: print_item_def)
qed

lemma parse_print_items:
  assumes "list_all item_ok xs" and "distinct (map fst ra @ map fst xs)" and "map fst hu = map fst ra"
  shows "parse_items (map print_item xs) ra hu =
    Inr (ra @ map (\<lambda>(i, a, u). (i, a)) xs, hu @ map (\<lambda>(i, a, u). (i, u)) xs)"
  using assms
proof (induction xs arbitrary: ra hu)
  case (Cons x xs)
  obtain nid addr url where x: "x = (nid, addr, url)" by (cases x)
  have new: "AList.update nid v al = al @ [(nid, v)]" if "nid \<notin> set (map fst al)" for v and al :: addresses
    using that by (induction al) auto
  have "nid \<notin> set (map fst ra)" "nid \<notin> set (map fst hu)" using Cons.prems x by auto
  then show ?case
    using Cons.prems Cons.IH [of "ra @ [(nid, addr)]" "hu @ [(nid, url)]"] parse_item_ok [of nid addr url] x
    by (simp add: new)
qed simp

text \<open>C39. Parsing inverts printing: a cluster written as \<open>id=raftAddr|httpURL\<close> items separated by commas,
  with distinct ids and no separator inside a field, is read back as the same addresses.\<close>

theorem parse_cluster_print:
  assumes "xs \<noteq> []" and "list_all item_ok xs" and "distinct (map fst xs)"
  shows "parseCluster (print_cluster xs) = Inr (map (\<lambda>(i, a, u). (i, a)) xs, map (\<lambda>(i, a, u). (i, u)) xs)"
  using assms parse_print_items [of xs "[]" "[]"] by (simp add: parseCluster_def split_print)

section \<open>Witnesses\<close>

definition ex_cluster :: "(node_id \<times> string \<times> string) list" where
  "ex_cluster = [(''n2'', ''h2:9090'', ''http://h2:8080''), (''n1'', ''h1:9090'', ''http://h1:8080'')]"

lemma ex_cluster_ok: "list_all item_ok ex_cluster" "distinct (map fst ex_cluster)" "ex_cluster \<noteq> []"
  by (simp_all add: ex_cluster_def item_ok_def is_space_def)

theorem parse_cluster_print_witness:
  "parseCluster ''n2=h2:9090|http://h2:8080,n1=h1:9090|http://h1:8080'' =
     Inr ([(''n2'', ''h2:9090''), (''n1'', ''h1:9090'')], [(''n2'', ''http://h2:8080''), (''n1'', ''http://h1:8080'')])"
  using parse_cluster_print [OF ex_cluster_ok(3,1,2)] by (simp add: ex_cluster_def print_item_def)

definition ex_flags :: "node_id \<Rightarrow> Flags" where
  "ex_flags n = (default_flags (\<lambda>_. []))\<lparr>fl_id := n, fl_cluster := print_cluster ex_cluster\<rparr>"


end
