(* ===== verification/EK_Metrics.thy ===== *)
theory EK_Metrics
  imports EK_Strings
begin

text \<open>
  Package \<open>internal/metrics\<close>: counters and histograms. A \<open>float64\<close> is an element of any linearly
  ordered type with addition; NaN is left out. \<open>sort.SearchFloat64s\<close> is the binary search of the
  Go library. Rendering the numbers as text and the collectors, which only print, are left out:
  \<open>cumulative\<close> is the loop of \<open>Write\<close> over the buckets of one histogram.
\<close>

section \<open>Series\<close>

text \<open>\<open>%q\<close> on ASCII text.\<close>

definition quote_char :: "char \<Rightarrow> string" where
  "quote_char c =
     (let n = (of_char c :: nat) in
      if n = 34 then [CHR 0x5C, CHR 0x22] else if n = 92 then [CHR 0x5C, CHR 0x5C]
      else if 32 \<le> n \<and> n < 127 then [c]
      else if n = 7 then [CHR 0x5C, CHR ''a''] else if n = 8 then [CHR 0x5C, CHR ''b''] else if n = 9 then [CHR 0x5C, CHR ''t'']
      else if n = 10 then [CHR 0x5C, CHR ''n''] else if n = 11 then [CHR 0x5C, CHR ''v''] else if n = 12 then [CHR 0x5C, CHR ''f'']
      else if n = 13 then [CHR 0x5C, CHR ''r'']
      else [CHR 0x5C, CHR ''x'', digit (n div 16), (if n mod 16 < 10 then digit (n mod 16) else char_of (87 + n mod 16))])"

definition Quote :: "string \<Rightarrow> string" where
  "Quote s = [CHR 0x22] @ concat (map quote_char s) @ [CHR 0x22]"

fun str_Join :: "string list \<Rightarrow> string" where
  "str_Join [] = []"
| "str_Join [x] = x"
| "str_Join (x # xs) = x @ '','' @ str_Join xs"

text \<open>The labels are given in the order of their names, as \<open>sort.Strings\<close> leaves them.\<close>

definition seriesKey :: "string \<Rightarrow> (string \<times> string) list \<Rightarrow> string" where
  "seriesKey name labels =
     (if labels = [] then name
      else name @ ''{'' @ str_Join (map (\<lambda>(k, v). k @ ''='' @ Quote v) labels) @ ''}'')"

definition splitKey :: "string \<Rightarrow> string \<times> string" where
  "splitKey key = (case str_Cut CHR ''{'' key of None \<Rightarrow> (key, []) | Some (name, rest) \<Rightarrow> (name, CHR ''{'' # rest))"

definition withLabel :: "string \<Rightarrow> string \<Rightarrow> string \<Rightarrow> string" where
  "withLabel labels k v =
     (let extra = k @ ''='' @ Quote v in
      if labels = [] then ''{'' @ extra @ ''}'' else butlast labels @ '','' @ extra @ ''}'')"

section \<open>The registry\<close>

record 'f histogram =
  hg_buckets :: "'f list"
  hg_counts :: "u64 list"
  hg_sum :: 'f

record 'f Registry =
  rg_counters :: "string \<rightharpoonup> u64"
  rg_histograms :: "string \<rightharpoonup> 'f histogram"
  rg_help :: "string \<rightharpoonup> string"

definition NewRegistry :: "'f Registry" where
  "NewRegistry = \<lparr>rg_counters = Map.empty, rg_histograms = Map.empty, rg_help = Map.empty\<rparr>"

definition Add_counter :: "'f Registry \<Rightarrow> string \<Rightarrow> (string \<times> string) list \<Rightarrow> u64 \<Rightarrow> 'f Registry" where
  "Add_counter r name labels n =
     (let key = seriesKey name labels
      in r\<lparr>rg_counters := (rg_counters r)(key \<mapsto> get0 (rg_counters r) 0 key + n)\<rparr>)"

definition Inc :: "'f Registry \<Rightarrow> string \<Rightarrow> (string \<times> string) list \<Rightarrow> 'f Registry" where
  "Inc r name labels = Add_counter r name labels 1"

definition Help :: "'f Registry \<Rightarrow> string \<Rightarrow> string \<Rightarrow> 'f Registry" where
  "Help r name txt = r\<lparr>rg_help := (rg_help r)(name \<mapsto> txt)\<rparr>"

text \<open>\<open>sort.Search\<close> between \<open>i\<close> and \<open>j\<close>.\<close>

function search :: "(nat \<Rightarrow> bool) \<Rightarrow> nat \<Rightarrow> nat \<Rightarrow> nat" where
  "search f i j =
     (if i < j then let h = (i + j) div 2 in if \<not> f h then search f (h + 1) j else search f i h else i)"
  by auto
termination
  by (relation "measure (\<lambda>(f, i, j). j - i)") auto

declare search.simps [simp del]

definition SearchFloat64s :: "'f :: linorder list \<Rightarrow> 'f \<Rightarrow> nat" where
  "SearchFloat64s a x = search (\<lambda>i. a ! i \<ge> x) 0 (length a)"

definition new_histogram :: "'f :: zero list \<Rightarrow> 'f histogram" where
  "new_histogram buckets = \<lparr>hg_buckets = buckets, hg_counts = replicate (length buckets + 1) 0, hg_sum = 0\<rparr>"

definition observe :: "'f :: {linorder, plus} histogram \<Rightarrow> 'f \<Rightarrow> 'f histogram" where
  "observe h v =
     (let idx = SearchFloat64s (hg_buckets h) v
      in h\<lparr>hg_counts := (hg_counts h)[idx := hg_counts h ! idx + 1], hg_sum := hg_sum h + v\<rparr>)"

definition Observe :: "'f :: {linorder, plus, zero} list \<Rightarrow> 'f Registry \<Rightarrow> string \<Rightarrow> (string \<times> string) list \<Rightarrow> 'f \<Rightarrow> 'f Registry" where
  "Observe defaultBuckets r name labels v =
     (let key = seriesKey name labels;
          h = (case rg_histograms r key of Some h \<Rightarrow> h | None \<Rightarrow> new_histogram defaultBuckets)
      in r\<lparr>rg_histograms := (rg_histograms r)(key \<mapsto> observe h v)\<rparr>)"

text \<open>The counts that \<open>Write\<close> prints: one for each bucket, and the one for \<open>+Inf\<close>.\<close>

fun cumulative :: "u64 \<Rightarrow> u64 list \<Rightarrow> u64 list" where
  "cumulative acc [] = []"
| "cumulative acc (c # cs) = (acc + c) # cumulative (acc + c) cs"

definition printed_counts :: "'f histogram \<Rightarrow> u64 list" where
  "printed_counts h = cumulative 0 (hg_counts h)"

section \<open>Binary search\<close>

lemma search_spec:
  assumes "\<forall>a b. a \<le> b \<longrightarrow> b < n \<longrightarrow> f a \<longrightarrow> f b" and "j \<le> n" and "i \<le> j"
    and "\<forall>k < i. \<not> f k" and "\<forall>k. j \<le> k \<and> k < n \<longrightarrow> f k"
  shows "search f i j \<le> n \<and> (\<forall>k < search f i j. \<not> f k) \<and> (\<forall>k. search f i j \<le> k \<and> k < n \<longrightarrow> f k)"
  using assms
proof (induction f i j rule: search.induct)
  case (1 f i j)
  let ?h = "(i + j) div 2"
  show ?case
  proof (cases "i < j")
    case True
    then have h: "i \<le> ?h" "?h < j" by auto
    show ?thesis
    proof (cases "f ?h")
      case f: True
      then have up: "\<forall>k. ?h \<le> k \<and> k < n \<longrightarrow> f k" using "1.prems"(1) by blast
      have le: "?h \<le> n" using h "1.prems"(2) by simp
      have eq: "search f i j = search f i ?h" using True f by (subst search.simps) (simp add: Let_def)
      show ?thesis
        unfolding eq using f by (intro "1.IH"(2) [OF True refl _ "1.prems"(1) le h(1) "1.prems"(4) up]) simp
    next
      case f: False
      have down: "\<forall>k < ?h + 1. \<not> f k"
      proof (intro allI impI notI)
        fix k
        assume "k < ?h + 1" "f k"
        moreover have "k \<le> ?h" "?h < n" using \<open>k < ?h + 1\<close> h "1.prems"(2) by linarith+
        ultimately show False using f "1.prems"(1) by blast
      qed
      have le: "?h + 1 \<le> j" using h by simp
      have eq: "search f i j = search f (?h + 1) j" using True f by (subst search.simps) (simp add: Let_def)
      show ?thesis
        unfolding eq by (rule "1.IH"(1) [OF True refl f "1.prems"(1,2) le down "1.prems"(5)])
    qed
  next
    case False
    have eq: "search f i j = i" using False by (subst search.simps) simp
    have "i = j" using False "1.prems"(3) by simp
    then show ?thesis unfolding eq using "1.prems"(2,4,5) by blast
  qed
qed

lemma SearchFloat64s_spec:
  assumes "sorted a"
  shows "SearchFloat64s a x \<le> length a" "k < length a \<Longrightarrow> SearchFloat64s a x \<le> k \<longleftrightarrow> x \<le> a ! k"
proof -
  let ?s = "search (\<lambda>i. a ! i \<ge> x) 0 (length a)"
  have mono: "\<forall>i j. i \<le> j \<longrightarrow> j < length a \<longrightarrow> x \<le> a ! i \<longrightarrow> x \<le> a ! j"
    by (intro allI impI) (rule order_trans [OF _ sorted_nth_mono [OF assms]])
  have up: "\<forall>k. length a \<le> k \<and> k < length a \<longrightarrow> x \<le> a ! k" by auto
  have s: "?s \<le> length a \<and> (\<forall>k < ?s. \<not> a ! k \<ge> x) \<and> (\<forall>k. ?s \<le> k \<and> k < length a \<longrightarrow> a ! k \<ge> x)"
    by (rule search_spec [OF mono order_refl _ _ up]) simp_all
  have eq: "SearchFloat64s a x = ?s" by (simp only: SearchFloat64s_def)
  show "SearchFloat64s a x \<le> length a" unfolding eq using s by (rule conjunct1)
  assume k: "k < length a"
  show "SearchFloat64s a x \<le> k \<longleftrightarrow> x \<le> a ! k"
    unfolding eq using s k not_less by blast
qed

section \<open>What a histogram prints\<close>

lemma cumulative_nth: "i < length cs \<Longrightarrow> cumulative acc cs ! i = acc + sum_list (take (Suc i) cs)"
proof (induction cs arbitrary: acc i)
  case (Cons c cs)
  then show ?case by (cases i) (simp_all add: add.assoc)
qed simp

lemma length_cumulative [simp]: "length (cumulative acc cs) = length cs"
  by (induction cs arbitrary: acc) auto

lemma sum_list_upd: "j < length cs \<Longrightarrow> sum_list (take n (cs[j := cs ! j + (1 :: u64)])) = sum_list (take n cs) + (if j < n then 1 else 0)"
proof (induction cs arbitrary: j n)
  case (Cons c cs)
  show ?case
  proof (cases j)
    case 0
    then show ?thesis by (cases n) (simp_all add: add.assoc)
  next
    case (Suc j')
    show ?thesis
    proof (cases n)
      case (Suc n')
      have "sum_list (take n' (cs[j' := cs ! j' + 1])) = sum_list (take n' cs) + (if j' < n' then 1 else 0)"
        using Cons.prems \<open>j = Suc j'\<close> by (intro Cons.IH) simp
      then show ?thesis using Suc \<open>j = Suc j'\<close> by (simp add: add.assoc)
    qed simp
  qed
qed simp

text \<open>The observations up to a bucket, and all of them for \<open>+Inf\<close>.\<close>

definition up_to :: "'f :: linorder list \<Rightarrow> nat \<Rightarrow> 'f list \<Rightarrow> 'f list" where
  "up_to buckets i vs = filter (\<lambda>v. i < length buckets \<longrightarrow> v \<le> buckets ! i) vs"

lemma observe_all:
  assumes "sorted buckets" and "length cs = length buckets + 1" and "hg_buckets h = buckets" and "hg_counts h = cs"
  shows "hg_buckets (foldl observe h vs) = buckets \<and> length (hg_counts (foldl observe h vs)) = length buckets + 1 \<and>
    (\<forall>i \<le> length buckets. sum_list (take (Suc i) (hg_counts (foldl observe h vs))) =
       sum_list (take (Suc i) cs) + of_nat (length (up_to buckets i vs)))"
  using assms(2-)
proof (induction vs arbitrary: h cs)
  case (Cons v vs)
  let ?i = "SearchFloat64s buckets v"
  have idx: "?i < length cs" using SearchFloat64s_spec(1) [OF assms(1)] Cons.prems by (simp add: less_Suc_eq_le)
  let ?cs = "cs[?i := cs ! ?i + 1]"
  have h: "hg_buckets (observe h v) = buckets" "hg_counts (observe h v) = ?cs"
    using Cons.prems by (simp_all add: observe_def Let_def)
  have le: "?i < Suc i \<longleftrightarrow> (i < length buckets \<longrightarrow> v \<le> buckets ! i)" if "i \<le> length buckets" for i
    using SearchFloat64s_spec [OF assms(1), where x = v] that
    by (cases "i < length buckets") (simp_all add: less_Suc_eq_le)
  have step: "sum_list (take (Suc i) ?cs) + of_nat (length (up_to buckets i vs)) =
      sum_list (take (Suc i) cs) + of_nat (length (up_to buckets i (v # vs)))" if "i \<le> length buckets" for i
    using sum_list_upd [OF idx, of "Suc i"] le [OF that] by (simp add: up_to_def)
  have "length ?cs = length buckets + 1" using Cons.prems(1) by simp
  note IH = Cons.IH [OF this h]
  have "sum_list (take (Suc i) (hg_counts (foldl observe (observe h v) vs))) =
      sum_list (take (Suc i) cs) + of_nat (length (up_to buckets i (v # vs)))" if "i \<le> length buckets" for i
    unfolding step [OF that, symmetric] by (rule IH [THEN conjunct2, THEN conjunct2, rule_format, OF that])
  then show ?case unfolding foldl_Cons
    by (intro conjI allI impI IH [THEN conjunct1] IH [THEN conjunct2, THEN conjunct1])
qed (simp add: up_to_def)

text \<open>C40. The printed histogram counts right. After any observations, the number that \<open>Write\<close> prints for
  a bucket is the number of observations up to its bound, and the number for \<open>+Inf\<close> that of all
  observations, modulo \<open>2 ^ 64\<close>: the binary search and the running sum agree with counting.\<close>

theorem histogram_cumulative:
  assumes "sorted buckets" and "i \<le> length buckets"
  shows "printed_counts (foldl observe (new_histogram buckets) vs) ! i =
    of_nat (length (filter (\<lambda>v. i < length buckets \<longrightarrow> v \<le> buckets ! i) vs))"
proof -
  let ?h = "foldl observe (new_histogram buckets) vs"
  have "length (replicate (length buckets + 1) (0 :: u64)) = length buckets + 1" by (rule length_replicate)
  from observe_all [OF assms(1) this, of "new_histogram buckets" vs]
  have all: "length (hg_counts ?h) = length buckets + 1 \<and> (\<forall>i \<le> length buckets. sum_list (take (Suc i) (hg_counts ?h)) =
      sum_list (take (Suc i) (replicate (length buckets + 1) 0)) + of_nat (length (up_to buckets i vs)))"
    unfolding new_histogram_def histogram.simps by blast
  have zero: "sum_list (take (Suc i) (replicate (length buckets + 1) (0 :: u64))) = 0"
    by (simp only: take_replicate sum_list_replicate mult_zero_right)
  have o: "length (hg_counts ?h) = length buckets + 1"
    "sum_list (take (Suc i) (hg_counts ?h)) = of_nat (length (up_to buckets i vs))"
    using all assms(2) zero by (blast, metis add_0)
  have "cumulative 0 (hg_counts ?h) ! i = sum_list (take (Suc i) (hg_counts ?h))"
    using cumulative_nth [of i "hg_counts ?h" 0] o(1) assms(2) by simp
  then show ?thesis unfolding printed_counts_def o(2) up_to_def .
qed

theorem histogram_cumulative_witness:
  "printed_counts (foldl observe (new_histogram [1, 5, 10 :: int]) [3, 1, 20, 5]) ! 1 = 3"
  using histogram_cumulative [of "[1, 5, 10 :: int]" 1 "[3, 1, 20, 5]"] by simp

end
