(* ===== verification/Spec2Isabelle.thy ===== *)
theory Spec2Isabelle
  imports EK_Safety EK_Transport EK_Origin EK_Client EK_Cdn EK_Main EK_Metrics
begin

text \<open>
  EdgeKV is a key-value store in Go. The keys are divided into shards; every node holds a replica
  of every shard, and the replicas of a shard agree by Raft. A gateway on each node serves HTTP,
  forwards writes to the leader of the shard, and marks some entries as cacheable; an edge cache
  keeps those for a limited time and is told to drop them after a write. A client library retries
  requests. The development follows this path from the disk to the client.

  \<^bold>\<open>Conventions.\<close> A struct is a record, a method a function from the old state to the new one, an
  \<open>error\<close> or a panic the left side of a sum (\<^typ>\<open>go_error\<close>). \<open>uint64\<close> is \<^typ>\<open>u64\<close> with wrap-around where
  the values are data (versions, deduplication windows, counters), and a natural number for Raft
  terms and indexes. A function that releases a lock is one definition for each critical section, so that
  every interleaving of goroutines is a sequence of these definitions. What lies outside the source
  is an argument: marshalling of protocol buffers (\<open>pb_codec\<close>), the file system's failures (a list of
  outcomes), the clock and random numbers (\<open>Env\<close>), the network (the answers of a request), the iteration
  order of Go maps. Hypotheses about them are hypotheses of the theorems, with
  instances in \<open>EK_ExampleCodec\<close> and in the witness after each theorem.

  \<^bold>\<open>Shared vocabulary.\<close> \<open>EK_Prelude\<close>: errors, sums, lists, maps. \<open>EK_Pb\<close>: the messages of
  \<open>proto/edgekv.proto\<close>. \<open>EK_Crc\<close>: little-endian integers and CRC-32C. \<open>EK_Strings\<close>: what the code
  uses of \<open>strings\<close>, \<open>strconv\<close>, \<open>net/url\<close> and \<open>http.Header\<close>.

  \<^bold>\<open>State machine.\<close> \<open>EK_Store\<close> models \<open>internal/store/store.go\<close>: versioned records with tombstones, and
  the table of request ids that makes a retried command apply once. Shown: refinement of an abstract
  versioned map, a version of a key names one value, no ABA for compare-and-set, retries return the
  first result, snapshots restore everything. \<open>EK_Machine\<close> states \<open>raft.StateMachine\<close> as the locale
  \<open>state_machine\<close>, interpreted by the store: a replica that starts from a snapshot agrees with one that applied the whole log.
  \<open>EK_Shard\<close> models \<open>internal/shard\<close>.

  \<^bold>\<open>Storage.\<close> \<open>EK_Wal\<close> models \<open>internal/wal/wal.go\<close> on the bytes of the segment files: refinement of a
  list of segments of records, recovery from a crash in the middle of an append, what damage is
  detected. \<open>EK_RaftStore\<close> models \<open>internal/raftstore\<close>, and \<open>EK_Durable\<close> and \<open>EK_Replay\<close> show what it
  keeps: the last hard state survives garbage collection, \<open>Save\<close> and \<open>SaveSnapshot\<close> do to what \<open>Load\<close>
  returns what the interface promises, and a crash inside \<open>Save\<close> loses at most the interrupted batch.
  Two of the theorems are about inputs on which this fails. \<open>EK_Storage\<close> has the interface
  \<open>raft.Storage\<close> as a record of operations with the locale \<open>hard_state_storage\<close> of what elections rely
  on, and models \<open>storage_mem.go\<close>; both storages interpret it.

  \<^bold>\<open>Raft.\<close> \<open>EK_RaftLog\<close> (\<open>log.go\<close>), \<open>EK_Raft\<close> (\<open>raft.go\<close>, \<open>types.go\<close>), \<open>EK_Election\<close> (\<open>election.go\<close>),
  \<open>EK_Replication\<close> (\<open>replication.go\<close>), \<open>EK_Apply\<close> (\<open>apply.go\<close>) hold the replica. \<open>EK_Voting\<close> shows for
  every operation what it does to term, vote and role; \<open>EK_System\<close> puts replicas, network and crashes
  into a transition system, and \<open>EK_Safety\<close> concludes election safety over the durable storage.

  \<^bold>\<open>Node and network.\<close> \<open>EK_Node\<close> models \<open>internal/node\<close>: routing of keys and messages to shards, spread of
  the leaders. \<open>EK_Transport\<close> models \<open>internal/transport/grpc.go\<close>: a snapshot sent in chunks arrives
  unchanged. \<open>EK_Main\<close> models the configuration part of \<open>cmd/edgekv/main.go\<close>: one cluster description
  gives well-formed Raft groups on all nodes.

  \<^bold>\<open>Gateway, cache, client.\<close> \<open>EK_Server\<close> models the handlers of \<open>internal/server/server.go\<close>: a request is
  forwarded at most once and means the same command to the leader; only configured namespaces are
  cacheable. \<open>EK_Edge\<close> models \<open>cmd/edgekv-edge\<close> with requests in flight, \<open>EK_Staleness\<close> the cache in
  front of any origin that meets the locale \<open>cache_origin\<close>, and \<open>EK_Origin\<close> interprets it by the
  gateways over the logs of the shards: a cached read is never older than the TTL bound. \<open>EK_Cdn\<close> models
  the invalidation queue (no lost wake-up, every path is tried), \<open>EK_Client\<close> the client library
  (requests end, are decoded as meant, and reads return what the gateway has), \<open>EK_Metrics\<close> the
  counters and histograms of \<open>internal/metrics\<close>.

  \<^bold>\<open>Bounds.\<close> No definition runs on fuel that may be too small: \<open>do_loop\<close> of the client counts down the
  retries that the code counts up, and the readers of log segments, snapshot chunks and the binary
  search of the histograms are functions with termination proofs. Constants are those of the source
  (\<open>maxRecordSize\<close>, \<open>snapshotChunkSize\<close>, \<open>maxBodyBytes\<close>, four attempts of the invalidation worker).

  \<^bold>\<open>Not modelled.\<close> The goroutines that only wait for timers or channels and then call a modelled section
  (\<open>runTicker\<close>, \<open>runReplicator\<close>, the loops around the applier and the reader); logging; the generated
  code in \<open>internal/pb\<close>; the calls to CloudFront, which go through a vendor's SDK; the in-memory
  network of the tests; the status and metrics pages and the text around the histogram counts; listening sockets, signals and
  shutdown of the binaries; the benchmark, which only generates load and prints times.
\<close>

end
